(* ===== verification/ROS_Prelude.thy ===== *)
theory ROS_Prelude
  imports Main "HOL-Library.Word" "HOL-Library.Monad_Syntax" "HOL-Library.Signed_Division"
begin

text \<open>
  Shared vocabulary of the development: the machine types of the C sources, the option
  monad in which \<open>None\<close> stands for undefined behaviour (division by zero, an index out of
  range, a null dereference) or for a loop that does not end, checked array access and
  C division, and the list lemmas that several components use.
\<close>

unbundle bit_operations_syntax

named_theorems ros_simps \<open>rewrite rules shared by the component proofs\<close>
named_theorems ros_inv \<open>invariant preservation lemmas\<close>

type_synonym u8 = "8 word"
type_synonym u32 = "32 word"
type_synonym u64 = "64 word"
type_synonym cpid = nat
type_synonym radar_num = int

section \<open>Undefined behaviour as \<open>None\<close>\<close>

text \<open>An array read: C does not check the index, and an index out of range is undefined.\<close>

definition aref :: "'a list \<Rightarrow> int \<Rightarrow> 'a option" where
  "aref xs i = (if 0 \<le> i \<and> i < int (length xs) then Some (xs ! nat i) else None)"

text \<open>An array write, with the same side condition.\<close>

definition aset :: "'a list \<Rightarrow> int \<Rightarrow> 'a \<Rightarrow> 'a list option" where
  "aset xs i v = (if 0 \<le> i \<and> i < int (length xs) then Some (xs[nat i := v]) else None)"

text \<open>C integer division and remainder truncate towards zero and trap on a zero divisor.\<close>

definition cdiv :: "int \<Rightarrow> int \<Rightarrow> int option" where
  "cdiv a b = (if b = 0 then None else Some (a sdiv b))"

definition crem :: "int \<Rightarrow> int \<Rightarrow> int option" where
  "crem a b = (if b = 0 then None else Some (a smod b))"

lemma aref_Some_iff: "aref xs i = Some x \<longleftrightarrow> 0 \<le> i \<and> i < int (length xs) \<and> xs ! nat i = x"
  by (auto simp: aref_def)

lemma aref_of_nat [simp]: "aref xs (int n) = (if n < length xs then Some (xs ! n) else None)"
  by (simp add: aref_def)

lemma aset_of_nat [simp]: "aset xs (int n) v = (if n < length xs then Some (xs[n := v]) else None)"
  by (simp add: aset_def)

lemma aset_Some_iff:
  "aset xs i v = Some ys \<longleftrightarrow> 0 \<le> i \<and> i < int (length xs) \<and> ys = xs[nat i := v]"
  by (auto simp: aset_def)

lemma aset_all: "aset xs i v = Some ys \<Longrightarrow> \<forall>x \<in> set xs. P x \<Longrightarrow> P v \<Longrightarrow> \<forall>y \<in> set ys. P y"
  using set_update_subset_insert [of xs "nat i" v] by (auto simp: aset_Some_iff)

lemma aset_length: "aset xs i v = Some ys \<Longrightarrow> length ys = length xs"
  by (auto simp: aset_Some_iff)

lemma sdiv_nonneg: "0 \<le> a \<Longrightarrow> 0 < b \<Longrightarrow> (a::int) sdiv b = a div b"
  by (auto simp: signed_divide_int_def sgn_if)

lemma smod_nonneg: "0 \<le> a \<Longrightarrow> 0 < b \<Longrightarrow> (a::int) smod b = a mod b"
  by (auto simp: signed_modulo_int_def sdiv_nonneg minus_div_mult_eq_mod [symmetric] sgn_if)

lemma cdiv_pos [simp]: "0 \<le> a \<Longrightarrow> 0 < b \<Longrightarrow> cdiv a b = Some (a div b)"
  by (simp add: cdiv_def sdiv_nonneg)

lemma crem_pos [simp]: "0 \<le> a \<Longrightarrow> 0 < b \<Longrightarrow> crem a b = Some (a mod b)"
  by (simp add: crem_def smod_nonneg)

lemma cdiv_zero [simp]: "cdiv a 0 = None"
  by (simp add: cdiv_def)

lemma crem_zero [simp]: "crem a 0 = None"
  by (simp add: crem_def)

section \<open>Lists\<close>

text \<open>The index of the first element that satisfies a test, as the C search loops find it.\<close>

fun find_index :: "('a \<Rightarrow> bool) \<Rightarrow> 'a list \<Rightarrow> nat option" where
  "find_index P [] = None"
| "find_index P (x # xs) = (if P x then Some 0 else map_option Suc (find_index P xs))"

lemma find_index_None [simp]: "find_index P xs = None \<longleftrightarrow> (\<forall>x \<in> set xs. \<not> P x)"
  by (induction xs) auto

lemma find_index_SomeD:
  "find_index P xs = Some i \<Longrightarrow> i < length xs \<and> P (xs ! i) \<and> (\<forall>j < i. \<not> P (xs ! j))"
proof (induction xs arbitrary: i)
  case Nil
  then show ?case by simp
next
  case (Cons x xs)
  show ?case
  proof (cases "P x")
    case True
    with Cons.prems show ?thesis by auto
  next
    case False
    with Cons.prems obtain k where k: "find_index P xs = Some k" "i = Suc k" by auto
    have "(\<forall>j < Suc k. \<not> P ((x # xs) ! j))"
    proof (intro allI impI)
      fix j assume "j < Suc k"
      with False Cons.IH [OF k(1)] show "\<not> P ((x # xs) ! j)" by (cases j) auto
    qed
    with Cons.IH [OF k(1)] k(2) show ?thesis by simp
  qed
qed

lemma find_index_exists: "x \<in> set xs \<Longrightarrow> P x \<Longrightarrow> \<exists>i. find_index P xs = Some i"
  by (metis find_index_None not_None_eq)

lemma find_index_cong2:
  assumes "length xs = length ys" and "\<And>i. i < length ys \<Longrightarrow> P (xs ! i) = Q (ys ! i)"
  shows "find_index P xs = find_index Q ys"
  using assms
proof (induction xs ys rule: list_induct2)
  case Nil
  then show ?case by simp
next
  case (Cons x xs y ys)
  have "P x = Q y" using Cons.prems [of 0] by simp
  moreover have "find_index P xs = find_index Q ys"
    by (rule Cons.IH) (use Cons.prems [of "Suc i" for i] in auto)
  ultimately show ?case by simp
qed

lemma option_eq_iffI: "(\<And>v. (a = Some v) = (b = Some v)) \<Longrightarrow> a = b"
  by (cases a; cases b) auto

lemma filter_update_length:
  assumes "i < length xs"
  shows "length (filter P (xs[i := y])) + (if P (xs ! i) then 1 else 0)
       = length (filter P xs) + (if P y then 1 else 0)"
  using assms
proof (induction xs arbitrary: i)
  case Nil
  then show ?case by simp
next
  case (Cons x xs)
  then show ?case by (cases i) fastforce+
qed

end
