(* ===== verification/Data_Transport.thy ===== *)
theory Data_Transport
  imports ROS_Prelude "HOL-Library.Sublist"
begin

text \<open>
  The bytes under the messages: \<^verbatim>\<open>send_data\<close> and \<^verbatim>\<open>recv_data\<close> of \<^verbatim>\<open>utils.c\<close>, through which every process of the system talks. Both loop over a
  system call that moves some of the bytes. The theorem says that structures come out of a connection as they went in, however the kernel cuts them, which is why
  the other theories can treat a socket as a list of items.
\<close>

section \<open>The loops\<close>

text \<open>
  What a system call does is up to the kernel: \<open>cc k n\<close> is what call number \<open>k\<close> returns when \<open>n\<close> bytes could be moved, -1 for an error, 0 for a closed
  connection, else the number of bytes moved. A number of bytes that could not be moved is not a value the call returns.
\<close>

type_synonym kernel = "nat \<Rightarrow> nat \<Rightarrow> int"

text \<open>The bytes on the connection grow by what each call takes. The result is the value returned, the number of the next call and the bytes on the connection.\<close>

function send_loop :: "kernel \<Rightarrow> nat \<Rightarrow> u8 list \<Rightarrow> int \<Rightarrow> u8 list \<Rightarrow> (int \<times> nat \<times> u8 list) option" where
  "send_loop cc k buf tot net =
    (if buf = [] then Some (tot, k, net)
     else let c = cc k (length buf) in
       if c = -1 then Some (-1, Suc k, net)
       else if c = 0 then Some (-1, Suc k, net)
       else if 0 < c \<and> c \<le> int (length buf) then send_loop cc (Suc k) (drop (nat c) buf) (tot + c) (net @ take (nat c) buf)
       else None)"
  by pat_completeness auto
termination
  by (relation "measure (\<lambda>(cc, k, buf, tot, net). length buf)") auto

declare send_loop.simps [simp del]

definition send_data :: "kernel \<Rightarrow> nat \<Rightarrow> u8 list \<Rightarrow> u8 list \<Rightarrow> (int \<times> nat \<times> u8 list) option" where
  "send_data cc k buf net = send_loop cc k buf 0 net"

text \<open>
  A receive on an open connection without bytes does not return. The result is the value returned, the number of the next call, the bytes stored in the buffer
  and those left on the connection.
\<close>

function recv_loop :: "kernel \<Rightarrow> nat \<Rightarrow> nat \<Rightarrow> int \<Rightarrow> u8 list \<Rightarrow> u8 list \<Rightarrow> (int \<times> nat \<times> u8 list \<times> u8 list) option" where
  "recv_loop cc k buflen tot buf net =
    (if buflen = 0 then Some (tot, k, buf, net)
     else let c = cc k (min buflen (length net)) in
       if c = -1 then Some (-1, Suc k, buf, net)
       else if c = 0 then Some (-1, Suc k, buf, net)
       else if 0 < c \<and> c \<le> int (min buflen (length net)) then recv_loop cc (Suc k) (buflen - nat c) (tot + c) (buf @ take (nat c) net) (drop (nat c) net)
       else None)"
  by pat_completeness auto
termination
  by (relation "measure (\<lambda>(cc, k, buflen, tot, buf, net). buflen)") auto

declare recv_loop.simps [simp del]

definition recv_data :: "kernel \<Rightarrow> nat \<Rightarrow> nat \<Rightarrow> u8 list \<Rightarrow> (int \<times> nat \<times> u8 list \<times> u8 list) option" where
  "recv_data cc k buflen net = recv_loop cc k buflen 0 [] net"

section \<open>One message\<close>

text \<open>A kernel that moves at least one byte with every call.\<close>

definition moves :: "kernel \<Rightarrow> bool" where
  "moves cc \<longleftrightarrow> (\<forall>k n. 0 < n \<longrightarrow> 1 \<le> cc k n \<and> cc k n \<le> int n)"

lemma send_loop_moves:
  assumes "moves cc"
  shows "\<exists>k'. send_loop cc k buf tot net = Some (tot + int (length buf), k', net @ buf)"
proof (induction "length buf" arbitrary: k buf tot net rule: less_induct)
  case less
  show ?case
  proof (cases "buf = []")
    case False
    let ?c = "cc k (length buf)"
    have c: "1 \<le> ?c" "?c \<le> int (length buf)" using assms False by (simp_all add: moves_def)
    then have "length (drop (nat ?c) buf) < length buf" using False by simp
    then obtain k' where "send_loop cc (Suc k) (drop (nat ?c) buf) (tot + ?c) (net @ take (nat ?c) buf) =
        Some (tot + ?c + int (length (drop (nat ?c) buf)), k', (net @ take (nat ?c) buf) @ drop (nat ?c) buf)" using less by blast
    moreover have "send_loop cc k buf tot net = send_loop cc (Suc k) (drop (nat ?c) buf) (tot + ?c) (net @ take (nat ?c) buf)"
      by (subst send_loop.simps) (use c False in \<open>simp add: Let_def\<close>)
    ultimately show ?thesis using c by simp
  qed (simp add: send_loop.simps)
qed

lemma send_data_moves: "moves cc \<Longrightarrow> \<exists>k'. send_data cc k buf net = Some (int (length buf), k', net @ buf)"
  using send_loop_moves [of cc k buf 0 net] by (simp add: send_data_def)

lemma recv_loop_moves:
  assumes "moves cc"
  shows "\<exists>k'. recv_loop cc k (length new) tot buf (new @ net) = Some (tot + int (length new), k', buf @ new, net)"
proof (induction "length new" arbitrary: k new tot buf rule: less_induct)
  case less
  show ?case
  proof (cases "new = []")
    case False
    let ?c = "cc k (length new)"
    have c: "1 \<le> ?c" "?c \<le> int (length new)" using assms False by (simp_all add: moves_def)
    then have "length (drop (nat ?c) new) < length new" using False by simp
    then obtain k' where "recv_loop cc (Suc k) (length (drop (nat ?c) new)) (tot + ?c) (buf @ take (nat ?c) new) (drop (nat ?c) new @ net) =
        Some (tot + ?c + int (length (drop (nat ?c) new)), k', (buf @ take (nat ?c) new) @ drop (nat ?c) new, net)" using less by blast
    moreover have "recv_loop cc k (length new) tot buf (new @ net) =
        recv_loop cc (Suc k) (length (drop (nat ?c) new)) (tot + ?c) (buf @ take (nat ?c) new) (drop (nat ?c) new @ net)"
      by (subst recv_loop.simps) (use c False in \<open>simp add: Let_def\<close>)
    ultimately show ?thesis using c by simp
  qed (simp add: recv_loop.simps)
qed

lemma recv_data_moves: "moves cc \<Longrightarrow> \<exists>k'. recv_data cc k (length new) (new @ net) = Some (int (length new), k', new, net)"
  using recv_loop_moves [of cc k new 0 "[]" net] by (simp add: recv_data_def)

section \<open>Series of messages\<close>

fun send_series :: "kernel \<Rightarrow> nat \<Rightarrow> u8 list list \<Rightarrow> u8 list \<Rightarrow> (int list \<times> u8 list) option" where
  "send_series cc k [] net = Some ([], net)"
| "send_series cc k (b # bs) net =
    Option.bind (send_data cc k b net) (\<lambda>(r, k', net'). map_option (apfst (Cons r)) (send_series cc k' bs net'))"

fun recv_series :: "kernel \<Rightarrow> nat \<Rightarrow> nat list \<Rightarrow> u8 list \<Rightarrow> (int list \<times> u8 list list \<times> u8 list) option" where
  "recv_series cc k [] net = Some ([], [], net)"
| "recv_series cc k (n # ns) net =
    Option.bind (recv_data cc k n net) (\<lambda>(r, k', b, net'). map_option (\<lambda>(rs, bs, net''). (r # rs, b # bs, net'')) (recv_series cc k' ns net'))"

lemma send_series_moves: "moves cc \<Longrightarrow> send_series cc k bs net = Some (map (int \<circ> length) bs, net @ concat bs)"
proof (induction bs arbitrary: k net)
  case (Cons b bs)
  obtain k' where "send_data cc k b net = Some (int (length b), k', net @ b)" using send_data_moves [OF Cons.prems] by blast
  then show ?case using Cons.IH [OF Cons.prems, of k' "net @ b"] by simp
qed simp

lemma recv_series_moves: "moves cc \<Longrightarrow> recv_series cc k (map length bs) (concat bs @ net) = Some (map (int \<circ> length) bs, bs, net)"
proof (induction bs arbitrary: k)
  case (Cons b bs)
  obtain k' where "recv_data cc k (length b) (b @ concat bs @ net) = Some (int (length b), k', b, concat bs @ net)" using recv_data_moves [OF Cons.prems] by blast
  then show ?case using Cons.IH [OF Cons.prems, of k'] by simp
qed simp

lemma send_loop_prefix:
  assumes "send_loop cc k buf tot net = Some (r, k', net')" "0 \<le> tot"
  shows "\<exists>sent. net' = net @ sent \<and> (if r = -1 then strict_prefix sent buf else sent = buf \<and> r = tot + int (length buf))"
  using assms
proof (induction cc k buf tot net rule: send_loop.induct)
  case (1 cc k buf tot net)
  let ?c = "cc k (length buf)"
  consider (empty) "buf = []" | (refused) "buf \<noteq> []" "?c = -1 \<or> ?c = 0" | (moved) "buf \<noteq> []" "0 < ?c" "?c \<le> int (length buf)"
    using "1.prems"(1) by (subst (asm) send_loop.simps) (force simp: Let_def split: if_splits)
  then show ?case
  proof cases
    case empty
    then show ?thesis using "1.prems" by (auto simp: send_loop.simps)
  next
    case refused
    then have "net' = net" "r = -1" using "1.prems"(1) by (auto simp: send_loop.simps Let_def)
    then show ?thesis using refused(1) by (simp add: strict_prefix_def)
  next
    case moved
    then have rec: "send_loop cc (Suc k) (drop (nat ?c) buf) (tot + ?c) (net @ take (nat ?c) buf) = Some (r, k', net')"
      using "1.prems"(1) by (subst (asm) send_loop.simps) (simp add: Let_def)
    have "?c \<noteq> -1" "?c \<noteq> 0" using moved(2) by simp_all
    from "1.IH" [OF moved(1) refl this _ rec] obtain sent where sent: "net' = (net @ take (nat ?c) buf) @ sent"
      "if r = -1 then strict_prefix sent (drop (nat ?c) buf) else sent = drop (nat ?c) buf \<and> r = tot + ?c + int (length (drop (nat ?c) buf))"
      using moved(2,3) "1.prems"(2) by auto
    have "strict_prefix (take (nat ?c) buf @ sent) buf" if "strict_prefix sent (drop (nat ?c) buf)"
      using that by (metis append_take_drop_id same_append_eq same_prefix_prefix strict_prefix_def)
    then show ?thesis using sent moved by (intro exI [of _ "take (nat ?c) buf @ sent"]) (auto split: if_splits)
  qed
qed

text \<open>A result other than -1 means that the whole buffer is on the connection; with -1 a proper part of it is, and stays there.\<close>

lemma send_data_result:
  assumes "send_data cc k buf net = Some (r, k', net')"
  shows "\<exists>sent. net' = net @ sent \<and> (if r = -1 then strict_prefix sent buf else sent = buf \<and> r = int (length buf))"
  using send_loop_prefix [OF assms [unfolded send_data_def]] unfolding add_0 by blast

text \<open>
  C33: messages keep their boundaries. Let every system call move at least one byte, and any number up to what it is asked for. Then a series of buffers that
  is sent one by one is received one by one, each with the value that tells its length, and the bytes that follow them stay on the connection, for any division
  of the bytes among the calls on either side.
\<close>

theorem messages_framed:
  assumes "moves cs" "moves cr"
  shows "\<exists>net. send_series cs j bs [] = Some (map (int \<circ> length) bs, net) \<and>
    recv_series cr k (map length bs) (net @ later) = Some (map (int \<circ> length) bs, bs, later)"
  using send_series_moves [OF assms(1), of j bs "[]"] recv_series_moves [OF assms(2), of k bs later] by simp

section \<open>Example\<close>

text \<open>Sent at once, received byte by byte.\<close>

theorem messages_framed_witness:
  "\<exists>net. send_series (\<lambda>_ n. int n) 0 [[1, 2, 3], [4]] [] = Some ([3, 1], net) \<and> recv_series (\<lambda>_ _. 1) 0 [3, 1] (net @ [5]) = Some ([3, 1], [[1, 2, 3], [4]], [5])"
proof -
  have "moves (\<lambda>_ n. int n)" "moves (\<lambda>_ _. 1)" by (simp_all add: moves_def)
  then show ?thesis using messages_framed [of "\<lambda>_ n. int n" "\<lambda>_ _. 1" 0 "[[1, 2, 3], [4]]" 0 "[5]"]
    by (simp add: numeral_3_eq_3 del: send_series.simps recv_series.simps)
qed

end
