(* ===== verification/Dictionary.thy ===== *)
theory Dictionary
  imports ROS_Prelude
begin

text \<open>
  The string dictionary of \<^verbatim>\<open>iniparser3.0b/src/dictionary.c\<close>, in which the server keeps the
  contents of \<^verbatim>\<open>site.ini\<close>: three parallel arrays of keys, values and hashes with empty slots,
  searched linearly and doubled when full. The locale \<open>string_map\<close> states what the ini layer
  relies on; its interpretation on the array operations is the refinement proof.
\<close>

section \<open>Model\<close>

text \<open>
  A \<^verbatim>\<open>char *\<close> that the dictionary hands out: null, the address \<^verbatim>\<open>(char*)-1\<close> that the ini layer
  uses as a marker, or a string.
\<close>

datatype cptr = CNull | CInvalid | CStr string

record dictionary =
  di_n :: int
  di_size :: nat
  di_val :: "cptr list"
  di_key :: "string option list"
  di_hash :: "u32 list"

definition DICTMINSZ :: nat where "DICTMINSZ = 128"

text \<open>A plain \<^verbatim>\<open>char\<close> is signed, so \<^verbatim>\<open>(unsigned)key[i]\<close> extends the sign.\<close>

definition char_to_unsigned :: "char \<Rightarrow> u32" where
  "char_to_unsigned c = (let n = (of_char c :: int) in of_int (if n < 128 then n else n - 256))"

definition hash_round :: "u32 \<Rightarrow> char \<Rightarrow> u32" where
  "hash_round h0 c =
    (let h1 = h0 + char_to_unsigned c;
         h2 = h1 + push_bit 10 h1
     in h2 XOR drop_bit 6 h2)"

definition dictionary_hash :: "string \<Rightarrow> u32" where
  "dictionary_hash key =
    (let h = foldl hash_round 0 key;
         h1 = h + push_bit 3 h;
         h2 = h1 XOR drop_bit 11 h1
     in h2 + push_bit 15 h2)"

definition dictionary_new :: "nat \<Rightarrow> dictionary" where
  "dictionary_new size0 =
    (let size = (if size0 < DICTMINSZ then DICTMINSZ else size0)
     in \<lparr>di_n = 0, di_size = size, di_val = replicate size CNull,
         di_key = replicate size None, di_hash = replicate size 0\<rparr>)"

text \<open>
  The search loop common to get, set and unset: skip empty slots, compare the hash, then the
  string.
\<close>

definition slot_matches :: "u32 \<Rightarrow> string \<Rightarrow> string option \<times> u32 \<Rightarrow> bool" where
  "slot_matches h key s = (case fst s of None \<Rightarrow> False | Some k \<Rightarrow> h = snd s \<and> key = k)"

definition find_slot :: "dictionary \<Rightarrow> string \<Rightarrow> nat option" where
  "find_slot d key =
    find_index (slot_matches (dictionary_hash key) key) (zip (di_key d) (di_hash d))"

definition dictionary_get :: "dictionary \<Rightarrow> string \<Rightarrow> cptr \<Rightarrow> cptr" where
  "dictionary_get d key def =
    (case find_slot d key of None \<Rightarrow> def | Some i \<Rightarrow> di_val d ! i)"

text \<open>\<^verbatim>\<open>mem_double\<close> on the three arrays: the new half is zeroed.\<close>

definition dict_grow :: "dictionary \<Rightarrow> dictionary" where
  "dict_grow d = d\<lparr>di_val := di_val d @ replicate (di_size d) CNull,
     di_key := di_key d @ replicate (di_size d) None,
     di_hash := di_hash d @ replicate (di_size d) 0,
     di_size := 2 * di_size d\<rparr>"

text \<open>
  The write at the first empty slot. When there is none the loop leaves \<^verbatim>\<open>i = size\<close> and the C
  code writes past the arrays: no result.
\<close>

definition dict_insert :: "dictionary \<Rightarrow> string \<Rightarrow> cptr \<Rightarrow> dictionary option" where
  "dict_insert d key val =
    (case find_index (\<lambda>k. k = None) (di_key d) of
       None \<Rightarrow> None
     | Some i \<Rightarrow> Some (d\<lparr>di_key := (di_key d)[i := Some key], di_val := (di_val d)[i := val],
                        di_hash := (di_hash d)[i := dictionary_hash key], di_n := di_n d + 1\<rparr>))"

text \<open>
  \<open>grow_ok\<close> says whether the allocations of \<^verbatim>\<open>mem_double\<close> succeed. When one fails the function
  returns -1 with a null array in the dictionary, which is then unusable (\<open>None\<close>).
\<close>

definition dictionary_set ::
    "bool \<Rightarrow> dictionary option \<Rightarrow> string option \<Rightarrow> cptr \<Rightarrow> int \<times> dictionary option" where
  "dictionary_set grow_ok d0 key0 val =
    (case (d0, key0) of
       (Some d, Some key) \<Rightarrow>
         (case (if di_n d > 0 then find_slot d key else None) of
            Some i \<Rightarrow> (0, Some (d\<lparr>di_val := (di_val d)[i := val]\<rparr>))
          | None \<Rightarrow>
              if di_n d = int (di_size d) \<and> \<not> grow_ok then (-1, None)
              else let d1 = (if di_n d = int (di_size d) then dict_grow d else d)
                   in (0, dict_insert d1 key val))
     | _ \<Rightarrow> (-1, d0))"

definition dictionary_unset :: "dictionary \<Rightarrow> string option \<Rightarrow> dictionary" where
  "dictionary_unset d key0 =
    (case key0 of
       None \<Rightarrow> d
     | Some key \<Rightarrow>
        (case find_slot d key of
           None \<Rightarrow> d
         | Some i \<Rightarrow> d\<lparr>di_key := (di_key d)[i := None], di_val := (di_val d)[i := CNull],
                      di_hash := (di_hash d)[i := 0], di_n := di_n d - 1\<rparr>))"

section \<open>Invariant and abstraction\<close>

text \<open>No key occupies two slots.\<close>

definition uniq_keys :: "string option list \<Rightarrow> bool" where
  "uniq_keys ks \<longleftrightarrow>
     (\<forall>i j k. i < length ks \<longrightarrow> j < length ks \<longrightarrow> ks ! i = Some k \<longrightarrow> ks ! j = Some k \<longrightarrow> i = j)"

lemma uniq_keysD:
  "uniq_keys ks \<Longrightarrow> i < length ks \<Longrightarrow> j < length ks \<Longrightarrow> ks ! i = Some k \<Longrightarrow> ks ! j = Some k \<Longrightarrow> i = j"
  unfolding uniq_keys_def by blast

lemma uniq_keysI:
  "(\<And>i j k. i < length ks \<Longrightarrow> j < length ks \<Longrightarrow> ks ! i = Some k \<Longrightarrow> ks ! j = Some k \<Longrightarrow> i = j) \<Longrightarrow> uniq_keys ks"
  unfolding uniq_keys_def by blast

lemma nth_list_update_eq': "j < length xs \<Longrightarrow> xs[i := x] ! j = (if i = j then x else xs ! j)"
  by (cases "i = j") auto

lemma uniq_keys_replicate: "uniq_keys (replicate n None)"
  by (rule uniq_keysI) simp

lemma uniq_keys_append_None:
  assumes "uniq_keys ks"
  shows "uniq_keys (ks @ replicate n None)"
proof (rule uniq_keysI)
  fix i j k
  assume "i < length (ks @ replicate n None)" "j < length (ks @ replicate n None)"
    and i: "(ks @ replicate n None) ! i = Some k" and j: "(ks @ replicate n None) ! j = Some k"
  then have "i < length ks" "j < length ks" by (auto simp: nth_append split: if_splits)
  with i j show "i = j" using uniq_keysD [OF assms] by (simp add: nth_append)
qed

lemma uniq_keys_update_None:
  assumes "uniq_keys ks"
  shows "uniq_keys (ks[i := None])"
proof (rule uniq_keysI)
  fix a b k
  assume "a < length (ks[i := None])" "b < length (ks[i := None])"
    and "ks[i := None] ! a = Some k" "ks[i := None] ! b = Some k"
  then show "a = b" using uniq_keysD [OF assms, of a b k]
    by (cases "i = a"; cases "i = b") (simp_all add: nth_list_update)
qed

lemma uniq_keys_update_Some:
  assumes "uniq_keys ks" and "\<forall>j < length ks. ks ! j \<noteq> Some key"
  shows "uniq_keys (ks[i := Some key])"
proof (rule uniq_keysI)
  fix a b k
  assume "a < length (ks[i := Some key])" "b < length (ks[i := Some key])"
    and "ks[i := Some key] ! a = Some k" "ks[i := Some key] ! b = Some k"
  then show "a = b" using uniq_keysD [OF assms(1), of a b k] assms(2)
    by (cases "i = a"; cases "i = b") (auto simp: nth_list_update)
qed

definition dict_inv :: "dictionary \<Rightarrow> bool" where
  "dict_inv d \<longleftrightarrow>
     0 < di_size d \<and> length (di_key d) = di_size d \<and> length (di_val d) = di_size d \<and>
     length (di_hash d) = di_size d \<and>
     di_n d = int (length (filter (\<lambda>k. k \<noteq> None) (di_key d))) \<and>
     (\<forall>i < di_size d. \<forall>k. di_key d ! i = Some k \<longrightarrow> di_hash d ! i = dictionary_hash k) \<and>
     uniq_keys (di_key d)"

definition dict_abs :: "dictionary \<Rightarrow> string \<Rightarrow> cptr option" where
  "dict_abs d k = map_option (\<lambda>i. di_val d ! i) (find_slot d k)"

lemma dict_inv_lengths:
  assumes "dict_inv d"
  shows "length (di_key d) = di_size d" "length (di_val d) = di_size d"
    "length (di_hash d) = di_size d"
  using assms by (simp_all add: dict_inv_def)

lemma dict_inv_unique:
  "dict_inv d \<Longrightarrow> i < di_size d \<Longrightarrow> j < di_size d \<Longrightarrow> di_key d ! i = Some k \<Longrightarrow>
   di_key d ! j = Some k \<Longrightarrow> i = j"
  by (rule uniq_keysD [of "di_key d"]) (simp_all add: dict_inv_def)

text \<open>Under the invariant the hash comparison never rejects the right slot.\<close>

lemma find_slot_key:
  assumes "dict_inv d"
  shows "find_slot d k = find_index (\<lambda>x. x = Some k) (di_key d)"
  unfolding find_slot_def
proof (rule find_index_cong2)
  show "length (zip (di_key d) (di_hash d)) = length (di_key d)"
    using assms by (simp add: dict_inv_def)
next
  fix i assume "i < length (di_key d)"
  with assms show "slot_matches (dictionary_hash k) k (zip (di_key d) (di_hash d) ! i)
      = (di_key d ! i = Some k)"
    by (cases "di_key d ! i") (auto simp: slot_matches_def dict_inv_def)
qed

lemma find_slot_Some_iff:
  assumes "dict_inv d"
  shows "find_slot d k = Some i \<longleftrightarrow> i < di_size d \<and> di_key d ! i = Some k"
proof
  assume "find_slot d k = Some i"
  with assms show "i < di_size d \<and> di_key d ! i = Some k"
    by (auto simp: find_slot_key dict_inv_lengths dest: find_index_SomeD)
next
  assume i: "i < di_size d \<and> di_key d ! i = Some k"
  with assms have "Some k \<in> set (di_key d)" by (metis dict_inv_lengths(1) nth_mem)
  then obtain j where "find_index (\<lambda>x. x = Some k) (di_key d) = Some j"
    using find_index_exists [of "Some k" _ "\<lambda>x. x = Some k"] by auto
  with assms i show "find_slot d k = Some i"
    using find_index_SomeD [of "\<lambda>x. x = Some k" "di_key d" j] dict_inv_unique [of d i j k]
    by (simp add: find_slot_key dict_inv_lengths)
qed

lemma find_slot_None_iff:
  assumes "dict_inv d"
  shows "find_slot d k = None \<longleftrightarrow> (\<forall>i < di_size d. di_key d ! i \<noteq> Some k)"
  using find_slot_Some_iff [OF assms, of k] by (metis not_None_eq)

lemma dict_abs_Some_iff:
  assumes "dict_inv d"
  shows "dict_abs d k = Some v \<longleftrightarrow> (\<exists>i < di_size d. di_key d ! i = Some k \<and> di_val d ! i = v)"
  using find_slot_Some_iff [OF assms, of k] by (auto simp: dict_abs_def)

text \<open>
  What a change of a single slot does to the abstract map: the common step of an update, an
  insertion and a removal.
\<close>

lemma dict_abs_slot_update:
  assumes inv: "dict_inv d" "dict_inv d'" and sz: "di_size d' = di_size d" and i: "i < di_size d"
    and frame: "\<And>j. j < di_size d \<Longrightarrow> j \<noteq> i \<Longrightarrow> di_key d' ! j = di_key d ! j \<and> di_val d' ! j = di_val d ! j"
  shows "dict_abs d' = (\<lambda>k. if di_key d' ! i = Some k then Some (di_val d' ! i)
                            else if di_key d ! i = Some k then None else dict_abs d k)"
proof
  fix k
  consider "di_key d' ! i = Some k"
    | "di_key d' ! i \<noteq> Some k" "di_key d ! i = Some k"
    | "di_key d' ! i \<noteq> Some k" "di_key d ! i \<noteq> Some k" by blast
  then show "dict_abs d' k = (if di_key d' ! i = Some k then Some (di_val d' ! i)
                            else if di_key d ! i = Some k then None else dict_abs d k)"
  proof cases
    case 1
    then have "find_slot d' k = Some i" using inv(2) i sz by (simp add: find_slot_Some_iff)
    with 1 show ?thesis by (simp add: dict_abs_def)
  next
    case 2
    have "di_key d' ! j \<noteq> Some k" if "j < di_size d'" for j
      using that 2 frame [of j] dict_inv_unique [OF inv(1), of i j k] i sz by (cases "j = i") auto
    with 2 inv(2) show ?thesis by (simp add: dict_abs_def find_slot_None_iff)
  next
    case 3
    have "find_slot d' k = find_slot d k"
    proof (rule option_eq_iffI)
      fix j show "(find_slot d' k = Some j) = (find_slot d k = Some j)"
        using 3 frame [of j] inv sz by (cases "j = i") (auto simp: find_slot_Some_iff)
    qed
    moreover have "di_val d' ! j = di_val d ! j" if "find_slot d k = Some j" for j
      using that 3 frame [of j] inv(1) by (auto simp: find_slot_Some_iff)
    ultimately show ?thesis using 3 by (cases "find_slot d k") (auto simp: dict_abs_def)
  qed
qed

section \<open>Every operation keeps the invariant and refines the map operation\<close>

lemma dictionary_new_inv: "dict_inv (dictionary_new n)"
  by (auto simp: dict_inv_def dictionary_new_def DICTMINSZ_def uniq_keys_replicate Let_def)

lemma dictionary_new_abs: "dict_abs (dictionary_new n) = Map.empty"
proof
  fix k show "dict_abs (dictionary_new n) k = None"
    using dictionary_new_inv [of n] find_slot_None_iff [of "dictionary_new n" k]
    by (auto simp: dict_abs_def dictionary_new_def DICTMINSZ_def Let_def)
qed

lemma dict_grow_inv:
  assumes "dict_inv d"
  shows "dict_inv (dict_grow d)"
  using assms
  by (auto simp: dict_inv_def dict_grow_def nth_append uniq_keys_append_None split: if_splits)

lemma dict_grow_abs:
  assumes inv: "dict_inv d"
  shows "dict_abs (dict_grow d) = dict_abs d"
proof
  fix k
  have slot: "find_slot (dict_grow d) k = find_slot d k"
  proof (rule option_eq_iffI)
    fix j show "(find_slot (dict_grow d) k = Some j) = (find_slot d k = Some j)"
      unfolding find_slot_Some_iff [OF inv] find_slot_Some_iff [OF dict_grow_inv [OF inv]]
      using dict_inv_lengths [OF inv] by (auto simp: dict_grow_def nth_append split: if_splits)
  qed
  moreover have "di_val (dict_grow d) ! j = di_val d ! j" if "find_slot d k = Some j" for j
    using that dict_inv_lengths [OF inv]
    by (auto simp: find_slot_Some_iff [OF inv] dict_grow_def nth_append)
  ultimately show "dict_abs (dict_grow d) k = dict_abs d k"
    by (cases "find_slot d k") (auto simp: dict_abs_def)
qed

lemma dict_n_full:
  assumes "dict_inv d" and "\<forall>k \<in> set (di_key d). k \<noteq> None"
  shows "di_n d = int (di_size d)"
  using assms by (simp add: dict_inv_def filter_id_conv)

lemma dict_empty_slot:
  assumes "dict_inv d" and "di_n d \<noteq> int (di_size d)"
  obtains i where "find_index (\<lambda>k. k = None) (di_key d) = Some i"
    and "i < di_size d" and "di_key d ! i = None"
proof -
  have "None \<in> set (di_key d)"
  proof (rule ccontr)
    assume "None \<notin> set (di_key d)"
    then have "\<forall>k \<in> set (di_key d). k \<noteq> None" by metis
    from dict_n_full [OF assms(1) this] assms(2) show False by simp
  qed
  then obtain i where "find_index (\<lambda>k. k = None) (di_key d) = Some i"
    using find_index_exists [of None "di_key d" "\<lambda>k. k = None"] by auto
  with find_index_SomeD [OF this] dict_inv_lengths(1) [OF assms(1)] show thesis
    by (intro that [of i]) simp_all
qed

lemma dict_insert_ok:
  assumes inv: "dict_inv d" and room: "di_n d \<noteq> int (di_size d)" and new: "find_slot d key = None"
  shows "\<exists>d'. dict_insert d key v = Some d' \<and> dict_inv d' \<and> dict_abs d' = (dict_abs d)(key \<mapsto> v)"
proof -
  obtain i where i: "find_index (\<lambda>k. k = None) (di_key d) = Some i" "i < di_size d"
    "di_key d ! i = None"
    using dict_empty_slot [OF inv room] .
  let ?d' = "d\<lparr>di_key := (di_key d)[i := Some key], di_val := (di_val d)[i := v],
    di_hash := (di_hash d)[i := dictionary_hash key], di_n := di_n d + 1\<rparr>"
  have fresh: "\<forall>j < di_size d. di_key d ! j \<noteq> Some key"
    using new inv by (simp add: find_slot_None_iff)
  have n: "length (filter (\<lambda>k. k \<noteq> None) ((di_key d)[i := Some key]))
      = Suc (length (filter (\<lambda>k. k \<noteq> None) (di_key d)))"
    using filter_update_length [of i "di_key d" "\<lambda>k. k \<noteq> None" "Some key"] i inv
    by (simp add: dict_inv_lengths)
  have inv': "dict_inv ?d'"
    using inv i fresh n uniq_keys_update_Some [of "di_key d" key i]
    by (auto simp: dict_inv_def nth_list_update)
  have "dict_abs ?d' = (dict_abs d)(key \<mapsto> v)"
    using dict_abs_slot_update [OF inv inv', of i] i dict_inv_lengths [OF inv]
    by (auto simp: fun_eq_iff)
  with inv' i(1) show ?thesis by (simp add: dict_insert_def)
qed

lemma dict_update_ok:
  fixes v
  assumes inv: "dict_inv d" and i: "find_slot d key = Some i"
  defines "d' \<equiv> d\<lparr>di_val := (di_val d)[i := v]\<rparr>"
  shows "dict_inv d' \<and> dict_abs d' = (dict_abs d)(key \<mapsto> v)"
proof
  from i inv have i': "i < di_size d" "di_key d ! i = Some key"
    by (simp_all add: find_slot_Some_iff)
  show inv': "dict_inv d'" using inv by (simp add: dict_inv_def d'_def)
  show "dict_abs d' = (dict_abs d)(key \<mapsto> v)"
    using dict_abs_slot_update [OF inv inv', of i] i' dict_inv_lengths [OF inv]
    by (auto simp: fun_eq_iff d'_def)
qed

lemma dict_n_zero:
  assumes "dict_inv d" and "\<not> di_n d > 0"
  shows "find_slot d key = None"
proof -
  from assms have "filter (\<lambda>k. k \<noteq> None) (di_key d) = []" by (simp add: dict_inv_def)
  then have "\<forall>k \<in> set (di_key d). k = None" by (simp add: filter_empty_conv)
  then show ?thesis
    using assms(1) by (auto simp: find_slot_None_iff) (metis dict_inv_lengths(1) nth_mem option.simps(3))
qed

lemma dictionary_set_ok:
  assumes inv: "dict_inv d"
  shows "\<exists>d'. dictionary_set True (Some d) (Some key) v = (0, Some d') \<and> dict_inv d' \<and>
    dict_abs d' = (dict_abs d)(key \<mapsto> v)"
proof (cases "find_slot d key")
  case (Some i)
  with dict_n_zero [OF inv, of key] have "di_n d > 0" by fastforce
  with Some dict_update_ok [OF inv Some, of v] show ?thesis by (simp add: dictionary_set_def)
next
  case None
  show ?thesis
  proof (cases "di_n d = int (di_size d)")
    case True
    have "find_slot (dict_grow d) key = None"
      using None dict_grow_abs [OF inv] by (metis dict_abs_def map_option_is_None)
    moreover have "di_n (dict_grow d) \<noteq> int (di_size (dict_grow d))"
    proof -
      have "0 < di_size d" using inv by (simp add: dict_inv_def)
      with True show ?thesis by (simp add: dict_grow_def)
    qed
    ultimately show ?thesis
      using dict_insert_ok [OF dict_grow_inv [OF inv]] None True dict_grow_abs [OF inv]
      by (simp add: dictionary_set_def)
  next
    case False
    with dict_insert_ok [OF inv False None] None show ?thesis by (simp add: dictionary_set_def)
  qed
qed

lemma dictionary_unset_ok:
  assumes inv: "dict_inv d"
  shows "dict_inv (dictionary_unset d (Some key)) \<and>
    dict_abs (dictionary_unset d (Some key)) = (dict_abs d)(key := None)"
proof (cases "find_slot d key")
  case None
  then have "dict_abs d key = None" by (simp add: dict_abs_def)
  with None inv show ?thesis by (auto simp: dictionary_unset_def)
next
  case (Some i)
  with inv have i: "i < di_size d" "di_key d ! i = Some key" by (simp_all add: find_slot_Some_iff)
  let ?d' = "d\<lparr>di_key := (di_key d)[i := None], di_val := (di_val d)[i := CNull],
                di_hash := (di_hash d)[i := 0], di_n := di_n d - 1\<rparr>"
  have "Suc (length (filter (\<lambda>k. k \<noteq> None) ((di_key d)[i := None])))
      = length (filter (\<lambda>k. k \<noteq> None) (di_key d))"
    using filter_update_length [of i "di_key d" "\<lambda>k. k \<noteq> None" None] i inv
    by (simp add: dict_inv_lengths)
  then have inv': "dict_inv ?d'"
    using inv uniq_keys_update_None [of "di_key d" i]
    by (auto simp: dict_inv_def nth_list_update_eq' split: if_splits)
  have "dict_abs ?d' = (dict_abs d)(key := None)"
    using dict_abs_slot_update [OF inv inv', of i] i dict_inv_lengths [OF inv]
    by (auto simp: fun_eq_iff)
  with inv' Some show ?thesis by (simp add: dictionary_unset_def)
qed

section \<open>The interface the ini layer relies on\<close>

locale string_map =
  fixes get :: "'d \<Rightarrow> string \<Rightarrow> cptr \<Rightarrow> cptr"
    and put :: "'d \<Rightarrow> string \<Rightarrow> cptr \<Rightarrow> int \<times> 'd option"
    and del :: "'d \<Rightarrow> string \<Rightarrow> 'd"
    and empty :: 'd
    and invar :: "'d \<Rightarrow> bool"
    and abs_map :: "'d \<Rightarrow> string \<Rightarrow> cptr option"
  assumes get_abs: "invar d \<Longrightarrow> get d k def = (case abs_map d k of None \<Rightarrow> def | Some v \<Rightarrow> v)"
    and put_ok: "invar d \<Longrightarrow>
      \<exists>d'. put d k v = (0, Some d') \<and> invar d' \<and> abs_map d' = (abs_map d)(k \<mapsto> v)"
    and del_ok: "invar d \<Longrightarrow> invar (del d k) \<and> abs_map (del d k) = (abs_map d)(k := None)"
    and empty_ok: "invar empty" "abs_map empty = Map.empty"
begin

text \<open>A sequence of stores, as the ini loader performs it.\<close>

fun put_all :: "'d \<Rightarrow> (string \<times> cptr) list \<Rightarrow> 'd option" where
  "put_all d [] = Some d"
| "put_all d ((k, v) # kvs) = (case put d k v of (s, Some d') \<Rightarrow> put_all d' kvs | _ \<Rightarrow> None)"

lemma put_all_ok:
  "invar d \<Longrightarrow> \<exists>d'. put_all d kvs = Some d' \<and> invar d' \<and> abs_map d' = abs_map d ++ map_of (rev kvs)"
proof (induction kvs arbitrary: d)
  case Nil
  then show ?case by simp
next
  case (Cons kv kvs)
  obtain k v where kv: "kv = (k, v)" by (cases kv)
  obtain d1 where d1: "put d k v = (0, Some d1)" "invar d1" "abs_map d1 = (abs_map d)(k \<mapsto> v)"
    using put_ok [OF Cons.prems] by blast
  have "(abs_map d)(k \<mapsto> v) ++ map_of (rev kvs) = abs_map d ++ map_of (rev kvs @ [(k, v)])"
    by (auto simp: map_add_def map_of_append fun_eq_iff split: option.splits)
  then obtain d' where "put_all d1 kvs = Some d'" "invar d'"
      "abs_map d' = abs_map d ++ map_of (rev kvs @ [(k, v)])"
    using Cons.IH [OF d1(2)] d1(3) by metis
  with d1(1) show ?case by (simp add: kv)
qed

lemma get_put_same: "invar d \<Longrightarrow> put d k v = (s, Some d') \<Longrightarrow> get d' k def = v"
  using put_ok [of d k v] get_abs [of d' k def] by auto

lemma get_put_other: "invar d \<Longrightarrow> put d k v = (s, Some d') \<Longrightarrow> k' \<noteq> k \<Longrightarrow> get d' k' def = get d k' def"
  using put_ok [of d k v] get_abs [of d' k' def] get_abs [of d k' def] by auto

lemma get_del_same: "invar d \<Longrightarrow> get (del d k) k def = def"
  using del_ok [of d k] get_abs [of "del d k" k def] by simp

lemma get_del_other: "invar d \<Longrightarrow> k' \<noteq> k \<Longrightarrow> get (del d k) k' def = get d k' def"
  using del_ok [of d k] get_abs [of "del d k" k' def] get_abs [of d k' def] by simp

text \<open>The last store of a key wins.\<close>

lemma get_put_all:
  assumes "put_all empty kvs = Some d'"
  shows "get d' k def = (case map_of (rev kvs) k of None \<Rightarrow> def | Some v \<Rightarrow> v)"
  using put_all_ok [OF empty_ok(1), of kvs] assms empty_ok(2) get_abs [of d' k def] by auto

end

interpretation dict: string_map
  dictionary_get "\<lambda>d k v. dictionary_set True (Some d) (Some k) v"
  "\<lambda>d k. dictionary_unset d (Some k)" "dictionary_new 0" dict_inv dict_abs
proof unfold_locales
  fix d k def assume "dict_inv d"
  show "dictionary_get d k def = (case dict_abs d k of None \<Rightarrow> def | Some v \<Rightarrow> v)"
    by (simp add: dictionary_get_def dict_abs_def split: option.splits)
next
  fix d k v assume "dict_inv d"
  then show "\<exists>d'. dictionary_set True (Some d) (Some k) v = (0, Some d') \<and> dict_inv d' \<and>
      dict_abs d' = (dict_abs d)(k \<mapsto> v)"
    by (rule dictionary_set_ok)
next
  fix d k assume "dict_inv d"
  then show "dict_inv (dictionary_unset d (Some k)) \<and>
      dict_abs (dictionary_unset d (Some k)) = (dict_abs d)(k := None)"
    by (rule dictionary_unset_ok)
qed (rule dictionary_new_inv dictionary_new_abs)+

end
