(* ===== verification/Iniparser.thy ===== *)
theory Iniparser
  imports Dictionary
begin

text \<open>
  The ini file layer of \<^verbatim>\<open>iniparser3.0b/src/iniparser.c\<close>: line classification with the \<^verbatim>\<open>sscanf\<close>
  formats of the source, the loader with continuation lines, and the typed getters the server
  uses. The string functions of the C library that the code calls are modelled first.
\<close>

section \<open>C library strings\<close>

definition ASCIILINESZ :: nat where "ASCIILINESZ = 1024"

definition newline :: char where "newline = CHR 0x0A"

definition isspace :: "char \<Rightarrow> bool" where
  "isspace c \<longleftrightarrow> c = CHR '' '' \<or> (9 \<le> (of_char c :: nat) \<and> (of_char c :: nat) \<le> 13)"

definition tolower :: "char \<Rightarrow> char" where
  "tolower c = (let n = (of_char c :: nat) in if 65 \<le> n \<and> n \<le> 90 then char_of (n + 32) else c)"

text \<open>
  One directive of a \<^verbatim>\<open>sscanf\<close> format: a scan set, a white space run, a literal character. The
  result lists the strings that were assigned.
\<close>

datatype scan_item = SSet "char \<Rightarrow> bool" | SSpace | SLit char

fun sscanf :: "scan_item list \<Rightarrow> string \<Rightarrow> string list" where
  "sscanf [] s = []"
| "sscanf (SSpace # f) s = sscanf f (dropWhile isspace s)"
| "sscanf (SLit c # f) [] = []"
| "sscanf (SLit c # f) (x # s) = (if x = c then sscanf f s else [])"
| "sscanf (SSet P # f) s =
     (if takeWhile P s = [] then [] else takeWhile P s # sscanf f (dropWhile P s))"

text \<open>\<^verbatim>\<open>fgets\<close> with room for \<open>k\<close> characters: up to and including the next newline.\<close>

fun get_line :: "nat \<Rightarrow> string \<Rightarrow> string \<times> string" where
  "get_line 0 s = ([], s)"
| "get_line (Suc k) [] = ([], [])"
| "get_line (Suc k) (c # s) =
     (if c = newline then ([c], s) else (let (t, r) = get_line k s in (c # t, r)))"

text \<open>\<^verbatim>\<open>strtol\<close> with base 0 on a machine whose \<^verbatim>\<open>long\<close> has 32 bits.\<close>

definition digit_val :: "char \<Rightarrow> int option" where
  "digit_val c = (let n = (of_char c :: int) in
     if 48 \<le> n \<and> n \<le> 57 then Some (n - 48)
     else if 97 \<le> n \<and> n \<le> 122 then Some (n - 87)
     else if 65 \<le> n \<and> n \<le> 90 then Some (n - 55) else None)"

fun digits_val :: "int \<Rightarrow> int \<Rightarrow> string \<Rightarrow> int" where
  "digits_val b acc [] = acc"
| "digits_val b acc (c # s) =
     (case digit_val c of Some d \<Rightarrow> if d < b then digits_val b (acc * b + d) s else acc | None \<Rightarrow> acc)"

definition strtol_mag :: "string \<Rightarrow> int" where
  "strtol_mag s =
    (case s of
       (z # x # t) \<Rightarrow>
         if z = CHR ''0'' \<and> tolower x = CHR ''x'' \<and>
            (case t of [] \<Rightarrow> False | h # _ \<Rightarrow> (case digit_val h of Some d \<Rightarrow> d < 16 | None \<Rightarrow> False))
         then digits_val 16 0 t
         else if z = CHR ''0'' then digits_val 8 0 s else digits_val 10 0 s
     | _ \<Rightarrow> digits_val 10 0 s)"

definition strtol0 :: "string \<Rightarrow> int" where
  "strtol0 s0 =
    (let s = dropWhile isspace s0;
         v = (case s of
                CHR ''-'' # t \<Rightarrow> - strtol_mag t
              | CHR ''+'' # t \<Rightarrow> strtol_mag t
              | _ \<Rightarrow> strtol_mag s)
     in max (- (2 ^ 31)) (min (2 ^ 31 - 1) v))"

section \<open>Line classification\<close>

definition strlwc :: "string \<Rightarrow> string" where
  "strlwc s = map tolower (take ASCIILINESZ s)"

definition rstrip :: "string \<Rightarrow> string" where
  "rstrip s = rev (dropWhile isspace (rev s))"

definition strstrip :: "string \<Rightarrow> string" where
  "strstrip s = rstrip (dropWhile isspace s)"

datatype line_status =
  LINE_UNPROCESSED | LINE_ERROR | LINE_EMPTY | LINE_COMMENT | LINE_SECTION | LINE_VALUE

abbreviation sq :: char where "sq \<equiv> CHR 0x27"
abbreviation dq :: char where "dq \<equiv> CHR 0x22"
abbreviation backslash :: char where "backslash \<equiv> CHR 0x5C"

definition fmt_key :: "scan_item list" where "fmt_key = [SSet (\<lambda>c. c \<noteq> CHR ''=''), SSpace]"
definition fmt_dq :: "scan_item list" where
  "fmt_dq = fmt_key @ [SLit CHR ''='', SSpace, SLit dq, SSet (\<lambda>c. c \<noteq> dq), SLit dq]"
definition fmt_sq :: "scan_item list" where
  "fmt_sq = fmt_key @ [SLit CHR ''='', SSpace, SLit sq, SSet (\<lambda>c. c \<noteq> sq), SLit sq]"
definition fmt_plain :: "scan_item list" where
  "fmt_plain = fmt_key @ [SLit CHR ''='', SSpace, SSet (\<lambda>c. c \<noteq> CHR '';'' \<and> c \<noteq> CHR ''#'')]"
definition fmt_comment :: "scan_item list" where
  "fmt_comment = fmt_key @ [SLit CHR ''='', SSpace, SSet (\<lambda>c. c = CHR '';'' \<or> c = CHR ''#'')]"
definition fmt_empty :: "scan_item list" where
  "fmt_empty = fmt_key @ [SSet (\<lambda>c. c = CHR ''='')]"
definition fmt_section :: "scan_item list" where
  "fmt_section = [SLit CHR ''['', SSet (\<lambda>c. c \<noteq> CHR '']'')]"

text \<open>A \<^verbatim>\<open>sscanf\<close> into two buffers: what is assigned replaces the old contents.\<close>

definition scan2 :: "scan_item list \<Rightarrow> string \<Rightarrow> string \<times> string \<Rightarrow> nat \<times> string \<times> string" where
  "scan2 f s kv =
    (case sscanf f s of
       [] \<Rightarrow> (0, kv) | [a] \<Rightarrow> (1, a, snd kv) | a # b # _ \<Rightarrow> (2, a, b))"

text \<open>The chain \<^verbatim>\<open>sscanf(..)==2 || sscanf(..)==2 || ..\<close>.\<close>

fun scan_any :: "scan_item list list \<Rightarrow> string \<Rightarrow> string \<times> string \<Rightarrow> bool \<times> string \<times> string" where
  "scan_any [] s kv = (False, kv)"
| "scan_any (f # fs) s kv =
     (case scan2 f s kv of (n, kv') \<Rightarrow> if n = 2 then (True, kv') else scan_any fs s kv')"

definition iniparser_line ::
    "string \<Rightarrow> string \<Rightarrow> string \<Rightarrow> string \<Rightarrow> line_status \<times> string \<times> string \<times> string" where
  "iniparser_line input_line section key val =
    (let line = strstrip input_line in
     if length line < 1 then (LINE_EMPTY, section, key, val)
     else if hd line = CHR ''#'' then (LINE_COMMENT, section, key, val)
     else if hd line = CHR ''['' \<and> last line = CHR '']'' then
       (let s1 = (case sscanf fmt_section line of [] \<Rightarrow> section | s # _ \<Rightarrow> s)
        in (LINE_SECTION, strlwc (strstrip s1), key, val))
     else case scan_any [fmt_dq, fmt_sq, fmt_plain] line (key, val) of
       (True, k, v) \<Rightarrow>
         (let v1 = strstrip v in
          (LINE_VALUE, section, strlwc (strstrip k),
           if v1 = [dq, dq] \<or> v1 = [sq, sq] then [] else v1))
     | (False, kv) \<Rightarrow>
         (case scan_any [fmt_comment, fmt_empty] line kv of
            (True, k, v) \<Rightarrow> (LINE_VALUE, section, strlwc (strstrip k), [])
          | (False, k, v) \<Rightarrow> (LINE_ERROR, section, k, v)))"

section \<open>The loader\<close>

record ini_state =
  is_section :: string
  is_key :: string
  is_val :: string
  is_errs :: int
  is_dict :: dictionary

definition ini_init :: ini_state where
  "ini_init = \<lparr>is_section = [], is_key = [], is_val = [], is_errs = 0,
     is_dict = dictionary_new 0\<rparr>"

text \<open>
  The \<^verbatim>\<open>switch\<close> over one complete line. \<^verbatim>\<open>sprintf(tmp, "%s:%s", section, key)\<close> writes into a
  buffer of \<^verbatim>\<open>ASCIILINESZ+1\<close> bytes: a longer name has no defined outcome. A store whose
  allocation fails leaves the dictionary with a null array, which \<^verbatim>\<open>dictionary_del\<close> then
  dereferences.
\<close>

definition ini_store :: "bool \<Rightarrow> ini_state \<Rightarrow> string \<Rightarrow> cptr \<Rightarrow> ini_state option" where
  "ini_store grow_ok s name v =
    (case dictionary_set grow_ok (Some (is_dict s)) (Some name) v of
       (e, Some d) \<Rightarrow> Some (s\<lparr>is_errs := e, is_dict := d\<rparr>)
     | (e, None) \<Rightarrow> None)"

definition ini_process :: "bool \<Rightarrow> ini_state \<Rightarrow> string \<Rightarrow> ini_state option" where
  "ini_process grow_ok s line =
    (case iniparser_line line (is_section s) (is_key s) (is_val s) of
       (sta, sec, k, v) \<Rightarrow>
         (let s1 = s\<lparr>is_section := sec, is_key := k, is_val := v\<rparr> in
          case sta of
            LINE_SECTION \<Rightarrow> ini_store grow_ok s1 sec CNull
          | LINE_VALUE \<Rightarrow>
              if length sec + 1 + length k > ASCIILINESZ then None
              else ini_store grow_ok s1 (sec @ CHR '':'' # k) (CStr v)
          | LINE_ERROR \<Rightarrow> Some (s1\<lparr>is_errs := is_errs s1 + 1\<rparr>)
          | _ \<Rightarrow> Some s1))"

lemma get_line_rest: "get_line k s = (t, r) \<Longrightarrow> length t + length r = length s"
proof (induction k s arbitrary: t r rule: get_line.induct)
  case (3 k c s)
  then show ?case by (auto simp: Let_def split: prod.splits if_splits)
qed auto

lemma get_line_shorter: "(t, r) = get_line k s \<Longrightarrow> t \<noteq> [] \<Longrightarrow> length r < length s"
  using get_line_rest [of k s t r] by (cases t) auto

text \<open>
  The read loop. \<open>acc\<close> is what earlier continuation lines have left in the line buffer. A line
  of blanks only makes the code read \<^verbatim>\<open>line[-1]\<close>: \<open>stale\<close> is the byte that precedes the buffer,
  and no outcome is defined when it is a backslash. Outcomes: \<open>None\<close> for undefined behaviour,
  \<open>Some None\<close> for a null pointer, \<open>Some (Some d)\<close> for a dictionary.
\<close>

function ini_loop :: "bool \<Rightarrow> char \<Rightarrow> ini_state \<Rightarrow> string \<Rightarrow> string \<Rightarrow> dictionary option option" where
  "ini_loop grow_ok stale s acc rest =
    (if rest = [] then Some (if is_errs s = 0 then Some (is_dict s) else None)
     else case get_line (ASCIILINESZ - 1 - length acc) rest of
       (chunk, rest') \<Rightarrow>
         if chunk = [] \<or> last chunk \<noteq> newline then Some None
         else (let line = rstrip (acc @ chunk) in
           if line = [] \<and> stale = backslash then None
           else if line \<noteq> [] \<and> last line = backslash
                then ini_loop grow_ok stale s (butlast line) rest'
           else case ini_process grow_ok s line of
                None \<Rightarrow> None
              | Some s' \<Rightarrow> ini_loop grow_ok stale s' [] rest'))"
  by pat_completeness auto
termination
  by (relation "measure (\<lambda>(g, st, s, acc, rest). length rest)") (auto dest: get_line_shorter)

declare ini_loop.simps [simp del]

text \<open>\<open>file\<close> is the contents of the named file, or \<open>None\<close> when \<^verbatim>\<open>fopen\<close> fails.\<close>

definition iniparser_load :: "bool \<Rightarrow> char \<Rightarrow> string option \<Rightarrow> dictionary option option" where
  "iniparser_load grow_ok stale file =
    (case file of
       None \<Rightarrow> Some None
     | Some text \<Rightarrow> ini_loop grow_ok stale ini_init [] text)"

section \<open>Getters and setters\<close>

definition iniparser_getstring :: "dictionary option \<Rightarrow> string option \<Rightarrow> cptr \<Rightarrow> cptr" where
  "iniparser_getstring d key def =
    (case (d, key) of
       (Some d', Some k) \<Rightarrow> dictionary_get d' (strlwc k) def
     | _ \<Rightarrow> def)"

definition iniparser_getint :: "dictionary option \<Rightarrow> string \<Rightarrow> int \<Rightarrow> int option" where
  "iniparser_getint d key notfound =
    (case iniparser_getstring d (Some key) CInvalid of
       CInvalid \<Rightarrow> Some notfound
     | CNull \<Rightarrow> None
     | CStr s \<Rightarrow> Some (strtol0 s))"

definition iniparser_getboolean :: "dictionary option \<Rightarrow> string \<Rightarrow> int \<Rightarrow> int option" where
  "iniparser_getboolean d key notfound =
    (case iniparser_getstring d (Some key) CInvalid of
       CInvalid \<Rightarrow> Some notfound
     | CNull \<Rightarrow> None
     | CStr s \<Rightarrow> Some (case s of
           [] \<Rightarrow> notfound
         | c # _ \<Rightarrow> if c \<in> set ''yY1tT'' then 1 else if c \<in> set ''nN0fF'' then 0 else notfound))"

definition iniparser_find_entry :: "dictionary option \<Rightarrow> string \<Rightarrow> int" where
  "iniparser_find_entry ini entry =
    (if iniparser_getstring ini (Some entry) CInvalid \<noteq> CInvalid then 1 else 0)"

definition iniparser_set ::
    "bool \<Rightarrow> dictionary option \<Rightarrow> string \<Rightarrow> cptr \<Rightarrow> int \<times> dictionary option" where
  "iniparser_set grow_ok ini entry val = dictionary_set grow_ok ini (Some (strlwc entry)) val"

definition iniparser_unset :: "dictionary \<Rightarrow> string \<Rightarrow> dictionary" where
  "iniparser_unset ini entry = dictionary_unset ini (Some (strlwc entry))"

definition iniparser_getnsec :: "dictionary option \<Rightarrow> int" where
  "iniparser_getnsec d =
    (case d of
       None \<Rightarrow> -1
     | Some d' \<Rightarrow> int (length (filter (\<lambda>k. case k of None \<Rightarrow> False | Some s \<Rightarrow> CHR '':'' \<notin> set s)
                              (di_key d'))))"

definition iniparser_getsecname :: "dictionary option \<Rightarrow> int \<Rightarrow> string option" where
  "iniparser_getsecname d n =
    (case d of
       None \<Rightarrow> None
     | Some d' \<Rightarrow>
        (let secs = filter (\<lambda>k. case k of None \<Rightarrow> False | Some s \<Rightarrow> CHR '':'' \<notin> set s) (di_key d')
         in if n < 0 \<or> int (length secs) \<le> n then None else secs ! nat n))"


section \<open>Lines the loader is meant for\<close>

text \<open>
  The specification side: an ini file as a list of items, printed one per line. Names and
  values are made of characters that need no quoting.
\<close>

datatype ini_item = Sec string | KV string string

definition plain_char :: "char \<Rightarrow> bool" where
  "plain_char c \<longleftrightarrow> \<not> isspace c \<and> c \<notin> {CHR ''='', CHR '';'', CHR ''#'', CHR ''['', CHR '']'', sq, dq, backslash}"

definition plain_name :: "string \<Rightarrow> bool" where
  "plain_name s \<longleftrightarrow> s \<noteq> [] \<and> (\<forall>c \<in> set s. plain_char c \<and> tolower c = c) \<and> length s \<le> 400"

definition plain_value :: "string \<Rightarrow> bool" where
  "plain_value s \<longleftrightarrow> s \<noteq> [] \<and> (\<forall>c \<in> set s. plain_char c) \<and> length s \<le> 400"

fun item_line :: "ini_item \<Rightarrow> string" where
  "item_line (Sec n) = CHR ''['' # n @ [CHR '']'']"
| "item_line (KV k v) = k @ '' = '' @ v"

definition ini_text :: "ini_item list \<Rightarrow> string" where
  "ini_text items = concat (map (\<lambda>i. item_line i @ [newline]) items)"

fun item_ok :: "ini_item \<Rightarrow> bool" where
  "item_ok (Sec n) = plain_name n"
| "item_ok (KV k v) = (plain_name k \<and> plain_value v)"

text \<open>The stores a file asks for, in order, under the current section.\<close>

fun ini_entries :: "string \<Rightarrow> ini_item list \<Rightarrow> (string \<times> cptr) list" where
  "ini_entries sec [] = []"
| "ini_entries sec (Sec n # is) = (n, CNull) # ini_entries n is"
| "ini_entries sec (KV k v # is) = (sec @ CHR '':'' # k, CStr v) # ini_entries sec is"

lemma rstrip_last: "s \<noteq> [] \<Longrightarrow> \<not> isspace (last s) \<Longrightarrow> rstrip s = s"
  by (cases s rule: rev_cases) (auto simp: rstrip_def)

lemma rstrip_snoc_space: "isspace c \<Longrightarrow> rstrip (s @ [c]) = rstrip s"
  by (simp add: rstrip_def)

lemma strstrip_id: "s \<noteq> [] \<Longrightarrow> \<not> isspace (hd s) \<Longrightarrow> \<not> isspace (last s) \<Longrightarrow> strstrip s = s"
  by (cases s) (auto simp: strstrip_def intro: rstrip_last)

lemma strstrip_trailing: "s \<noteq> [] \<Longrightarrow> \<not> isspace (hd s) \<Longrightarrow> strstrip (s @ '' '') = rstrip s"
  by (cases s) (auto simp: strstrip_def isspace_def rstrip_snoc_space [of _ "_ # _", simplified])

lemma plain_ends:
  assumes "s \<noteq> []" and "\<forall>c \<in> set s. plain_char c"
  shows "plain_char (hd s)" "plain_char (last s)" "\<not> isspace (hd s)" "\<not> isspace (last s)"
  using assms by (auto simp: plain_char_def)

lemma strlwc_plain: "plain_name s \<Longrightarrow> strlwc s = s"
  by (auto simp: plain_name_def strlwc_def ASCIILINESZ_def intro: map_idI)

lemma strlwc_nil: "strlwc [] = []"
  by (simp add: strlwc_def)

lemma takeWhile_all: "\<forall>c \<in> set s. P c \<Longrightarrow> takeWhile P (s @ t) = s @ takeWhile P t"
  by (induction s) auto

lemma dropWhile_all: "\<forall>c \<in> set s. P c \<Longrightarrow> dropWhile P (s @ t) = dropWhile P t"
  by (induction s) auto

lemma newline_isspace: "isspace newline"
  by (simp add: isspace_def newline_def)

lemma space_isspace: "isspace CHR '' ''"
  by (simp add: isspace_def)

lemma get_line_nl:
  "newline \<notin> set t \<Longrightarrow> length t < k \<Longrightarrow> get_line k (t @ newline # r) = (t @ [newline], r)"
proof (induction t arbitrary: k)
  case Nil
  then obtain k' where "k = Suc k'" by (cases k) auto
  then show ?case by simp
next
  case (Cons c t)
  then obtain k' where "k = Suc k'" "length t < k'" by (cases k) auto
  with Cons show ?case by auto
qed

text \<open>One complete, unfolded line is handed to the line switch as it is.\<close>

lemma ini_loop_line:
  assumes "t \<noteq> []" "newline \<notin> set t" "length t < 1023" "\<not> isspace (last t)" "last t \<noteq> backslash"
  shows "ini_loop g stale s [] (t @ newline # r) =
    (case ini_process g s t of None \<Rightarrow> None | Some s' \<Rightarrow> ini_loop g stale s' [] r)"
proof -
  have "get_line (ASCIILINESZ - 1 - length []) (t @ newline # r) = (t @ [newline], r)"
    using get_line_nl [of t 1023 r] assms by (simp add: ASCIILINESZ_def)
  moreover have "rstrip (t @ [newline]) = t"
    using assms by (simp add: rstrip_snoc_space newline_isspace rstrip_last)
  ultimately show ?thesis
    using assms by (subst ini_loop.simps) simp
qed

lemma iniparser_line_section:
  assumes "plain_name n"
  shows "iniparser_line (item_line (Sec n)) sec k v = (LINE_SECTION, n, k, v)"
proof -
  have ne: "n \<noteq> []" and pl: "\<forall>c \<in> set n. plain_char c" using assms by (auto simp: plain_name_def)
  have nb: "\<forall>c \<in> set n. c \<noteq> CHR '']''" using pl by (auto simp: plain_char_def)
  have "strstrip (item_line (Sec n)) = item_line (Sec n)"
    by (rule strstrip_id) (auto simp: isspace_def)
  moreover have "sscanf fmt_section (item_line (Sec n)) = [n]"
    using ne takeWhile_all [OF nb, of "[CHR '']'']"] by (simp add: fmt_section_def)
  moreover have "strstrip n = n" using ne plain_ends [OF ne pl] by (intro strstrip_id)
  ultimately show ?thesis
    using assms by (simp add: iniparser_line_def strlwc_plain Let_def)
qed

lemma sscanf_key:
  assumes "k \<noteq> []" "\<forall>c \<in> set k. c \<noteq> CHR ''=''"
  shows "sscanf (fmt_key @ f) (k @ '' = '' @ v) = (k @ '' '') # sscanf f (''= '' @ v)"
proof -
  have t: "takeWhile (\<lambda>c. c \<noteq> CHR ''='') (k @ CHR '' '' # CHR ''='' # CHR '' '' # v) = k @ '' ''"
    using takeWhile_all [OF assms(2), of "CHR '' '' # CHR ''='' # CHR '' '' # v"] by simp
  have d: "dropWhile (\<lambda>c. c \<noteq> CHR ''='') (k @ CHR '' '' # CHR ''='' # CHR '' '' # v) = CHR ''='' # CHR '' '' # v"
    using dropWhile_all [OF assms(2), of "CHR '' '' # CHR ''='' # CHR '' '' # v"] by simp
  show ?thesis using t d by (simp add: fmt_key_def isspace_def)
qed

lemma iniparser_line_value:
  assumes "plain_name k" and "plain_value v"
  shows "iniparser_line (item_line (KV k v)) sec k0 v0 = (LINE_VALUE, sec, k, v)"
proof -
  have k: "k \<noteq> []" "\<forall>c \<in> set k. plain_char c" using assms(1) by (auto simp: plain_name_def)
  have v: "v \<noteq> []" "\<forall>c \<in> set v. plain_char c" using assms(2) by (auto simp: plain_value_def)
  note ke = plain_ends [OF k] and ve = plain_ends [OF v]
  have keq: "\<forall>c \<in> set k. c \<noteq> CHR ''=''" using k(2) by (auto simp: plain_char_def)
  have vset: "\<forall>c \<in> set v. c \<noteq> CHR '';'' \<and> c \<noteq> CHR ''#''" using v(2) by (auto simp: plain_char_def)
  obtain x v' where vx: "v = x # v'" using v(1) by (cases v) auto
  have xs: "\<not> isspace x" "x \<noteq> dq" "x \<noteq> sq" using v(2) by (auto simp: vx plain_char_def)
  let ?l = "item_line (KV k v)"
  have strip: "strstrip ?l = ?l" using k(1) v(1) ke(3) ve(4) by (intro strstrip_id) auto
  have hd: "hd ?l = hd k" using k(1) by simp
  have q1: "sscanf fmt_dq ?l = [k @ '' '']" "sscanf fmt_sq ?l = [k @ '' '']"
    using xs by (simp_all add: fmt_dq_def fmt_sq_def sscanf_key [OF k(1) keq, simplified] vx
      space_isspace)
  have tw: "takeWhile (\<lambda>c. c \<noteq> CHR '';'' \<and> c \<noteq> CHR ''#'') v = v"
    using takeWhile_all [OF vset, of "[]"] by simp
  have q2: "sscanf fmt_plain ?l = [k @ '' '', v]"
    using xs tw by (simp add: fmt_plain_def sscanf_key [OF k(1) keq, simplified] vx space_isspace)
  have any: "scan_any [fmt_dq, fmt_sq, fmt_plain] ?l (k0, v0) = (True, k @ '' '', v)"
    using q1 q2 by (simp add: scan2_def)
  have "strlwc (strstrip (k @ '' '')) = k"
    using strstrip_trailing [OF k(1) ke(3)] rstrip_last [OF k(1) ke(4)] assms(1) strlwc_plain by simp
  moreover have "strstrip v = v" using v(1) ve by (intro strstrip_id)
  moreover have "v \<noteq> [dq, dq]" "v \<noteq> [sq, sq]" using xs by (simp_all add: vx)
  moreover have "hd k \<noteq> CHR ''#''" "hd k \<noteq> CHR ''[''" using ke(1) by (auto simp: plain_char_def)
  moreover have "length ?l \<ge> 1" by simp
  ultimately show ?thesis
    unfolding iniparser_line_def strip Let_def any hd by simp
qed

lemma plain_no_newline: "\<forall>c \<in> set s. plain_char c \<Longrightarrow> newline \<notin> set s"
  using newline_isspace by (auto simp: plain_char_def)

lemma item_line_shape:
  assumes "item_ok i"
  shows "item_line i \<noteq> []" "newline \<notin> set (item_line i)" "length (item_line i) < 1023"
    "\<not> isspace (last (item_line i))" "last (item_line i) \<noteq> backslash"
proof -
  have nl: "newline \<notin> set ''[]''" "newline \<notin> set '' = ''" by (simp_all add: newline_def)
  show "item_line i \<noteq> []" by (cases i) auto
  show "newline \<notin> set (item_line i)"
    using assms nl plain_no_newline
    by (cases i) (simp_all add: plain_name_def plain_value_def)
  show "length (item_line i) < 1023"
    using assms by (cases i) (simp_all add: plain_name_def plain_value_def)
  show "\<not> isspace (last (item_line i))"
    using assms plain_ends(4) by (cases i) (simp_all add: isspace_def [of "CHR '']''"] plain_value_def)
  show "last (item_line i) \<noteq> backslash"
    using assms plain_ends(2) by (cases i) (auto simp: plain_value_def plain_char_def)
qed

definition section_ok :: "string \<Rightarrow> bool" where
  "section_ok s \<longleftrightarrow> s = [] \<or> plain_name s"

text \<open>Loading the printed items performs exactly the stores of \<open>ini_entries\<close>.\<close>

lemma ini_loop_items:
  assumes "list_all item_ok items" "dict_inv (is_dict s)" "is_errs s = 0" "section_ok (is_section s)"
  shows "\<exists>d. ini_loop True stale s [] (ini_text items) = Some (Some d) \<and>
    dict.put_all (is_dict s) (ini_entries (is_section s) items) = Some d"
  using assms
proof (induction items arbitrary: s)
  case Nil
  then show ?case by (simp add: ini_text_def ini_loop.simps)
next
  case (Cons i items)
  have ok: "item_ok i" using Cons.prems by simp
  have lines: "ini_text (i # items) = item_line i @ newline # ini_text items"
    by (simp add: ini_text_def)
  note step = ini_loop_line [OF item_line_shape [OF ok], of True stale s "ini_text items"]
  show ?case
  proof (cases i)
    case (Sec n)
    obtain d1 where d1: "dictionary_set True (Some (is_dict s)) (Some n) CNull = (0, Some d1)"
      "dict_inv d1" using dictionary_set_ok [OF Cons.prems(2)] by blast
    let ?s = "s\<lparr>is_section := n, is_errs := 0, is_dict := d1\<rparr>"
    have "ini_process True s (item_line i) = Some ?s"
      using d1 ok Sec iniparser_line_section [of n "is_section s" "is_key s" "is_val s"]
      by (simp add: ini_process_def ini_store_def Let_def)
    moreover have "\<exists>d. ini_loop True stale ?s [] (ini_text items) = Some (Some d) \<and>
        dict.put_all (is_dict ?s) (ini_entries (is_section ?s) items) = Some d"
      using Cons.prems ok Sec d1 by (intro Cons.IH) (auto simp: section_ok_def)
    ultimately show ?thesis unfolding lines step using d1 by (simp add: Sec)
  next
    case (KV k v)
    let ?n = "is_section s @ CHR '':'' # k"
    obtain d1 where d1: "dictionary_set True (Some (is_dict s)) (Some ?n) (CStr v) = (0, Some d1)"
      "dict_inv d1" using dictionary_set_ok [OF Cons.prems(2)] by blast
    let ?s = "s\<lparr>is_key := k, is_val := v, is_errs := 0, is_dict := d1\<rparr>"
    have len: "\<not> length (is_section s) + 1 + length k > ASCIILINESZ"
      using Cons.prems(4) ok KV by (auto simp: section_ok_def plain_name_def ASCIILINESZ_def)
    have "ini_process True s (item_line i) = Some ?s"
      using d1 ok KV len iniparser_line_value [of k v "is_section s" "is_key s" "is_val s"]
      by (simp add: ini_process_def ini_store_def Let_def)
    moreover have "\<exists>d. ini_loop True stale ?s [] (ini_text items) = Some (Some d) \<and>
        dict.put_all (is_dict ?s) (ini_entries (is_section ?s) items) = Some d"
      using Cons.prems ok KV d1 by (intro Cons.IH) auto
    ultimately show ?thesis unfolding lines step using d1 by (simp add: KV)
  qed
qed

section \<open>Properties\<close>

lemma ini_loads:
  assumes "list_all item_ok items"
  shows "\<exists>d. iniparser_load True stale (Some (ini_text items)) = Some (Some d) \<and> dict_inv d \<and>
    (\<forall>key def. iniparser_getstring (Some d) (Some key) def =
       (case map_of (rev (ini_entries [] items)) (strlwc key) of None \<Rightarrow> def | Some v \<Rightarrow> v))"
proof -
  have init: "dict_inv (is_dict ini_init)" "is_errs ini_init = 0" "section_ok (is_section ini_init)"
    "is_section ini_init = []" "is_dict ini_init = dictionary_new 0"
    by (simp_all add: ini_init_def section_ok_def dict.empty_ok)
  obtain d where d: "ini_loop True stale ini_init [] (ini_text items) = Some (Some d)"
      "dict.put_all (dictionary_new 0) (ini_entries [] items) = Some d"
    using ini_loop_items [OF assms init(1-3)] init(4,5) by auto
  moreover have "dict_inv d"
    using dict.put_all_ok [OF dict.empty_ok(1), of "ini_entries [] items"] d(2) by auto
  ultimately show ?thesis
    using dict.get_put_all [OF d(2)] by (auto simp: iniparser_load_def iniparser_getstring_def)
qed

text \<open>
  C35: round trip of the ini loader. For every list of sections and plain key/value items, in any
  order, loading the printed file succeeds, keeps the dictionary invariant, and every later
  \<^verbatim>\<open>iniparser_getstring\<close>, whatever the letter case of its key, returns the value of the last item
  with that section and key, or the caller's default when there is none.
\<close>

theorem ini_roundtrip:
  assumes "list_all item_ok items"
  shows "\<exists>d. iniparser_load True stale (Some (ini_text items)) = Some (Some d) \<and> dict_inv d \<and>
    (\<forall>key def. iniparser_getstring (Some d) (Some key) def =
       (case map_of (rev (ini_entries [] items)) (strlwc key) of None \<Rightarrow> def | Some v \<Rightarrow> v))"
  by (rule ini_loads [OF assms])

theorem ini_roundtrip_witness:
  "\<exists>d. iniparser_load True CHR ''x'' (Some (ini_text [Sec ''gps'', KV ''port'' ''45000''])) = Some (Some d) \<and>
    iniparser_getstring (Some d) (Some ''GPS:Port'') CNull = CStr ''45000''"
proof -
  have "list_all item_ok [Sec ''gps'', KV ''port'' ''45000'']" by code_simp
  from ini_roundtrip [OF this, of "CHR ''x''"] obtain d where
    d: "iniparser_load True CHR ''x'' (Some (ini_text [Sec ''gps'', KV ''port'' ''45000''])) = Some (Some d)"
    and g: "\<And>key def. iniparser_getstring (Some d) (Some key) def =
       (case map_of (rev (ini_entries [] [Sec ''gps'', KV ''port'' ''45000''])) (strlwc key) of None \<Rightarrow> def | Some v \<Rightarrow> v)"
    by blast
  have "strlwc ''GPS:Port'' = ''gps:port''" by code_simp
  with d g [of "''GPS:Port''" CNull] show ?thesis by simp
qed

text \<open>
  A stored line erases the error count. Whatever syntax errors the lines before it have been
  counted for, a well-formed item overwrites the counter with the status of its own store, so
  that the final check of \<^verbatim>\<open>iniparser_load\<close> only sees the errors after the last stored line.
\<close>

lemma ini_errors_forgotten:
  assumes "item_ok i" "dict_inv (is_dict s)" "section_ok (is_section s)"
  shows "\<exists>s'. ini_process True s (item_line i) = Some s' \<and> is_errs s' = 0 \<and> dict_inv (is_dict s')"
proof (cases i)
  case (Sec n)
  obtain d1 where "dictionary_set True (Some (is_dict s)) (Some n) CNull = (0, Some d1)"
    "dict_inv d1" using dictionary_set_ok [OF assms(2)] by blast
  then show ?thesis
    using assms(1) Sec iniparser_line_section [of n "is_section s" "is_key s" "is_val s"]
    by (simp add: ini_process_def ini_store_def Let_def)
next
  case (KV k v)
  obtain d1 where "dictionary_set True (Some (is_dict s)) (Some (is_section s @ CHR '':'' # k)) (CStr v) = (0, Some d1)"
    "dict_inv d1" using dictionary_set_ok [OF assms(2)] by blast
  moreover have "\<not> length (is_section s) + 1 + length k > ASCIILINESZ"
    using assms KV by (auto simp: section_ok_def plain_name_def ASCIILINESZ_def)
  ultimately show ?thesis
    using assms(1) KV iniparser_line_value [of k v "is_section s" "is_key s" "is_val s"]
    by (simp add: ini_process_def ini_store_def Let_def)
qed

theorem ini_errors_forgotten_witness:
  "\<exists>s'. ini_process True (ini_init\<lparr>is_errs := 3\<rparr>) (item_line (Sec ''dds'')) = Some s' \<and> is_errs s' = 0"
proof -
  have "item_ok (Sec ''dds'')" by code_simp
  moreover have "dict_inv (is_dict (ini_init\<lparr>is_errs := 3\<rparr>))" "section_ok (is_section (ini_init\<lparr>is_errs := 3\<rparr>))"
    by (simp_all add: ini_init_def section_ok_def dict.empty_ok)
  ultimately show ?thesis using ini_errors_forgotten by blast
qed

end
