(* ===== verification/Thread_List.thy ===== *)
theory Thread_List
  imports ROS_Prelude
begin

text \<open>
  The doubly linked list of client threads, at pointer level: insertion as the accept loop of
  \<^verbatim>\<open>server/main.c\<close> does it, and the sweep of \<^verbatim>\<open>server/timeout_handler.c\<close> that unlinks threads which
  have not been heard of. The lemmas show that both keep the list well formed and refine
  \<open>Cons\<close> and \<open>filter\<close> on the sequence of threads, newest first; the locale \<open>thread_registry\<close> states
  that contract and what it means for any sequence of connections and sweeps. The list is the
  one the locks protect: the model runs one operation at a time.
\<close>

section \<open>Model\<close>

record 'd thread_item =
  th_prev :: "nat option"
  th_next :: "nat option"
  th_id :: nat
  th_timeout :: int
  th_last_seen :: int
  th_data :: 'd

record 'd thread_list =
  tl_heap :: "nat \<Rightarrow> 'd thread_item option"
  tl_head :: "nat option"

text \<open>
  A new client: \<open>a\<close> is the address \<^verbatim>\<open>malloc\<close> returns. The new item becomes the head
  \<^verbatim>\<open>controlprogram_threads\<close>, and \<^verbatim>\<open>prev\<close> leads to older threads.
\<close>

definition thread_insert :: "nat \<Rightarrow> nat \<Rightarrow> int \<Rightarrow> int \<Rightarrow> 'd \<Rightarrow> 'd thread_list \<Rightarrow> 'd thread_list option" where
  "thread_insert a tid now timeout d t =
    (let item = \<lparr>th_prev = tl_head t, th_next = None, th_id = tid, th_timeout = timeout,
                 th_last_seen = now, th_data = d\<rparr>
     in case tl_head t of
       None \<Rightarrow> Some (t\<lparr>tl_heap := (tl_heap t)(a \<mapsto> item), tl_head := Some a\<rparr>)
     | Some h \<Rightarrow>
         (case tl_heap t h of
            None \<Rightarrow> None
          | Some hit \<Rightarrow>
              Some (t\<lparr>tl_heap := (tl_heap t)(a \<mapsto> item, h \<mapsto> hit\<lparr>th_next := Some a\<rparr>),
                      tl_head := Some a\<rparr>)))"

text \<open>
  The test of the sweep: \<^verbatim>\<open>elapsed\<close> is an \<^verbatim>\<open>unsigned long\<close>, and the comparison with the signed
  timeout is unsigned too.
\<close>

definition expired :: "int \<Rightarrow> 'd thread_item \<Rightarrow> bool" where
  "expired now it \<longleftrightarrow> (of_int (now - th_last_seen it) :: u64) > of_int (th_timeout it)"

definition thread_unlink :: "nat \<Rightarrow> 'd thread_item \<Rightarrow> 'd thread_list \<Rightarrow> 'd thread_list option" where
  "thread_unlink a it t = do {
     t1 \<leftarrow> (case th_next it of
              Some n \<Rightarrow> (case tl_heap t n of
                  None \<Rightarrow> None
                | Some nit \<Rightarrow> Some (t\<lparr>tl_heap := (tl_heap t)(n \<mapsto> nit\<lparr>th_prev := th_prev it\<rparr>)\<rparr>))
            | None \<Rightarrow> Some (t\<lparr>tl_head := th_prev it\<rparr>));
     t2 \<leftarrow> (case th_prev it of
              Some p \<Rightarrow> (case tl_heap t1 p of
                  None \<Rightarrow> None
                | Some pit \<Rightarrow> Some (t1\<lparr>tl_heap := (tl_heap t1)(p \<mapsto> pit\<lparr>th_next := th_next it\<rparr>)\<rparr>))
            | None \<Rightarrow> Some t1);
     Some (t2\<lparr>tl_heap := (tl_heap t2)(a := None)\<rparr>)
   }"

text \<open>
  The sweep: it follows \<^verbatim>\<open>prev\<close> from the head and unlinks what has expired. The second result
  lists the addresses removed, whose threads it has cancelled and joined.
\<close>

partial_function (option) timeout_sweep ::
    "int \<Rightarrow> 'd thread_list \<Rightarrow> nat option \<Rightarrow> ('d thread_list \<times> nat list) option" where
  "timeout_sweep now t cur =
    (case cur of
       None \<Rightarrow> Some (t, [])
     | Some a \<Rightarrow>
        (case tl_heap t a of
           None \<Rightarrow> None
         | Some it \<Rightarrow>
             if expired now it
             then Option.bind (thread_unlink a it t) (\<lambda>t'.
                    Option.bind (timeout_sweep now t' (th_prev it)) (\<lambda>(t'', r). Some (t'', a # r)))
             else timeout_sweep now t (th_prev it)))"

declare timeout_sweep.simps [code]

text \<open>The loops that walk the list, such as the count of \<^verbatim>\<open>num_threads\<close> in the accept loop.\<close>

partial_function (option) thread_walk :: "'d thread_list \<Rightarrow> nat option \<Rightarrow> nat list option" where
  "thread_walk t cur =
    (case cur of
       None \<Rightarrow> Some []
     | Some a \<Rightarrow>
        (case tl_heap t a of
           None \<Rightarrow> None
         | Some it \<Rightarrow> Option.bind (thread_walk t (th_prev it)) (\<lambda>as. Some (a # as))))"

declare thread_walk.simps [code]

definition num_threads :: "'d thread_list \<Rightarrow> int option" where
  "num_threads t = map_option (\<lambda>as. int (length as)) (thread_walk t (tl_head t))"

section \<open>List segments\<close>

text \<open>
  \<open>seg h n p as n' p'\<close>: following \<^verbatim>\<open>prev\<close> from \<open>p\<close> visits \<open>as\<close> and ends at \<open>p'\<close>; the \<^verbatim>\<open>next\<close> pointer
  of the first node is \<open>n\<close>, and the one of whatever follows has to be \<open>n'\<close>.
\<close>

fun seg :: "(nat \<Rightarrow> 'd thread_item option) \<Rightarrow> nat option \<Rightarrow> nat option \<Rightarrow> nat list \<Rightarrow> nat option \<Rightarrow> nat option \<Rightarrow> bool" where
  "seg h n p [] n' p' = (n = n' \<and> p = p')"
| "seg h n p (a # as) n' p' =
     (p = Some a \<and> (\<exists>it. h a = Some it \<and> th_next it = n \<and> seg h (Some a) (th_prev it) as n' p'))"

definition wf_list :: "'d thread_list \<Rightarrow> nat list \<Rightarrow> bool" where
  "wf_list t as \<longleftrightarrow> distinct as \<and> (\<exists>n. seg (tl_heap t) None (tl_head t) as n None)"

lemma seg_append: "seg h n p (as @ bs) n' p' \<longleftrightarrow> (\<exists>m q. seg h n p as m q \<and> seg h m q bs n' p')"
  by (induction as arbitrary: n p) auto

lemma seg_frame [simp]: "a \<notin> set as \<Longrightarrow> seg (h(a := x)) n p as n' p' = seg h n p as n' p'"
  by (induction as arbitrary: n p) auto

lemma seg_end: "seg h n p as n' p' \<Longrightarrow> n' = (if as = [] then n else Some (last as))"
  by (induction as arbitrary: n p) auto

lemma seg_start: "seg h n p as n' p' \<Longrightarrow> p = (if as = [] then p' else Some (hd as))"
  by (cases as) auto

lemma seg_mem: "seg h n p as n' p' \<Longrightarrow> a \<in> set as \<Longrightarrow> \<exists>it. h a = Some it"
  by (induction as arbitrary: n p) auto

text \<open>Redirecting the last \<^verbatim>\<open>prev\<close> pointer or the first \<^verbatim>\<open>next\<close> pointer of a segment.\<close>

lemma seg_set_last_prev:
  assumes "seg h n p (as @ [b]) n' p'" "distinct (as @ [b])" "h b = Some it"
  shows "seg (h(b \<mapsto> it\<lparr>th_prev := q\<rparr>)) n p (as @ [b]) (Some b) q"
  using assms by (auto simp: seg_append)

lemma seg_set_first_next:
  assumes "seg h n p (c # cs) n' p'" "distinct (c # cs)" "h c = Some it"
  shows "seg (h(c \<mapsto> it\<lparr>th_next := m\<rparr>)) m p (c # cs) n' p'"
  using assms by auto

section \<open>Refinement\<close>

text \<open>What an item says about its thread, without the links.\<close>

definition th_info :: "'d thread_item \<Rightarrow> nat \<times> int \<times> int \<times> 'd" where
  "th_info it = (th_id it, th_timeout it, th_last_seen it, th_data it)"

definition info_at :: "'d thread_list \<Rightarrow> nat \<Rightarrow> (nat \<times> int \<times> int \<times> 'd) option" where
  "info_at t a = map_option th_info (tl_heap t a)"

definition info_expired :: "int \<Rightarrow> (nat \<times> int \<times> int \<times> 'd) option \<Rightarrow> bool" where
  "info_expired now i = (case i of None \<Rightarrow> False
     | Some (_, timeout, seen, _) \<Rightarrow> (of_int (now - seen) :: u64) > of_int timeout)"

lemma expired_info: "tl_heap t a = Some it \<Longrightarrow> expired now it = info_expired now (info_at t a)"
  by (simp add: expired_def info_expired_def info_at_def th_info_def)

lemma unlink_ok:
  assumes w: "wf_list t (ys @ a # xs)" and it: "tl_heap t a = Some it"
  shows "\<exists>t'. thread_unlink a it t = Some t' \<and> wf_list t' (ys @ xs) \<and>
    (\<forall>b. b \<noteq> a \<longrightarrow> info_at t' b = info_at t b) \<and> th_prev it = (if xs = [] then None else Some (hd xs))"
proof -
  let ?h = "tl_heap t"
  obtain n where d: "distinct (ys @ a # xs)" and
    s: "seg ?h None (tl_head t) ys (th_next it) (Some a)" "seg ?h (Some a) (th_prev it) xs n None"
    using w it by (auto simp: wf_list_def seg_append)
  have nx: "th_next it = (if ys = [] then None else Some (last ys))" using seg_end [OF s(1)] .
  have pv: "th_prev it = (if xs = [] then None else Some (hd xs))" using seg_start [OF s(2)] .
  obtain t1 where t1: "(case th_next it of
        Some n \<Rightarrow> (case tl_heap t n of None \<Rightarrow> None
           | Some nit \<Rightarrow> Some (t\<lparr>tl_heap := (tl_heap t)(n \<mapsto> nit\<lparr>th_prev := th_prev it\<rparr>)\<rparr>))
      | None \<Rightarrow> Some (t\<lparr>tl_head := th_prev it\<rparr>)) = Some t1"
    "seg (tl_heap t1) None (tl_head t1) ys (th_next it) (th_prev it)" "seg (tl_heap t1) (Some a) (th_prev it) xs n None"
    "\<forall>b. info_at t1 b = info_at t b"
  proof (cases ys rule: rev_cases)
    case Nil
    then show thesis using that [of "t\<lparr>tl_head := th_prev it\<rparr>"] nx s by (simp add: info_at_def)
  next
    case (snoc ys0 b)
    obtain bit where b: "?h b = Some bit" using seg_mem [OF s(1), of b] snoc by auto
    have "seg (?h(b \<mapsto> bit\<lparr>th_prev := th_prev it\<rparr>)) None (tl_head t) (ys0 @ [b]) (Some b) (th_prev it)"
      using seg_set_last_prev [of ?h None "tl_head t" ys0 b "th_next it" "Some a" bit "th_prev it"] s(1) d b snoc by simp
    then show thesis
      using that [of "t\<lparr>tl_heap := ?h(b \<mapsto> bit\<lparr>th_prev := th_prev it\<rparr>)\<rparr>"] nx s(2) d b snoc
      by (simp add: info_at_def th_info_def)
  qed
  obtain t2 where t2: "(case th_prev it of
        Some p \<Rightarrow> (case tl_heap t1 p of None \<Rightarrow> None
           | Some pit \<Rightarrow> Some (t1\<lparr>tl_heap := (tl_heap t1)(p \<mapsto> pit\<lparr>th_next := th_next it\<rparr>)\<rparr>))
      | None \<Rightarrow> Some t1) = Some t2"
    "seg (tl_heap t2) None (tl_head t2) ys (th_next it) (th_prev it)"
    "\<exists>n. seg (tl_heap t2) (th_next it) (th_prev it) xs n None" "\<forall>b. info_at t2 b = info_at t b"
  proof (cases xs)
    case Nil
    then show thesis using that [of t1] pv t1 by simp
  next
    case (Cons c cs)
    obtain cit where c: "tl_heap t1 c = Some cit" using seg_mem [OF t1(3), of c] Cons by auto
    have "seg ((tl_heap t1)(c \<mapsto> cit\<lparr>th_next := th_next it\<rparr>)) (th_next it) (th_prev it) (c # cs) n None"
      using seg_set_first_next [of "tl_heap t1" "Some a" "th_prev it" c cs n None cit] t1(3) d c Cons by simp
    moreover have "\<forall>b. info_at (t1\<lparr>tl_heap := (tl_heap t1)(c \<mapsto> cit\<lparr>th_next := th_next it\<rparr>)\<rparr>) b = info_at t b"
    proof
      fix b
      have "info_at (t1\<lparr>tl_heap := (tl_heap t1)(c \<mapsto> cit\<lparr>th_next := th_next it\<rparr>)\<rparr>) b = info_at t1 b"
        using c by (simp add: info_at_def th_info_def)
      then show "info_at (t1\<lparr>tl_heap := (tl_heap t1)(c \<mapsto> cit\<lparr>th_next := th_next it\<rparr>)\<rparr>) b = info_at t b"
        using t1(4) by simp
    qed
    ultimately show thesis
      using that [of "t1\<lparr>tl_heap := (tl_heap t1)(c \<mapsto> cit\<lparr>th_next := th_next it\<rparr>)\<rparr>"] pv t1(2) d c Cons by auto
  qed
  let ?t' = "t2\<lparr>tl_heap := (tl_heap t2)(a := None)\<rparr>"
  have "thread_unlink a it t = Some ?t'" using t1(1) t2(1) by (simp add: thread_unlink_def)
  moreover have "wf_list ?t' (ys @ xs)" using t2(2,3) d by (auto simp: wf_list_def seg_append)
  moreover have "\<forall>b. b \<noteq> a \<longrightarrow> info_at ?t' b = info_at t b" using t2(4) by (simp add: info_at_def)
  ultimately show ?thesis using pv by blast
qed

lemma sweep_ok:
  assumes "wf_list t (ys @ xs)" "cur = (if xs = [] then None else Some (hd xs))"
  shows "\<exists>t'. timeout_sweep now t cur = Some (t', filter (\<lambda>a. info_expired now (info_at t a)) xs) \<and>
    wf_list t' (ys @ filter (\<lambda>a. \<not> info_expired now (info_at t a)) xs) \<and>
    (\<forall>b \<in> set (ys @ filter (\<lambda>a. \<not> info_expired now (info_at t a)) xs). info_at t' b = info_at t b)"
  using assms
proof (induction xs arbitrary: ys t cur)
  case Nil
  then show ?case by (simp add: timeout_sweep.simps)
next
  case (Cons a xs)
  obtain n m q where "seg (tl_heap t) m q (a # xs) n None"
    using Cons.prems(1) by (auto simp: wf_list_def seg_append simp del: seg.simps)
  then obtain it where it: "tl_heap t a = Some it" "th_prev it = (if xs = [] then None else Some (hd xs))"
    using seg_start by fastforce
  show ?case
  proof (cases "expired now it")
    case True
    obtain t1 where t1: "thread_unlink a it t = Some t1" "wf_list t1 (ys @ xs)" "\<forall>b. b \<noteq> a \<longrightarrow> info_at t1 b = info_at t b"
      using unlink_ok [OF Cons.prems(1) it(1)] by blast
    have "a \<notin> set (ys @ xs)" using Cons.prems(1) by (simp add: wf_list_def)
    then have same: "\<forall>b \<in> set (ys @ xs). info_at t1 b = info_at t b" using t1(3) by metis
    then have f: "filter (\<lambda>a. info_expired now (info_at t1 a)) xs = filter (\<lambda>a. info_expired now (info_at t a)) xs"
      "filter (\<lambda>a. \<not> info_expired now (info_at t1 a)) xs = filter (\<lambda>a. \<not> info_expired now (info_at t a)) xs"
      by (auto intro: filter_cong)
    obtain t' where "timeout_sweep now t1 (th_prev it) = Some (t', filter (\<lambda>a. info_expired now (info_at t a)) xs)"
      "wf_list t' (ys @ filter (\<lambda>a. \<not> info_expired now (info_at t a)) xs)"
      "\<forall>b \<in> set (ys @ filter (\<lambda>a. \<not> info_expired now (info_at t a)) xs). info_at t' b = info_at t1 b"
      using Cons.IH [OF t1(2) it(2)] f by auto
    with True it(1) t1(1) same expired_info [OF it(1), of now] Cons.prems(2) show ?thesis
      by (subst timeout_sweep.simps) auto
  next
    case False
    then have "\<not> info_expired now (info_at t a)" using expired_info [OF it(1)] by metis
    with Cons.IH [of t "ys @ [a]" "th_prev it"] Cons.prems it False show ?thesis
      by (subst timeout_sweep.simps) auto
  qed
qed

lemma insert_ok:
  assumes "wf_list t as" "a \<notin> set as"
  shows "\<exists>t'. thread_insert a tid now timeout d t = Some t' \<and> wf_list t' (a # as) \<and>
    info_at t' a = Some (tid, timeout, now, d) \<and> (\<forall>b \<in> set as. info_at t' b = info_at t b)"
proof (cases as)
  case Nil
  then show ?thesis using assms by (simp add: wf_list_def thread_insert_def info_at_def th_info_def)
next
  case (Cons h hs)
  obtain n where s: "seg (tl_heap t) None (tl_head t) (h # hs) n None" "distinct (h # hs)"
    using assms Cons by (auto simp: wf_list_def)
  then obtain hit where hit: "tl_head t = Some h" "tl_heap t h = Some hit" by auto
  have "seg ((tl_heap t)(h \<mapsto> hit\<lparr>th_next := Some a\<rparr>)) (Some a) (Some h) (h # hs) n None"
    using seg_set_first_next [OF s(1,2) hit(2)] hit(1) by simp
  then have "seg ((tl_heap t)(h \<mapsto> hit\<lparr>th_next := Some a\<rparr>, a \<mapsto> x)) (Some a) (Some h) (h # hs) n None" for x
    using assms(2) Cons by (simp del: seg.simps)
  then show ?thesis using assms hit Cons
    by (auto simp: wf_list_def thread_insert_def info_at_def th_info_def fun_upd_twist)
qed

lemma walk_ok:
  assumes "seg (tl_heap t) n p as n' None"
  shows "thread_walk t p = Some as"
  using assms
proof (induction as arbitrary: n p)
  case Nil
  then show ?case by (simp add: thread_walk.simps)
next
  case (Cons a as)
  then show ?case by (subst thread_walk.simps) auto
qed

section \<open>The registry contract\<close>

text \<open>
  What the accept loop and the timeout thread promise each other, on the sequence of registered
  threads, newest first, each with its address.
\<close>

locale thread_registry =
  fixes empty :: 't
    and insert :: "nat \<Rightarrow> 'i \<Rightarrow> 't \<Rightarrow> 't option"
    and sweep :: "int \<Rightarrow> 't \<Rightarrow> ('t \<times> nat list) option"
    and view :: "'t \<Rightarrow> (nat \<times> 'i) list"
    and invar :: "'t \<Rightarrow> bool"
    and dead :: "int \<Rightarrow> 'i \<Rightarrow> bool"
  assumes empty_ok: "invar empty" "view empty = []"
    and insert_view: "invar t \<Longrightarrow> a \<notin> fst ` set (view t) \<Longrightarrow>
      \<exists>t'. insert a i t = Some t' \<and> invar t' \<and> view t' = (a, i) # view t"
    and sweep_view: "invar t \<Longrightarrow>
      \<exists>t'. sweep now t = Some (t', map fst (filter (\<lambda>x. dead now (snd x)) (view t))) \<and> invar t' \<and>
        view t' = filter (\<lambda>x. \<not> dead now (snd x)) (view t)"
begin

text \<open>A history: connections at given addresses, and sweeps at given times.\<close>

fun run :: "(nat \<times> 'i + int) list \<Rightarrow> 't \<Rightarrow> 't option" where
  "run [] t = Some t"
| "run (Inl (a, i) # es) t = Option.bind (insert a i t) (run es)"
| "run (Inr now # es) t = Option.bind (sweep now t) (\<lambda>(t', r). run es t')"

fun spec_run :: "(nat \<times> 'i + int) list \<Rightarrow> (nat \<times> 'i) list \<Rightarrow> (nat \<times> 'i) list" where
  "spec_run [] l = l"
| "spec_run (Inl (a, i) # es) l = spec_run es ((a, i) # l)"
| "spec_run (Inr now # es) l = spec_run es (filter (\<lambda>x. \<not> dead now (snd x)) l)"

text \<open>\<^verbatim>\<open>malloc\<close> never returns an address that is still in the list.\<close>

fun fresh :: "(nat \<times> 'i + int) list \<Rightarrow> (nat \<times> 'i) list \<Rightarrow> bool" where
  "fresh [] l = True"
| "fresh (Inl (a, i) # es) l = (a \<notin> fst ` set l \<and> fresh es ((a, i) # l))"
| "fresh (Inr now # es) l = fresh es (filter (\<lambda>x. \<not> dead now (snd x)) l)"

lemma run_refines:
  "invar t \<Longrightarrow> fresh es (view t) \<Longrightarrow> \<exists>t'. run es t = Some t' \<and> invar t' \<and> view t' = spec_run es (view t)"
proof (induction es arbitrary: t)
  case Nil
  then show ?case by simp
next
  case (Cons e es)
  show ?case
  proof (cases e)
    case (Inl ai)
    obtain a i where ai: "ai = (a, i)" by (cases ai)
    obtain t1 where "insert a i t = Some t1" "invar t1" "view t1 = (a, i) # view t"
      using insert_view Cons.prems Inl ai by fastforce
    then show ?thesis using Cons.IH [of t1] Cons.prems Inl ai by simp
  next
    case (Inr now)
    obtain t1 where "sweep now t = Some (t1, map fst (filter (\<lambda>x. dead now (snd x)) (view t)))" "invar t1"
      "view t1 = filter (\<lambda>x. \<not> dead now (snd x)) (view t)" using sweep_view [OF Cons.prems(1)] by blast
    then show ?thesis using Cons.IH [of t1] Cons.prems Inr by simp
  qed
qed

lemma sweep_last:
  assumes "fresh (es @ [Inr now]) []" "run (es @ [Inr now]) empty = Some t"
  shows "\<forall>x \<in> set (view t). \<not> dead now (snd x)"
proof -
  have "spec_run (es @ [Inr now]) l = filter (\<lambda>x. \<not> dead now (snd x)) (spec_run es l)" for l
    by (induction es l rule: spec_run.induct) auto
  then show ?thesis using run_refines [OF empty_ok(1), of "es @ [Inr now]"] assms empty_ok(2) by auto
qed

end

section \<open>The pointer list is a registry\<close>

definition list_empty :: "'d thread_list" where
  "list_empty = \<lparr>tl_heap = Map.empty, tl_head = None\<rparr>"

definition list_insert :: "nat \<Rightarrow> nat \<times> int \<times> int \<times> 'd \<Rightarrow> 'd thread_list \<Rightarrow> 'd thread_list option" where
  "list_insert a i t = (case i of (tid, timeout, now, d) \<Rightarrow> thread_insert a tid now timeout d t)"

definition list_sweep :: "int \<Rightarrow> 'd thread_list \<Rightarrow> ('d thread_list \<times> nat list) option" where
  "list_sweep now t = timeout_sweep now t (tl_head t)"

definition list_view :: "'d thread_list \<Rightarrow> (nat \<times> nat \<times> int \<times> int \<times> 'd) list" where
  "list_view t = (case thread_walk t (tl_head t) of None \<Rightarrow> [] | Some as \<Rightarrow> map (\<lambda>a. (a, the (info_at t a))) as)"

definition list_inv :: "'d thread_list \<Rightarrow> bool" where
  "list_inv t \<longleftrightarrow> (\<exists>as. wf_list t as)"

definition info_dead :: "int \<Rightarrow> nat \<times> int \<times> int \<times> 'd \<Rightarrow> bool" where
  "info_dead now i \<longleftrightarrow> info_expired now (Some i)"

lemma view_wf: "wf_list t as \<Longrightarrow> list_view t = map (\<lambda>a. (a, the (info_at t a))) as"
  using walk_ok by (fastforce simp: wf_list_def list_view_def)

lemma wf_info: "wf_list t as \<Longrightarrow> a \<in> set as \<Longrightarrow> info_at t a = Some (the (info_at t a))"
  using seg_mem by (fastforce simp: wf_list_def info_at_def)

lemma num_threads_view: "list_inv t \<Longrightarrow> num_threads t = Some (int (length (list_view t)))"
  using walk_ok by (fastforce simp: list_inv_def wf_list_def num_threads_def list_view_def)

interpretation ptr: thread_registry list_empty list_insert list_sweep list_view list_inv info_dead
proof
  show "list_inv (list_empty :: 'd thread_list)"
    unfolding list_inv_def by (rule exI [of _ "[]"]) (simp add: wf_list_def list_empty_def)
  show "list_view (list_empty :: 'd thread_list) = []"
    using view_wf [of list_empty "[]"] by (simp add: wf_list_def list_empty_def)
next
  fix t :: "'d thread_list" and a :: nat and i :: "nat \<times> int \<times> int \<times> 'd"
  assume t: "list_inv t" and a: "a \<notin> fst ` set (list_view t)"
  obtain as where as: "wf_list t as" using t by (auto simp: list_inv_def)
  obtain tid timeout now d where i: "i = (tid, timeout, now, d)" by (metis prod_cases4)
  have "a \<notin> set as" using a view_wf [OF as] by force
  then obtain t' where t': "list_insert a i t = Some t'" "wf_list t' (a # as)" "info_at t' a = Some i"
      "\<forall>b \<in> set as. info_at t' b = info_at t b"
    using insert_ok [OF as, of a tid now timeout d] i by (auto simp: list_insert_def)
  then show "\<exists>t'. list_insert a i t = Some t' \<and> list_inv t' \<and> list_view t' = (a, i) # list_view t"
    using view_wf [OF t'(2)] view_wf [OF as] by (auto simp: list_inv_def)
next
  fix t :: "'d thread_list" and now
  assume t: "list_inv t"
  obtain as where as: "wf_list t as" using t by (auto simp: list_inv_def)
  have cur: "tl_head t = (if as = [] then None else Some (hd as))" using as seg_start by (fastforce simp: wf_list_def)
  have ex: "info_expired now (info_at t a) = info_dead now (the (info_at t a))" if "a \<in> set as" for a
    using wf_info [OF as that] by (metis info_dead_def)
  obtain t' where t': "list_sweep now t = Some (t', filter (\<lambda>a. info_expired now (info_at t a)) as)"
      "wf_list t' (filter (\<lambda>a. \<not> info_expired now (info_at t a)) as)"
      "\<forall>b \<in> set (filter (\<lambda>a. \<not> info_expired now (info_at t a)) as). info_at t' b = info_at t b"
    using sweep_ok [of t "[]" as "tl_head t" now] as cur by (auto simp: list_sweep_def)
  have "filter (\<lambda>a. info_expired now (info_at t a)) as = map fst (filter (\<lambda>x. info_dead now (snd x)) (list_view t))"
    using ex by (simp add: view_wf [OF as] filter_map o_def cong: filter_cong)
  moreover have "list_view t' = filter (\<lambda>x. \<not> info_dead now (snd x)) (list_view t)"
    using ex t'(3) by (simp add: view_wf [OF as] view_wf [OF t'(2)] filter_map o_def cong: filter_cong)
  ultimately show "\<exists>t'. list_sweep now t = Some (t', map fst (filter (\<lambda>x. info_dead now (snd x)) (list_view t))) \<and>
      list_inv t' \<and> list_view t' = filter (\<lambda>x. \<not> info_dead now (snd x)) (list_view t)"
    using t' by (auto simp: list_inv_def)
qed

section \<open>Properties\<close>

text \<open>
  C24: the pointer list refines a sequence of threads. For every history of connections at fresh
  addresses and timeout sweeps, the pointer operations never dereference a null or freed item,
  the list stays well formed, walking it shows exactly the threads of the abstract history,
  newest first, and the count of the accept loop is their number.
\<close>

theorem thread_list_history:
  assumes "ptr.fresh es []"
  shows "\<exists>t. ptr.run es list_empty = Some t \<and> list_inv t \<and> list_view t = ptr.spec_run es [] \<and>
    num_threads t = Some (int (length (ptr.spec_run es [])))"
  using ptr.run_refines [OF ptr.empty_ok(1), of es] assms num_threads_view by (fastforce simp: ptr.empty_ok(2))

theorem thread_list_history_witness:
  "\<exists>t. ptr.run [Inl (7, 70, 50, 0, ()), Inl (9, 90, 50, 40, ()), Inr 60] list_empty = Some t \<and>
    list_view t = [(9, 90, 50, 40, ())] \<and> num_threads t = Some 1"
proof -
  have f: "ptr.fresh [Inl (7, 70, 50, 0, ()), Inl (9, 90, 50, 40, ()), Inr 60] []" by simp
  have "ptr.spec_run [Inl (7, 70, 50, 0, ()), Inl (9, 90, 50, 40, ()), Inr 60] [] = [(9, 90, 50, 40, ())]"
    by (simp add: info_dead_def info_expired_def)
  then show ?thesis using thread_list_history [OF f] by auto
qed

text \<open>
  A step back of the clock expires threads. The elapsed time is unsigned, so when the wall
  clock is set back behind the moment a thread was last seen, by however little, the sweep finds
  it expired whatever its timeout.
\<close>

lemma clock_step_back_expires:
  assumes "now < th_last_seen it" "th_last_seen it - now \<le> 2 ^ 63" "0 \<le> th_timeout it" "th_timeout it < 2 ^ 63"
  shows "expired now it"
proof -
  have "uint (of_int (now - th_last_seen it) :: u64) = 2 ^ 64 + (now - th_last_seen it)"
  proof -
    have "(now - th_last_seen it) mod 2 ^ 64 = (now - th_last_seen it + 2 ^ 64) mod 2 ^ 64" by simp
    also have "\<dots> = now - th_last_seen it + 2 ^ 64" using assms(1,2) by (intro mod_pos_pos_trivial) auto
    finally show ?thesis unfolding uint_word_of_int by simp
  qed
  moreover have "uint (of_int (th_timeout it) :: u64) = th_timeout it"
    using assms(3,4) by (simp add: uint_word_of_int_eq take_bit_int_eq_self)
  ultimately show ?thesis using assms by (simp add: expired_def word_less_def)
qed

theorem clock_step_back_expires_witness:
  "expired 99 \<lparr>th_prev = None, th_next = None, th_id = 1, th_timeout = 3600, th_last_seen = 100, th_data = ()\<rparr>"
  by (rule clock_step_back_expires) simp_all

end
