(* ===== verification/ROS_Types.thy ===== *)
theory ROS_Types
  imports ROS_Prelude Complex_Main
begin

text \<open>
  The data model shared by the server and the drivers: the structures of
  \<^verbatim>\<open>include/control_program.h\<close>, \<^verbatim>\<open>include/global_server_variables.h\<close>, \<^verbatim>\<open>tsg/include/tsg.h\<close>
  and \<^verbatim>\<open>include/site.h\<close>, and the items that travel on a TCP connection. A field keeps the
  source's name behind the prefix of its structure; \<^verbatim>\<open>int32\<close> fields are \<open>int\<close>, \<^verbatim>\<open>unsigned char\<close>
  arrays are lists of 8-bit words, \<^verbatim>\<open>float\<close> and \<^verbatim>\<open>double\<close> fields are \<open>real\<close> (rounding is not
  modelled), and a pointer that may be null is an \<open>option\<close>.
\<close>

section \<open>Site constants\<close>

definition MAX_RADARS :: nat where "MAX_RADARS = 2"
definition MAX_CHANNELS :: nat where "MAX_CHANNELS = 4"
definition MAX_TRANSMITTERS :: nat where "MAX_TRANSMITTERS = 16"
definition MAX_SEQS :: nat where "MAX_SEQS = 4"
definition Max_Control_THREADS :: nat where "Max_Control_THREADS = 30"

lemmas site_consts = MAX_RADARS_def MAX_CHANNELS_def MAX_TRANSMITTERS_def MAX_SEQS_def
  Max_Control_THREADS_def

text \<open>Conversion of a \<^verbatim>\<open>double\<close> to \<^verbatim>\<open>int\<close> drops the fraction.\<close>

definition cint :: "real \<Rightarrow> int" where
  "cint x = (if 0 \<le> x then \<lfloor>x\<rfloor> else \<lceil>x\<rceil>)"

lemma cint_of_int [simp]: "cint (real_of_int k) = k"
  by (simp add: cint_def)

section \<open>Timing sequences\<close>

record TSGprm =
  tp_nrang :: int
  tp_frang :: int
  tp_rsep :: int
  tp_smsep :: int
  tp_lagfr :: int
  tp_txpl :: int
  tp_mppul :: int
  tp_mpinc :: int
  tp_mlag :: int
  tp_nbaud :: int
  tp_samples :: int
  tp_smdelay :: int
  tp_stdelay :: int
  tp_gort :: int
  tp_rtoxmin :: int
  tp_pat :: "int list"
  tp_code :: "int list"

record TSGbuf =
  tb_index :: int
  tb_len :: int
  tb_step :: int
  tb_code :: "u8 list"
  tb_rep :: "u8 list"
  tb_prm :: "TSGprm option"

record SeqPRM =
  sq_index :: int
  sq_len :: int
  sq_step :: int
  sq_samples :: int
  sq_smdelay :: int

record TRTimes =
  tr_length :: int
  tr_start_usec :: "int list"
  tr_duration_usec :: "int list"

section \<open>Control programs\<close>

record ControlPRM =
  pr_radar :: int
  pr_channel :: int
  pr_local :: int
  pr_priority :: int
  pr_current_pulseseq_index :: int
  pr_tbeam :: int
  pr_tbeamcode :: int
  pr_tbeamazm :: real
  pr_tbeamwidth :: real
  pr_tfreq :: int
  pr_trise :: int
  pr_number_of_samples :: int
  pr_buffer_index :: int
  pr_baseband_samplerate :: real
  pr_filter_bandwidth :: int
  pr_match_filter :: int
  pr_rfreq :: int
  pr_rbeam :: int
  pr_rbeamcode :: int
  pr_rbeamazm :: real
  pr_rbeamwidth :: real
  pr_status :: int
  pr_name :: string
  pr_description :: string

record RadarPRM =
  ri_site :: int
  ri_radar :: int
  ri_channel :: int

record DataPRM =
  da_event_secs :: int
  da_event_nsecs :: int
  da_samples :: int
  da_shm_memory :: int
  da_status :: int
  da_frame_header :: int
  da_bufnum :: int

record CLRFreqPRM =
  cl_start :: int
  cl_end :: int
  cl_filter_bandwidth :: real
  cl_pwr_threshold :: real
  cl_nave :: int

record t_fft_index =
  ff_pwr :: real
  ff_apwr :: real
  ff_freq :: real
  ff_detrend :: real
  ff_index :: int

section \<open>Site settings\<close>

record RXFESettings =
  rx_ifmode :: int
  rx_amp1 :: int
  rx_amp2 :: int
  rx_amp3 :: int
  rx_att1 :: int
  rx_att2 :: int
  rx_att3 :: int
  rx_att4 :: int

record SiteSettings =
  ss_name :: string
  ss_num_radars :: int
  ss_ifmode :: int
  ss_rf_settings :: RXFESettings
  ss_if_settings :: RXFESettings

record tx_status =
  tx_LOWPWR :: "int list"
  tx_AGC :: "int list"
  tx_stat :: "int list"

section \<open>Messages\<close>

record ROSMsg =
  rm_status :: int
  rm_type :: char

record DriverMsg =
  dm_type :: char
  dm_status :: int

text \<open>The status of the GPS card.\<close>

record GPSStatus =
  gs_hardware :: int
  gs_antenna :: int
  gs_lock :: int
  gs_gps_lock :: int
  gs_phase_lock :: int
  gs_reference_lock :: int
  gs_sv :: "int list"
  gs_signal :: "real list"
  gs_lat :: real
  gs_lon :: real
  gs_alt :: real
  gs_mlat :: real
  gs_mlon :: real
  gs_malt :: real
  gs_poscnt :: int
  gs_gpssecond :: int
  gs_gpsnsecond :: int
  gs_syssecond :: int
  gs_sysnsecond :: int
  gs_lastsetsec :: int
  gs_lastsetnsec :: int
  gs_nextcomparesec :: int
  gs_nextcomparensec :: int
  gs_drift :: real
  gs_mdrift :: real
  gs_tcpupdate :: int
  gs_tcpconnected :: int
  gs_timecompareupdate :: int
  gs_timecompareupdateerror :: int
  gs_lasttriggersecond :: int
  gs_lasttriggernsecond :: int
  gs_lasttcpmsg :: int
  gs_intervalmode :: int
  gs_scheduledintervalmode :: int
  gs_oneshot :: int
  gs_settimecomparetime :: real
  gs_triggermode :: int
  gs_ratesynthrate :: int

text \<open>
  One item of a TCP stream is what one \<^verbatim>\<open>send_data\<close> call transfers and one \<^verbatim>\<open>recv_data\<close> call
  expects: a structure, an integer or an array. A \<^verbatim>\<open>struct TSGbuf\<close> travels as its scalar
  members only, because the receiver replaces the pointers it contains.
\<close>

datatype wire =
    W_DriverMsg DriverMsg
  | W_ROSMsg ROSMsg
  | W_ControlPRM ControlPRM
  | W_int int
  | W_TSGbuf int int int
  | W_bytes "u8 list"
  | W_uints "int list"
  | W_RXFE RXFESettings
  | W_tx tx_status
  | W_CLRFreqPRM CLRFreqPRM
  | W_doubles "real list"
  | W_float real
  | W_char char
  | W_chars string
  | W_SeqPRM SeqPRM
  | W_DataPRM DataPRM
  | W_SiteSettings SiteSettings
  | W_ptr "u64"
  | W_GPSStatus GPSStatus

text \<open>The sockets the server keeps open to its drivers.\<close>

datatype drv = DIO | DDS | RECV | TIMING | GPS

text \<open>
  Receiving one item of a given kind. An item of another kind means the two ends have lost
  step on the stream, which the C code does not detect: the model has no result.
\<close>

fun rx_msg :: "wire list \<Rightarrow> (DriverMsg \<times> wire list) option" where
  "rx_msg (W_DriverMsg m # s) = Some (m, s)"
| "rx_msg _ = None"

fun rx_prm :: "wire list \<Rightarrow> (ControlPRM \<times> wire list) option" where
  "rx_prm (W_ControlPRM p # s) = Some (p, s)"
| "rx_prm _ = None"

fun rx_int :: "wire list \<Rightarrow> (int \<times> wire list) option" where
  "rx_int (W_int i # s) = Some (i, s)"
| "rx_int _ = None"

fun rx_tsgbuf :: "wire list \<Rightarrow> ((int \<times> int \<times> int) \<times> wire list) option" where
  "rx_tsgbuf (W_TSGbuf i l st # s) = Some ((i, l, st), s)"
| "rx_tsgbuf _ = None"

text \<open>An array is received only when exactly the expected number of elements is on the stream.\<close>

fun rx_bytes :: "int \<Rightarrow> wire list \<Rightarrow> (u8 list \<times> wire list) option" where
  "rx_bytes n (W_bytes b # s) = (if int (length b) = n then Some (b, s) else None)"
| "rx_bytes n _ = None"

fun rx_uints :: "int \<Rightarrow> wire list \<Rightarrow> (int list \<times> wire list) option" where
  "rx_uints n (W_uints b # s) = (if int (length b) = n then Some (b, s) else None)"
| "rx_uints n _ = None"

fun rx_rxfe :: "wire list \<Rightarrow> (RXFESettings \<times> wire list) option" where
  "rx_rxfe (W_RXFE x # s) = Some (x, s)"
| "rx_rxfe _ = None"

fun rx_tx :: "wire list \<Rightarrow> (tx_status \<times> wire list) option" where
  "rx_tx (W_tx x # s) = Some (x, s)"
| "rx_tx _ = None"

fun rx_clr :: "wire list \<Rightarrow> (CLRFreqPRM \<times> wire list) option" where
  "rx_clr (W_CLRFreqPRM x # s) = Some (x, s)"
| "rx_clr _ = None"

fun rx_doubles :: "int \<Rightarrow> wire list \<Rightarrow> (real list \<times> wire list) option" where
  "rx_doubles n (W_doubles b # s) = (if int (length b) = n then Some (b, s) else None)"
| "rx_doubles n _ = None"

fun rx_ptr :: "wire list \<Rightarrow> (u64 \<times> wire list) option" where
  "rx_ptr (W_ptr x # s) = Some (x, s)"
| "rx_ptr _ = None"

fun rx_ros :: "wire list \<Rightarrow> (ROSMsg \<times> wire list) option" where
  "rx_ros (W_ROSMsg m # s) = Some (m, s)"
| "rx_ros _ = None"

fun rx_seqprm :: "wire list \<Rightarrow> (SeqPRM \<times> wire list) option" where
  "rx_seqprm (W_SeqPRM x # s) = Some (x, s)"
| "rx_seqprm _ = None"

fun rx_char :: "wire list \<Rightarrow> (char \<times> wire list) option" where
  "rx_char (W_char x # s) = Some (x, s)"
| "rx_char _ = None"

fun rx_chars :: "int \<Rightarrow> wire list \<Rightarrow> (string \<times> wire list) option" where
  "rx_chars n (W_chars b # s) = (if int (length b) = n then Some (b, s) else None)"
| "rx_chars n _ = None"

text \<open>Message type codes of \<^verbatim>\<open>control_program.h\<close> and \<^verbatim>\<open>global_server_variables.h\<close>.\<close>

abbreviation REGISTER_SEQ_code :: char where "REGISTER_SEQ_code \<equiv> CHR ''+''"
abbreviation CtrlProg_READY_code :: char where "CtrlProg_READY_code \<equiv> CHR ''1''"
abbreviation CtrlProg_END_code :: char where "CtrlProg_END_code \<equiv> CHR ''@''"
abbreviation PRETRIGGER_code :: char where "PRETRIGGER_code \<equiv> CHR ''3''"
abbreviation TRIGGER_code :: char where "TRIGGER_code \<equiv> CHR ''4''"
abbreviation GPS_TRIGGER_code :: char where "GPS_TRIGGER_code \<equiv> CHR ''G''"
abbreviation POSTTRIGGER_code :: char where "POSTTRIGGER_code \<equiv> CHR ''5''"
abbreviation WAIT_code :: char where "WAIT_code \<equiv> CHR ''W''"
abbreviation CLRFREQ_code :: char where "CLRFREQ_code \<equiv> CHR ''C''"
abbreviation RXFE_RESET_code :: char where "RXFE_RESET_code \<equiv> CHR ''r''"
abbreviation RXFE_SETTINGS_code :: char where "RXFE_SETTINGS_code \<equiv> CHR ''R''"
abbreviation GET_TX_STATUS_code :: char where "GET_TX_STATUS_code \<equiv> CHR ''S''"
abbreviation GET_EVENT_TIME_code :: char where "GET_EVENT_TIME_code \<equiv> CHR ''e''"
abbreviation GET_DATA_code :: char where "GET_DATA_code \<equiv> CHR ''d''"

abbreviation drv_msg :: "char \<Rightarrow> int \<Rightarrow> wire" where
  "drv_msg t st \<equiv> W_DriverMsg \<lparr>dm_type = t, dm_status = st\<rparr>"

end
