(* ===== verification/Server_State.thy ===== *)
theory Server_State
  imports ROS_Types Dictionary
begin

text \<open>
  The state of the server process: \<^verbatim>\<open>struct ControlState\<close> and \<^verbatim>\<open>struct ControlProgram\<close> of
  \<^verbatim>\<open>include/global_server_variables.h\<close>, the global variables of \<^verbatim>\<open>server/main.c\<close>, and the sockets.
  Control programs live in a heap under their addresses, a freed member is \<open>None\<close>, and every
  read through a pointer is an operation of the option monad. What is sent is recorded as a trace over all
  sockets in the order of the calls; what the other side answers is a stream per socket.
\<close>

section \<open>Control programs\<close>

record ControlState =
  st_cancelled :: int
  st_socket :: int
  st_ready :: int
  st_processing :: int
  st_linked :: int
  st_best_assigned_freq :: int
  st_best_assigned_noise :: real
  st_current_assigned_freq :: int
  st_current_assigned_noise :: real
  st_gpssecond :: int
  st_gpsnsecond :: int
  st_best_assigned_pwr :: real
  st_current_assigned_pwr :: real
  st_freq_change_needed :: int
  st_tx_sideband :: int
  st_rx_sideband :: int
  st_N :: int
  st_pulseseqs :: "TSGbuf option list"
  st_linked_program :: "cpid option"
  st_thread :: "nat option"
  st_fft_array :: "t_fft_index list option"

record ControlProgram =
  cp_state :: "ControlState option"
  cp_data :: "DataPRM option"
  cp_clrfreqsearch :: CLRFreqPRM
  cp_parameters :: "ControlPRM option"
  cp_radarinfo :: RadarPRM
  cp_main :: "int list option"
  cp_main_address :: int
  cp_back :: "int list option"
  cp_back_address :: int
  cp_active :: int

section \<open>The server\<close>

text \<open>A connection: one of the drivers, or a client by its socket number.\<close>

datatype endpoint = Driver drv | Client int

text \<open>
  The thread list appears as the sequence it stands for, newest first: the address of the item,
  the thread, its timeout, when it was last seen, and its control program.
\<close>

type_synonym thread_entry = "nat \<times> nat \<times> int \<times> int \<times> cpid"

record server =
  sv_heap :: "cpid \<Rightarrow> ControlProgram option"
  sv_threads :: "thread_entry list"
  sv_channels :: "cpid option list"
  sv_ready_state :: int
  sv_trigger_state :: int
  sv_ready_count :: int
  sv_trigger_type :: int
  sv_txread :: "int list"
  sv_txstatus :: "tx_status list"
  sv_bad_times :: TRTimes
  sv_site_settings :: SiteSettings
  sv_site_ini :: "dictionary option"
  sv_clr_pwr :: "real list list"
  sv_blacklist :: "(int \<times> int \<times> cpid option) list"
  sv_collection_count :: u64
  sv_error_count :: u64
  sv_out :: "(endpoint \<times> wire) list"
  sv_in :: "endpoint \<Rightarrow> wire list"

abbreviation thread_cp :: "thread_entry \<Rightarrow> cpid" where
  "thread_cp e \<equiv> snd (snd (snd (snd e)))"

definition programs :: "server \<Rightarrow> cpid list" where
  "programs s = map thread_cp (sv_threads s)"

section \<open>Sockets\<close>

definition send_to :: "endpoint \<Rightarrow> wire \<Rightarrow> server \<Rightarrow> server" where
  "send_to d w s = s\<lparr>sv_out := sv_out s @ [(d, w)]\<rparr>"

definition send_all :: "endpoint \<Rightarrow> wire list \<Rightarrow> server \<Rightarrow> server" where
  "send_all d ws s = s\<lparr>sv_out := sv_out s @ map (Pair d) ws\<rparr>"

definition recv_from :: "(wire list \<Rightarrow> ('a \<times> wire list) option) \<Rightarrow> endpoint \<Rightarrow> server \<Rightarrow> ('a \<times> server) option" where
  "recv_from rx d s =
    (case rx (sv_in s d) of
       None \<Rightarrow> None
     | Some (x, rest) \<Rightarrow> Some (x, s\<lparr>sv_in := (sv_in s)(d := rest)\<rparr>))"

text \<open>What has been sent to one endpoint.\<close>

definition sent_to :: "endpoint \<Rightarrow> server \<Rightarrow> wire list" where
  "sent_to d s = map snd (filter (\<lambda>x. fst x = d) (sv_out s))"

section \<open>The heap of control programs\<close>

definition upd_cp :: "cpid \<Rightarrow> (ControlProgram \<Rightarrow> ControlProgram) \<Rightarrow> server \<Rightarrow> server" where
  "upd_cp p f s = s\<lparr>sv_heap := (sv_heap s)(p := map_option f (sv_heap s p))\<rparr>"

definition parameters_of :: "server \<Rightarrow> cpid \<Rightarrow> ControlPRM option" where
  "parameters_of s p = Option.bind (sv_heap s p) cp_parameters"

definition state_of :: "server \<Rightarrow> cpid \<Rightarrow> ControlState option" where
  "state_of s p = Option.bind (sv_heap s p) cp_state"

text \<open>Writes through \<^verbatim>\<open>->parameters->\<close> and \<^verbatim>\<open>->state->\<close>, undefined when the member has been freed.\<close>

definition upd_parameters :: "cpid \<Rightarrow> (ControlPRM \<Rightarrow> ControlPRM) \<Rightarrow> server \<Rightarrow> server option" where
  "upd_parameters p f s =
    (case parameters_of s p of
       None \<Rightarrow> None
     | Some prm \<Rightarrow> Some (upd_cp p (\<lambda>cp. cp\<lparr>cp_parameters := Some (f prm)\<rparr>) s))"

definition upd_state :: "cpid \<Rightarrow> (ControlState \<Rightarrow> ControlState) \<Rightarrow> server \<Rightarrow> server option" where
  "upd_state p f s =
    (case state_of s p of
       None \<Rightarrow> None
     | Some st \<Rightarrow> Some (upd_cp p (\<lambda>cp. cp\<lparr>cp_state := Some (f st)\<rparr>) s))"

lemma upd_cp_sel [simp]:
  "sv_heap (upd_cp p f s) = (sv_heap s)(p := map_option f (sv_heap s p))"
  "sv_threads (upd_cp p f s) = sv_threads s" "sv_channels (upd_cp p f s) = sv_channels s"
  "sv_out (upd_cp p f s) = sv_out s" "sv_in (upd_cp p f s) = sv_in s"
  "sv_ready_state (upd_cp p f s) = sv_ready_state s" "sv_trigger_state (upd_cp p f s) = sv_trigger_state s"
  "sv_ready_count (upd_cp p f s) = sv_ready_count s" "sv_trigger_type (upd_cp p f s) = sv_trigger_type s"
  "sv_txread (upd_cp p f s) = sv_txread s" "sv_txstatus (upd_cp p f s) = sv_txstatus s"
  "sv_bad_times (upd_cp p f s) = sv_bad_times s" "sv_site_settings (upd_cp p f s) = sv_site_settings s"
  "sv_site_ini (upd_cp p f s) = sv_site_ini s" "sv_clr_pwr (upd_cp p f s) = sv_clr_pwr s"
  "sv_blacklist (upd_cp p f s) = sv_blacklist s" "programs (upd_cp p f s) = programs s"
  by (simp_all add: upd_cp_def programs_def)

lemma send_sel [simp]:
  "sv_heap (send_to d w s) = sv_heap s" "sv_threads (send_to d w s) = sv_threads s"
  "sv_channels (send_to d w s) = sv_channels s" "sv_in (send_to d w s) = sv_in s"
  "sv_out (send_to d w s) = sv_out s @ [(d, w)]" "programs (send_to d w s) = programs s"
  "sv_heap (send_all d ws s) = sv_heap s" "sv_threads (send_all d ws s) = sv_threads s"
  "sv_channels (send_all d ws s) = sv_channels s" "sv_in (send_all d ws s) = sv_in s"
  "sv_out (send_all d ws s) = sv_out s @ map (Pair d) ws" "programs (send_all d ws s) = programs s"
  by (simp_all add: send_to_def send_all_def programs_def)

lemma recv_from_Some:
  "recv_from rx d s = Some (x, s') \<longleftrightarrow> (\<exists>rest. rx (sv_in s d) = Some (x, rest) \<and> s' = s\<lparr>sv_in := (sv_in s)(d := rest)\<rparr>)"
  by (auto simp: recv_from_def split: option.splits)

end
