(* ===== verification/Driver_Comm.thy ===== *)
theory Driver_Comm
  imports Server_State
begin

text \<open>
  The server's side of the conversations with its drivers: \<^verbatim>\<open>server/timing_handler.c\<close>,
  \<^verbatim>\<open>server/dio_handler.c\<close>, \<^verbatim>\<open>server/dds_handler.c\<close> and the short functions of
  \<^verbatim>\<open>server/reciever_handler.c\<close>. Each function sends a message and its arguments on one socket, under
  the lock of that socket, and reads the answer. The lemmas give, for the conversations of a
  trigger, the items sent and the answers consumed.
\<close>

section \<open>Requests\<close>

text \<open>Send some items and read back the closing \<^verbatim>\<open>struct DriverMsg\<close>.\<close>

definition request :: "drv \<Rightarrow> wire list \<Rightarrow> server \<Rightarrow> server option" where
  "request d ws s = map_option snd (recv_from rx_msg (Driver d) (send_all (Driver d) ws s))"

text \<open>
  The pulse sequence a program has selected: an index outside the array and a freed program are
  undefined, and the slot may hold a null pointer.
\<close>

definition selected_seq :: "server \<Rightarrow> cpid \<Rightarrow> (ControlPRM \<times> TSGbuf option) option" where
  "selected_seq s p = do {
     prm \<leftarrow> parameters_of s p;
     st \<leftarrow> state_of s p;
     q \<leftarrow> aref (st_pulseseqs st) (pr_current_pulseseq_index prm);
     Some (prm, q)
   }"

definition ready_controlprogram :: "drv \<Rightarrow> cpid option \<Rightarrow> server \<Rightarrow> server option" where
  "ready_controlprogram d arg s =
    (case arg of
       None \<Rightarrow> Some s
     | Some p \<Rightarrow>
        (case selected_seq s p of
           None \<Rightarrow> None
         | Some (prm, None) \<Rightarrow> Some s
         | Some (prm, Some q) \<Rightarrow> request d [drv_msg CtrlProg_READY_code 1, W_ControlPRM prm] s))"

text \<open>A sequence travels as its index, its structure and its two arrays of \<^verbatim>\<open>len\<close> bytes.\<close>

definition seq_items :: "ControlPRM \<Rightarrow> int \<Rightarrow> TSGbuf \<Rightarrow> wire list option" where
  "seq_items prm index q =
    (if int (length (tb_rep q)) = tb_len q \<and> int (length (tb_code q)) = tb_len q
     then Some [drv_msg REGISTER_SEQ_code 1, W_ControlPRM prm, W_int index,
                W_TSGbuf (tb_index q) (tb_len q) (tb_step q), W_bytes (tb_rep q), W_bytes (tb_code q)]
     else None)"

definition register_seq :: "drv \<Rightarrow> cpid \<Rightarrow> server \<Rightarrow> server option" where
  "register_seq d p s = do {
     (prm, sel) \<leftarrow> selected_seq s p;
     q \<leftarrow> sel;
     ws \<leftarrow> seq_items prm (pr_current_pulseseq_index prm) q;
     request d ws s
   }"

definition rxfe_settings :: "drv \<Rightarrow> SiteSettings option \<Rightarrow> server \<Rightarrow> server option" where
  "rxfe_settings d ss s =
    (case ss of
       None \<Rightarrow> Some s
     | Some x \<Rightarrow> request d [drv_msg RXFE_SETTINGS_code 1, W_int (ss_ifmode x),
                            W_RXFE (ss_rf_settings x), W_RXFE (ss_if_settings x)] s)"

section \<open>Timing\<close>

definition timing_ready_controlprogram :: "cpid option \<Rightarrow> server \<Rightarrow> server option" where
  "timing_ready_controlprogram = ready_controlprogram TIMING"

definition timing_end_controlprogram :: "server \<Rightarrow> server option" where
  "timing_end_controlprogram s = Some (send_to (Driver TIMING) (drv_msg CtrlProg_END_code 1) s)"

definition timing_register_seq :: "cpid \<Rightarrow> server \<Rightarrow> server option" where
  "timing_register_seq = register_seq TIMING"

text \<open>The pretrigger answers with the times at which the transmitters are on.\<close>

definition timing_pretrigger :: "server \<Rightarrow> server option" where
  "timing_pretrigger s = do {
     let s1 = send_to (Driver TIMING) (drv_msg PRETRIGGER_code 1) s;
     (n, s2) \<leftarrow> recv_from rx_int (Driver TIMING) s1;
     (start, s3) \<leftarrow> recv_from (rx_uints n) (Driver TIMING) s2;
     (dur, s4) \<leftarrow> recv_from (rx_uints n) (Driver TIMING) s3;
     (m, s5) \<leftarrow> recv_from rx_msg (Driver TIMING) s4;
     Some (s5\<lparr>sv_bad_times := \<lparr>tr_length = n, tr_start_usec = start, tr_duration_usec = dur\<rparr>\<rparr>)
   }"

definition timing_trigger :: "int \<Rightarrow> server \<Rightarrow> server option" where
  "timing_trigger trigger_type s =
    (if trigger_type = 0 \<or> trigger_type = 1 then request TIMING [drv_msg TRIGGER_code 1] s
     else if trigger_type = 2 then request TIMING [drv_msg GPS_TRIGGER_code 1] s
     else None)"

definition timing_wait :: "server \<Rightarrow> server option" where
  "timing_wait = request TIMING [drv_msg WAIT_code 1]"

definition timing_posttrigger :: "server \<Rightarrow> server option" where
  "timing_posttrigger = request TIMING [drv_msg POSTTRIGGER_code 1]"

section \<open>Digital I/O\<close>

definition DIO_ready_controlprogram :: "cpid option \<Rightarrow> server \<Rightarrow> server option" where
  "DIO_ready_controlprogram = ready_controlprogram DIO"

definition DIO_pretrigger :: "server \<Rightarrow> server option" where
  "DIO_pretrigger = request DIO [drv_msg PRETRIGGER_code 1]"

definition DIO_transmitter_status :: "int \<Rightarrow> server \<Rightarrow> server option" where
  "DIO_transmitter_status radar s = do {
     let s1 = send_all (Driver DIO) [drv_msg GET_TX_STATUS_code 1, W_int radar] s;
     (tx, s2) \<leftarrow> recv_from rx_tx (Driver DIO) s1;
     ts \<leftarrow> aset (sv_txstatus s2) (radar - 1) tx;
     (m, s3) \<leftarrow> recv_from rx_msg (Driver DIO) (s2\<lparr>sv_txstatus := ts\<rparr>);
     Some s3
   }"

definition DIO_clrfreq :: "cpid option \<Rightarrow> server \<Rightarrow> server option" where
  "DIO_clrfreq arg s =
    (case arg of
       None \<Rightarrow> Some s
     | Some p \<Rightarrow>
        (case sv_heap s p of
           None \<Rightarrow> None
         | Some cp \<Rightarrow>
            (case cp_parameters cp of
               None \<Rightarrow> Some s
             | Some prm \<Rightarrow> request DIO [drv_msg CLRFREQ_code 1, W_ControlPRM prm] s)))"

definition DIO_rxfe_reset :: "server \<Rightarrow> server option" where
  "DIO_rxfe_reset = request DIO [drv_msg RXFE_RESET_code 1]"

definition dio_rxfe_settings :: "SiteSettings option \<Rightarrow> server \<Rightarrow> server option" where
  "dio_rxfe_settings = rxfe_settings DIO"

section \<open>Synthesisers\<close>

definition dds_register_seq :: "cpid \<Rightarrow> server \<Rightarrow> server option" where
  "dds_register_seq = register_seq DDS"

definition dds_rxfe_settings :: "SiteSettings option \<Rightarrow> server \<Rightarrow> server option" where
  "dds_rxfe_settings = rxfe_settings DDS"

definition dds_ready_controlprogram :: "cpid option \<Rightarrow> server \<Rightarrow> server option" where
  "dds_ready_controlprogram = ready_controlprogram DDS"

definition dds_end_controlprogram :: "server \<Rightarrow> server option" where
  "dds_end_controlprogram s = Some (send_to (Driver DDS) (drv_msg CtrlProg_END_code 1) s)"

definition dds_pretrigger :: "server \<Rightarrow> server option" where
  "dds_pretrigger = request DDS [drv_msg PRETRIGGER_code 1]"

section \<open>Receiver\<close>

definition receiver_rxfe_settings :: "SiteSettings option \<Rightarrow> server \<Rightarrow> server option" where
  "receiver_rxfe_settings = rxfe_settings RECV"

definition receiver_end_controlprogram :: "cpid option \<Rightarrow> server \<Rightarrow> server option" where
  "receiver_end_controlprogram arg s =
    (case arg of
       None \<Rightarrow> Some s
     | Some p \<Rightarrow>
        (case selected_seq s p of
           None \<Rightarrow> None
         | Some (prm, None) \<Rightarrow> Some s
         | Some (prm, Some q) \<Rightarrow> Some (send_all (Driver RECV) [drv_msg CtrlProg_END_code 1, W_ControlPRM prm] s)))"

definition receiver_ready_controlprogram :: "cpid option \<Rightarrow> server \<Rightarrow> server option" where
  "receiver_ready_controlprogram = ready_controlprogram RECV"

definition receiver_pretrigger :: "server \<Rightarrow> server option" where
  "receiver_pretrigger = request RECV [drv_msg PRETRIGGER_code 1]"

definition receiver_posttrigger :: "server \<Rightarrow> server option" where
  "receiver_posttrigger = request RECV [drv_msg POSTTRIGGER_code 1]"

text \<open>
  Collecting data. \<open>timed_out\<close> tells whether the ready flag was still set after ten seconds of
  waiting; \<open>shm\<close> is the contents of a shared memory object, by name and number of samples.
\<close>

definition wait_flag :: "bool \<Rightarrow> ControlState \<Rightarrow> int" where
  "wait_flag timed_out st = (if st_ready st \<noteq> 0 \<and> timed_out then -101 else 0)"

definition upd_data :: "cpid \<Rightarrow> (DataPRM \<Rightarrow> DataPRM) \<Rightarrow> server \<Rightarrow> server option" where
  "upd_data p f s = do {
     cp \<leftarrow> sv_heap s p;
     d \<leftarrow> cp_data cp;
     Some (upd_cp p (\<lambda>cp. cp\<lparr>cp_data := Some (f d)\<rparr>) s)
   }"

definition get_data_counts :: "server \<Rightarrow> server" where
  "get_data_counts s = (if sv_collection_count s = - 1 then s\<lparr>sv_error_count := 0, sv_collection_count := 0\<rparr> else s)"

definition get_data_failed :: "cpid \<Rightarrow> server \<Rightarrow> server option" where
  "get_data_failed p s = do {
     s1 \<leftarrow> upd_data p (\<lambda>d. d\<lparr>da_samples := 0\<rparr>) (s\<lparr>sv_error_count := sv_error_count s + 1\<rparr>);
     Some (upd_cp p (\<lambda>cp. cp\<lparr>cp_main := None, cp_back := None\<rparr>) s1)
   }"

definition get_data_good :: "(bool \<Rightarrow> int \<Rightarrow> int \<Rightarrow> int \<Rightarrow> int \<Rightarrow> int list) \<Rightarrow> cpid \<Rightarrow> ControlPRM \<Rightarrow> server \<Rightarrow> server option" where
  "get_data_good shm p prm s = do {
     (sh, s1) \<leftarrow> recv_from rx_int (Driver RECV) s;
     (fh, s2) \<leftarrow> recv_from rx_int (Driver RECV) s1;
     (bn, s3) \<leftarrow> recv_from rx_int (Driver RECV) s2;
     (n, s4) \<leftarrow> recv_from rx_int (Driver RECV) s3;
     (ma, s5) \<leftarrow> recv_from rx_ptr (Driver RECV) s4;
     (ba, s6) \<leftarrow> recv_from rx_ptr (Driver RECV) s5;
     s7 \<leftarrow> upd_data p (\<lambda>d. d\<lparr>da_shm_memory := sh, da_frame_header := fh, da_bufnum := bn, da_samples := n\<rparr>) s6;
     Some (upd_cp p (\<lambda>cp. cp\<lparr>cp_main_address := uint ma, cp_back_address := uint ba,
        cp_main := (if sh \<noteq> 0 then Some (shm True (pr_radar prm - 1) (pr_channel prm - 1) bn n) else None),
        cp_back := (if sh \<noteq> 0 then Some (shm False (pr_radar prm - 1) (pr_channel prm - 1) bn n) else None)\<rparr>) s7)
   }"

definition receiver_controlprogram_get_data ::
    "bool \<Rightarrow> (bool \<Rightarrow> int \<Rightarrow> int \<Rightarrow> int \<Rightarrow> int \<Rightarrow> int list) \<Rightarrow> cpid option \<Rightarrow> server \<Rightarrow> server option" where
  "receiver_controlprogram_get_data timed_out shm arg s0 =
    (let s = get_data_counts s0 in
     case arg of
       None \<Rightarrow> Some s
     | Some p \<Rightarrow> do {
        cp \<leftarrow> sv_heap s p;
        case cp_state cp of
          None \<Rightarrow> Some s
        | Some st \<Rightarrow>
           (let flag = wait_flag timed_out st; s1 = s\<lparr>sv_collection_count := sv_collection_count s + 1\<rparr> in
            if flag = 0 then do {
              prm \<leftarrow> cp_parameters cp;
              s2 \<leftarrow> upd_data p (\<lambda>d. d\<lparr>da_samples := pr_number_of_samples prm\<rparr>) s1;
              (status, s3) \<leftarrow> recv_from rx_int (Driver RECV)
                  (send_all (Driver RECV) [drv_msg GET_DATA_code 1, W_ControlPRM prm] s2);
              s4 \<leftarrow> upd_data p (\<lambda>d. d\<lparr>da_status := status\<rparr>) s3;
              s5 \<leftarrow> (if status = 0 then get_data_good shm p prm s4 else get_data_failed p s4);
              (m, s6) \<leftarrow> recv_from rx_msg (Driver RECV) s5;
              Some s6
            } else do {
              s2 \<leftarrow> upd_data p (\<lambda>d. d\<lparr>da_status := flag, da_samples := 0\<rparr>) s1;
              get_data_failed p s2
            })
      })"

end
