(* ===== verification/Radar_Channels.thy ===== *)
theory Radar_Channels
  imports Server_State
begin

text \<open>
  Registration of control programs on radars and channels, and the choice of the beam that
  programs on one radar share: the first part of \<^verbatim>\<open>server/client_handler.c\<close>. The table
  \<^verbatim>\<open>radar_channels\<close> has one slot per radar and channel. The lemmas give the slot a registration
  takes in closed form, show that the table keeps naming each program once, under the radar
  and channel stored in its \<^verbatim>\<open>radarinfo\<close>, and characterise the shared beam.
\<close>

section \<open>Model\<close>

definition nslots :: nat where "nslots = MAX_RADARS * MAX_CHANNELS"

definition slot_radar :: "nat \<Rightarrow> int" where "slot_radar i = int (i div MAX_CHANNELS) + 1"
definition slot_channel :: "nat \<Rightarrow> int" where "slot_channel i = int (i mod MAX_CHANNELS) + 1"

fun unregister_loop :: "cpid \<Rightarrow> nat list \<Rightarrow> int \<Rightarrow> server \<Rightarrow> (int \<times> server) option" where
  "unregister_loop p [] status s = Some (status, s)"
| "unregister_loop p (i # is) status s =
    (if sv_channels s ! i = Some p then
       Option.bind (upd_parameters p (\<lambda>prm. prm\<lparr>pr_radar := 0, pr_channel := 0\<rparr>)
                      (s\<lparr>sv_channels := (sv_channels s)[i := None]\<rparr>))
         (unregister_loop p is (status + 1))
     else unregister_loop p is status s)"

definition unregister_radar_channel :: "cpid option \<Rightarrow> server \<Rightarrow> (int \<times> server) option" where
  "unregister_radar_channel cp s =
    (case cp of None \<Rightarrow> Some (0, s) | Some p \<Rightarrow> unregister_loop p [0..<nslots] 0 s)"

text \<open>The search loop ends at the first slot with the given numbers.\<close>

definition find_registered_controlprogram_by_radar_channel :: "server \<Rightarrow> int \<Rightarrow> int \<Rightarrow> cpid option" where
  "find_registered_controlprogram_by_radar_channel s radar channel =
    (case find_index (\<lambda>i. radar = slot_radar i \<and> channel = slot_channel i) [0..<nslots] of
       None \<Rightarrow> None | Some i \<Rightarrow> sv_channels s ! i)"

text \<open>The inner loop over the channels of one radar that looks for the lowest priority number.\<close>

fun best_loop :: "server \<Rightarrow> int \<Rightarrow> int list \<Rightarrow> int \<Rightarrow> cpid option \<Rightarrow> cpid option option" where
  "best_loop s r [] priority best = Some best"
| "best_loop s r (c # cs) priority best =
    (case find_registered_controlprogram_by_radar_channel s r c of
       None \<Rightarrow> best_loop s r cs priority best
     | Some q \<Rightarrow>
        (case sv_heap s q of
           None \<Rightarrow> None
         | Some cp \<Rightarrow>
            if cp_active cp \<noteq> 0 then
              (case cp_parameters cp of
                 None \<Rightarrow> best_loop s r cs priority best
               | Some prm \<Rightarrow>
                   if pr_priority prm < priority
                   then best_loop s r cs (pr_priority prm) (Some q)
                   else best_loop s r cs priority best)
            else best_loop s r cs priority best))"

definition channel_numbers :: "int list" where
  "channel_numbers = map (\<lambda>c. int c + 1) [0..<MAX_CHANNELS]"

fun best_all :: "server \<Rightarrow> int list \<Rightarrow> cpid option list option" where
  "best_all s [] = Some []"
| "best_all s (r # rs) = do {
     b \<leftarrow> best_loop s r channel_numbers 99 None;
     bs \<leftarrow> best_all s rs;
     Some (b # bs)
   }"

text \<open>
  With the settings of \<^verbatim>\<open>include/priority.h\<close> the beams come from the best program of the radar and
  everything else from the program itself. The structure returned is a local variable: \<open>g\<close> is what
  its memory holds, and the members that are not assigned keep it.
\<close>

definition controlprogram_fill_parameters :: "ControlPRM \<Rightarrow> cpid \<Rightarrow> server \<Rightarrow> ControlPRM option" where
  "controlprogram_fill_parameters g p s = do {
     best \<leftarrow> best_all s (map (\<lambda>r. int r + 1) [0..<MAX_RADARS]);
     cp \<leftarrow> sv_heap s p;
     case cp_parameters cp of
       None \<Rightarrow> Some g
     | Some own \<Rightarrow> do {
         let radar = ri_radar (cp_radarinfo cp);
         bq \<leftarrow> aref best (radar - 1);
         q \<leftarrow> bq;
         bprm \<leftarrow> parameters_of s q;
         Some (g\<lparr>pr_radar := radar, pr_channel := ri_channel (cp_radarinfo cp),
            pr_current_pulseseq_index := pr_current_pulseseq_index own, pr_priority := pr_priority own,
            pr_tbeam := pr_tbeam bprm, pr_tbeamcode := pr_tbeamcode bprm,
            pr_tbeamwidth := pr_tbeamwidth bprm, pr_tbeamazm := pr_tbeamazm bprm,
            pr_tfreq := pr_tfreq own, pr_trise := pr_trise own,
            pr_rbeam := pr_rbeam bprm, pr_rbeamcode := pr_rbeamcode bprm,
            pr_rbeamwidth := pr_rbeamwidth bprm, pr_rbeamazm := pr_rbeamazm bprm,
            pr_rfreq := pr_rfreq own, pr_number_of_samples := pr_number_of_samples own,
            pr_buffer_index := pr_buffer_index own, pr_baseband_samplerate := pr_baseband_samplerate own,
            pr_filter_bandwidth := pr_filter_bandwidth own, pr_match_filter := pr_match_filter own,
            pr_status := pr_status own\<rparr>)
       }
   }"

text \<open>The registration loop. A number that is not positive is replaced at the first free slot and kept.\<close>

definition take_slot :: "cpid \<Rightarrow> nat \<Rightarrow> int \<Rightarrow> int \<Rightarrow> server \<Rightarrow> server option" where
  "take_slot p i radar channel s = do {
     s1 \<leftarrow> upd_parameters p (\<lambda>prm. prm\<lparr>pr_radar := radar, pr_channel := channel\<rparr>) s;
     Some ((upd_cp p (\<lambda>cp. cp\<lparr>cp_radarinfo := (cp_radarinfo cp)\<lparr>ri_radar := radar, ri_channel := channel\<rparr>\<rparr>) s1)
       \<lparr>sv_channels := (sv_channels s1)[i := Some p]\<rparr>)
   }"

fun register_loop :: "cpid \<Rightarrow> nat list \<Rightarrow> int \<Rightarrow> int \<Rightarrow> server \<Rightarrow> (int \<times> server) option" where
  "register_loop p [] radar channel s = Some (-1, s)"
| "register_loop p (i # is) radar channel s =
    (if sv_channels s ! i = None then
       (let radar' = (if radar \<le> 0 then slot_radar i else radar);
            channel' = (if channel \<le> 0 then slot_channel i else channel)
        in if radar' = slot_radar i \<and> channel' = slot_channel i
           then map_option (Pair 1) (take_slot p i radar' channel' s)
           else register_loop p is radar' channel' s)
     else register_loop p is radar channel s)"

definition register_radar_channel :: "cpid \<Rightarrow> int \<Rightarrow> int \<Rightarrow> server \<Rightarrow> (int \<times> server) option" where
  "register_radar_channel p radar channel s = do {
     (_, s1) \<leftarrow> unregister_radar_channel (Some p) s;
     register_loop p [0..<nslots] radar channel s1
   }"

text \<open>
  A new control program. The members that \<^verbatim>\<open>control_init\<close> does not assign keep what the memory
  holds: \<open>gp\<close>, \<open>gs\<close>, \<open>gd\<close> and \<open>gc\<close>.
\<close>

definition control_init :: "ControlPRM \<Rightarrow> ControlState \<Rightarrow> DataPRM \<Rightarrow> CLRFreqPRM \<Rightarrow> ControlProgram" where
  "control_init gp gs gd gc =
    \<lparr>cp_state = Some (gs\<lparr>st_cancelled := 0, st_ready := 0, st_linked := 0, st_processing := 0,
        st_best_assigned_freq := 0, st_current_assigned_freq := 0, st_freq_change_needed := 0,
        st_thread := None, st_fft_array := None, st_pulseseqs := replicate MAX_SEQS None\<rparr>),
     cp_data = Some gd,
     cp_clrfreqsearch = gc\<lparr>cl_start := 0, cl_end := 0\<rparr>,
     cp_parameters = Some (gp\<lparr>pr_name := ''Generic Control Program Name - 80'',
        pr_description := ''Generic  Control Program  Description - 120'', pr_radar := -1, pr_channel := -1,
        pr_current_pulseseq_index := -1, pr_priority := 50, pr_tbeam := -1, pr_tbeamcode := 2 ^ 32 - 1,
        pr_tbeamwidth := -1, pr_tbeamazm := -1, pr_tfreq := -1, pr_trise := 10, pr_rbeam := -1,
        pr_rbeamcode := 2 ^ 32 - 1, pr_rbeamwidth := -1, pr_rbeamazm := -1, pr_rfreq := -1,
        pr_number_of_samples := -1, pr_buffer_index := -1, pr_baseband_samplerate := -1,
        pr_filter_bandwidth := -1, pr_match_filter := -1, pr_status := -1\<rparr>),
     cp_radarinfo = \<lparr>ri_site = -1, ri_radar = -1, ri_channel = -1\<rparr>,
     cp_main = None, cp_main_address = 0, cp_back = None, cp_back_address = 0, cp_active = 1\<rparr>"

section \<open>Slots\<close>

definition slot_of :: "int \<Rightarrow> int \<Rightarrow> nat option" where
  "slot_of radar channel =
    (if 1 \<le> radar \<and> radar \<le> int MAX_RADARS \<and> 1 \<le> channel \<and> channel \<le> int MAX_CHANNELS
     then Some (nat (radar - 1) * MAX_CHANNELS + nat (channel - 1)) else None)"

lemma slots_expand: "[0..<nslots] = [0, 1, 2, 3, 4, 5, 6, 7]"
  by (simp add: nslots_def site_consts upt_rec numeral_eq_Suc)

lemma nslots_eq [simp]: "nslots = 8"
  by (simp add: nslots_def site_consts)

lemma slot_of_slot: "i < nslots \<Longrightarrow> slot_of (slot_radar i) (slot_channel i) = Some i"
  by (auto simp: slot_of_def slot_radar_def slot_channel_def site_consts)

lemma slot_of_Some:
  assumes "slot_of radar channel = Some i"
  shows "i < nslots" "slot_radar i = radar" "slot_channel i = channel"
proof -
  define a b where "a = nat (radar - 1)" and "b = nat (channel - 1)"
  have ab: "i = a * 4 + b" "a < 2" "b < 4" "radar = int a + 1" "channel = int b + 1"
    using assms by (auto simp: slot_of_def site_consts a_def b_def split: if_splits)
  then show "i < nslots" by simp
  show "slot_radar i = radar" "slot_channel i = channel"
    using ab by (simp_all add: slot_radar_def slot_channel_def site_consts)
qed

lemma slot_inj: "i < nslots \<Longrightarrow> j < nslots \<Longrightarrow> slot_radar i = slot_radar j \<Longrightarrow> slot_channel i = slot_channel j \<Longrightarrow> i = j"
  by (metis slot_of_slot option.inject)

lemma slot_range: "i < nslots \<Longrightarrow> 1 \<le> slot_radar i \<and> 1 \<le> slot_channel i"
  by (simp add: slot_radar_def slot_channel_def)

text \<open>The search is an index computation.\<close>

lemma find_registered_slot:
  "find_registered_controlprogram_by_radar_channel s radar channel =
    (case slot_of radar channel of None \<Rightarrow> None | Some i \<Rightarrow> sv_channels s ! i)"
proof (cases "slot_of radar channel")
  case None
  have "\<forall>i \<in> set [0..<nslots]. \<not> (radar = slot_radar i \<and> channel = slot_channel i)"
    using None slot_of_slot by fastforce
  then have f: "find_index (\<lambda>i. radar = slot_radar i \<and> channel = slot_channel i) [0..<nslots] = None"
    unfolding find_index_None .
  show ?thesis unfolding find_registered_controlprogram_by_radar_channel_def f None by simp
next
  case (Some i)
  note i = slot_of_Some [OF Some]
  obtain j where j: "find_index (\<lambda>i. radar = slot_radar i \<and> channel = slot_channel i) [0..<nslots] = Some j"
    using find_index_exists [of i "[0..<nslots]" "\<lambda>i. radar = slot_radar i \<and> channel = slot_channel i"] i by auto
  then have "j < nslots" "radar = slot_radar j" "channel = slot_channel j"
    using find_index_SomeD [OF j] by (auto simp del: nslots_eq simp: nth_upt)
  then have "j = i" using slot_inj i by metis
  with j Some show ?thesis unfolding find_registered_controlprogram_by_radar_channel_def by (simp del: nslots_eq)
qed

section \<open>Unregistering\<close>

text \<open>Registration changes the table and the programs, and nothing else.\<close>

definition table_frame :: "server \<Rightarrow> server \<Rightarrow> bool" where
  "table_frame s s' \<longleftrightarrow> (\<exists>h c. s' = s\<lparr>sv_heap := h, sv_channels := c\<rparr>)"

lemma table_frame_refl: "table_frame s s"
  unfolding table_frame_def by (intro exI [of _ "sv_heap s"] exI [of _ "sv_channels s"]) simp

lemma table_frame_trans: "table_frame s s' \<Longrightarrow> table_frame s' s'' \<Longrightarrow> table_frame s s''"
  unfolding table_frame_def by (elim exE) (simp, blast)

lemma upd_parameters_Some:
  assumes "sv_heap s p = Some cp" "cp_parameters cp = Some prm"
  shows "upd_parameters p f s = Some (s\<lparr>sv_heap := (sv_heap s)(p \<mapsto> cp\<lparr>cp_parameters := Some (f prm)\<rparr>)\<rparr>)"
  using assms by (simp add: upd_parameters_def parameters_of_def upd_cp_def)

lemma unregister_loop_ok:
  assumes "sv_heap s p = Some cp" "cp_parameters cp = Some prm" "length (sv_channels s) = nslots" "\<forall>i \<in> set is. i < nslots"
  shows "\<exists>n s'. unregister_loop p is k s = Some (n, s') \<and> table_frame s s' \<and> length (sv_channels s') = nslots \<and>
    (\<forall>j < nslots. sv_channels s' ! j = (if j \<in> set is \<and> sv_channels s ! j = Some p then None else sv_channels s ! j)) \<and>
    (\<exists>prm'. sv_heap s' = (sv_heap s)(p \<mapsto> cp\<lparr>cp_parameters := Some prm'\<rparr>))"
  using assms
proof (induction "is" arbitrary: s k cp prm)
  case Nil
  then show ?case using table_frame_refl by (auto intro!: exI [of _ prm] simp: fun_upd_idem)
next
  case (Cons i "is")
  show ?case
  proof (cases "sv_channels s ! i = Some p")
    case True
    let ?prm = "prm\<lparr>pr_radar := 0, pr_channel := 0\<rparr>"
    define s1 where "s1 = s\<lparr>sv_channels := (sv_channels s)[i := None], sv_heap := (sv_heap s)(p \<mapsto> cp\<lparr>cp_parameters := Some ?prm\<rparr>)\<rparr>"
    have u: "upd_parameters p (\<lambda>prm. prm\<lparr>pr_radar := 0, pr_channel := 0\<rparr>) (s\<lparr>sv_channels := (sv_channels s)[i := None]\<rparr>) = Some s1"
      using upd_parameters_Some [of "s\<lparr>sv_channels := (sv_channels s)[i := None]\<rparr>" p cp prm] Cons.prems by (simp add: s1_def)
    have s1: "sv_heap s1 = (sv_heap s)(p \<mapsto> cp\<lparr>cp_parameters := Some ?prm\<rparr>)" "sv_channels s1 = (sv_channels s)[i := None]"
      by (simp_all add: s1_def)
    have "\<exists>n s'. unregister_loop p is (k + 1) s1 = Some (n, s') \<and> table_frame s1 s' \<and> length (sv_channels s') = nslots \<and>
      (\<forall>j < nslots. sv_channels s' ! j = (if j \<in> set is \<and> sv_channels s1 ! j = Some p then None else sv_channels s1 ! j)) \<and>
      (\<exists>prm'. sv_heap s' = (sv_heap s1)(p \<mapsto> (cp\<lparr>cp_parameters := Some ?prm\<rparr>)\<lparr>cp_parameters := Some prm'\<rparr>))"
      by (rule Cons.IH) (use s1 Cons.prems in simp_all)
    then obtain n s' prm' where s': "unregister_loop p is (k + 1) s1 = Some (n, s')" "table_frame s1 s'" "length (sv_channels s') = nslots"
      "\<forall>j < nslots. sv_channels s' ! j = (if j \<in> set is \<and> sv_channels s1 ! j = Some p then None else sv_channels s1 ! j)"
      "sv_heap s' = (sv_heap s1)(p \<mapsto> (cp\<lparr>cp_parameters := Some ?prm\<rparr>)\<lparr>cp_parameters := Some prm'\<rparr>)"
      by blast
    have "table_frame s s1" unfolding table_frame_def s1_def
      by (intro exI [of _ "(sv_heap s)(p \<mapsto> cp\<lparr>cp_parameters := Some ?prm\<rparr>)"] exI [of _ "(sv_channels s)[i := None]"]) simp
    then have "table_frame s s'" using s'(2) table_frame_trans by blast
    moreover have "unregister_loop p (i # is) k s = Some (n, s')" using True u s'(1) by simp
    moreover have "\<forall>j < nslots. sv_channels s' ! j = (if j \<in> set (i # is) \<and> sv_channels s ! j = Some p then None else sv_channels s ! j)"
    proof (intro allI impI)
      fix j assume j: "j < nslots"
      then have "sv_channels s1 ! j = (if j = i then None else sv_channels s ! j)"
        using s1(2) Cons.prems(3) by (simp add: nth_list_update)
      then show "sv_channels s' ! j = (if j \<in> set (i # is) \<and> sv_channels s ! j = Some p then None else sv_channels s ! j)"
        using s'(4) j True by simp
    qed
    moreover have "sv_heap s' = (sv_heap s)(p \<mapsto> cp\<lparr>cp_parameters := Some prm'\<rparr>)" using s'(5) s1(1) by simp
    ultimately show ?thesis using s'(3) by blast
  next
    case False
    have "\<exists>n s'. unregister_loop p is k s = Some (n, s') \<and> table_frame s s' \<and> length (sv_channels s') = nslots \<and>
      (\<forall>j < nslots. sv_channels s' ! j = (if j \<in> set is \<and> sv_channels s ! j = Some p then None else sv_channels s ! j)) \<and>
      (\<exists>prm'. sv_heap s' = (sv_heap s)(p \<mapsto> cp\<lparr>cp_parameters := Some prm'\<rparr>))"
      by (rule Cons.IH) (use Cons.prems in simp_all)
    then obtain n s' prm' where s': "unregister_loop p is k s = Some (n, s')" "table_frame s s'" "length (sv_channels s') = nslots"
      "\<forall>j < nslots. sv_channels s' ! j = (if j \<in> set is \<and> sv_channels s ! j = Some p then None else sv_channels s ! j)"
      "sv_heap s' = (sv_heap s)(p \<mapsto> cp\<lparr>cp_parameters := Some prm'\<rparr>)" by blast
    have "\<forall>j < nslots. sv_channels s' ! j = (if j \<in> set (i # is) \<and> sv_channels s ! j = Some p then None else sv_channels s ! j)"
      using s'(4) False by auto
    moreover have "unregister_loop p (i # is) k s = Some (n, s')" using False s'(1) by simp
    ultimately show ?thesis using s'(2,3,5) by blast
  qed
qed

definition vacate :: "cpid \<Rightarrow> cpid option list \<Rightarrow> cpid option list" where
  "vacate p chs = map (\<lambda>c. if c = Some p then None else c) chs"

lemma unregister_ok:
  assumes "sv_heap s p = Some cp" "cp_parameters cp = Some prm" "length (sv_channels s) = nslots"
  obtains n s' prm' where "unregister_radar_channel (Some p) s = Some (n, s')" "table_frame s s'"
    "sv_channels s' = vacate p (sv_channels s)" "sv_heap s' = (sv_heap s)(p \<mapsto> cp\<lparr>cp_parameters := Some prm'\<rparr>)"
proof -
  obtain n s' prm' where s': "unregister_loop p [0..<nslots] 0 s = Some (n, s')" "table_frame s s'" "length (sv_channels s') = nslots"
    "\<forall>j < nslots. sv_channels s' ! j = (if j \<in> set [0..<nslots] \<and> sv_channels s ! j = Some p then None else sv_channels s ! j)"
    "sv_heap s' = (sv_heap s)(p \<mapsto> cp\<lparr>cp_parameters := Some prm'\<rparr>)"
    using unregister_loop_ok [OF assms, of "[0..<nslots]" 0] by auto
  have "sv_channels s' = vacate p (sv_channels s)"
    using s'(3,4) assms(3) by (intro nth_equalityI) (simp_all add: vacate_def)
  then show thesis using that s' by (simp add: unregister_radar_channel_def)
qed

section \<open>Registering\<close>

text \<open>
  The slot a registration takes: the numbers that are not positive are those of the first free
  slot, and the slot they name has to be free.
\<close>

definition register_target :: "cpid option list \<Rightarrow> int \<Rightarrow> int \<Rightarrow> nat option" where
  "register_target chs radar channel =
    (case find_index (\<lambda>c. c = None) chs of
       None \<Rightarrow> None
     | Some i0 \<Rightarrow>
        (case slot_of (if radar \<le> 0 then slot_radar i0 else radar) (if channel \<le> 0 then slot_channel i0 else channel) of
           None \<Rightarrow> None
         | Some j \<Rightarrow> if chs ! j = None then Some j else None))"

lemma register_loop_fixed:
  assumes "1 \<le> radar" "1 \<le> channel" "\<forall>i \<in> set is. i < nslots"
  shows "register_loop p is radar channel s =
    (case slot_of radar channel of
       Some j \<Rightarrow> if j \<in> set is \<and> sv_channels s ! j = None then map_option (Pair 1) (take_slot p j radar channel s) else Some (-1, s)
     | None \<Rightarrow> Some (-1, s))"
  using assms(3)
proof (induction "is")
  case Nil
  then show ?case by (simp split: option.split)
next
  case (Cons i "is")
  have m: "radar = slot_radar i \<and> channel = slot_channel i \<longleftrightarrow> slot_of radar channel = Some i"
  proof
    assume "radar = slot_radar i \<and> channel = slot_channel i"
    then show "slot_of radar channel = Some i" using slot_of_slot [of i] Cons.prems by simp
  next
    assume "slot_of radar channel = Some i"
    then show "radar = slot_radar i \<and> channel = slot_channel i" using slot_of_Some(2,3) by metis
  qed
  have step: "register_loop p (i # is) radar channel s =
    (if sv_channels s ! i = None \<and> slot_of radar channel = Some i then map_option (Pair 1) (take_slot p i radar channel s)
     else register_loop p is radar channel s)"
    using assms(1,2) m by (simp add: Let_def)
  show ?case
  proof (cases "slot_of radar channel = Some i")
    case True
    then show ?thesis unfolding step using Cons by simp
  next
    case False
    then show ?thesis unfolding step using Cons by (cases "slot_of radar channel") simp_all
  qed
qed

lemma register_loop_skip:
  "\<forall>i \<in> set pre. sv_channels s ! i \<noteq> None \<Longrightarrow> register_loop p (pre @ is) radar channel s = register_loop p is radar channel s"
  by (induction pre) auto

lemma register_loop_target:
  assumes "length (sv_channels s) = nslots"
  shows "register_loop p [0..<nslots] radar channel s =
    (case register_target (sv_channels s) radar channel of
       None \<Rightarrow> Some (-1, s)
     | Some j \<Rightarrow> map_option (Pair 1) (take_slot p j (slot_radar j) (slot_channel j) s))"
proof (cases "find_index (\<lambda>c. c = None) (sv_channels s)")
  case None
  then have "\<forall>i \<in> set [0..<nslots]. sv_channels s ! i \<noteq> None" using assms by simp
  then have "register_loop p ([0..<nslots] @ []) radar channel s = Some (-1, s)" by (subst register_loop_skip) auto
  with None show ?thesis unfolding register_target_def None by simp
next
  case (Some i0)
  have i0: "i0 < nslots" "sv_channels s ! i0 = None" "\<forall>j < i0. sv_channels s ! j \<noteq> None"
    using find_index_SomeD [OF Some] assms by auto
  let ?r = "if radar \<le> 0 then slot_radar i0 else radar" and ?c = "if channel \<le> 0 then slot_channel i0 else channel"
  have pos: "1 \<le> ?r" "1 \<le> ?c" using slot_range [OF i0(1)] by auto
  have split: "[0..<nslots] = [0..<i0] @ i0 # [Suc i0..<nslots]" using i0(1) by (metis upt_add_eq_append upt_conv_Cons le0 less_imp_le add_diff_inverse_nat not_less)
  have "register_loop p [0..<nslots] radar channel s = register_loop p (i0 # [Suc i0..<nslots]) radar channel s"
    unfolding split using i0(3) by (intro register_loop_skip) auto
  also have "\<dots> = register_loop p (i0 # [Suc i0..<nslots]) ?r ?c s"
    using i0(2) pos by (simp add: Let_def)
  also have "\<dots> = (case slot_of ?r ?c of
       Some j \<Rightarrow> if j \<in> set (i0 # [Suc i0..<nslots]) \<and> sv_channels s ! j = None then map_option (Pair 1) (take_slot p j ?r ?c s) else Some (-1, s)
     | None \<Rightarrow> Some (-1, s))"
    using i0(1) by (intro register_loop_fixed pos) auto
  also have "\<dots> = (case register_target (sv_channels s) radar channel of
       None \<Rightarrow> Some (-1, s)
     | Some j \<Rightarrow> map_option (Pair 1) (take_slot p j (slot_radar j) (slot_channel j) s))"
  proof (cases "slot_of ?r ?c")
    case None
    then show ?thesis unfolding register_target_def Some by simp
  next
    case j: (Some j)
    note js = slot_of_Some [OF j]
    have "j \<in> set (i0 # [Suc i0..<nslots])" if "sv_channels s ! j = None"
      using i0(3) js(1) that by (metis atLeastLessThan_iff insert_iff less_Suc_eq_le linorder_not_le list.simps(15) nat_less_le set_upt)
    then show ?thesis unfolding register_target_def Some using j js by auto
  qed
  finally show ?thesis .
qed

section \<open>The invariant of the table\<close>

text \<open>
  Every occupied slot holds a program that exists, still has its parameters, and whose
  \<^verbatim>\<open>radarinfo\<close> names that slot. So no program is in two slots.
\<close>

definition chan_inv :: "server \<Rightarrow> bool" where
  "chan_inv s \<longleftrightarrow> length (sv_channels s) = nslots \<and>
     (\<forall>i < nslots. \<forall>p. sv_channels s ! i = Some p \<longrightarrow>
        (\<exists>cp. sv_heap s p = Some cp \<and> cp_parameters cp \<noteq> None \<and>
          ri_radar (cp_radarinfo cp) = slot_radar i \<and> ri_channel (cp_radarinfo cp) = slot_channel i))"

lemma chan_invD:
  assumes "chan_inv s" "i < nslots" "sv_channels s ! i = Some p"
  shows "\<exists>cp prm. sv_heap s p = Some cp \<and> cp_parameters cp = Some prm \<and>
    ri_radar (cp_radarinfo cp) = slot_radar i \<and> ri_channel (cp_radarinfo cp) = slot_channel i"
  using assms unfolding chan_inv_def by blast

lemma chan_inv_unique:
  assumes "chan_inv s" "i < nslots" "j < nslots" "sv_channels s ! i = Some p" "sv_channels s ! j = Some p"
  shows "i = j"
proof -
  have "\<exists>cp. sv_heap s p = Some cp \<and> ri_radar (cp_radarinfo cp) = slot_radar k \<and> ri_channel (cp_radarinfo cp) = slot_channel k"
    if "k \<in> {i, j}" for k using assms that by (auto simp: chan_inv_def)
  from this [of i] this [of j] show ?thesis using slot_inj [OF assms(2,3)] by auto
qed

lemma vacate_nth: "i < length chs \<Longrightarrow> vacate p chs ! i = (if chs ! i = Some p then None else chs ! i)"
  by (simp add: vacate_def)

lemma vacate_length [simp]: "length (vacate p chs) = length chs"
  by (simp add: vacate_def)

lemma register_target_slot:
  assumes "register_target chs radar channel = Some j"
  shows "j < nslots" "chs ! j = None" "0 < radar \<Longrightarrow> slot_radar j = radar" "0 < channel \<Longrightarrow> slot_channel j = channel"
proof -
  obtain i0 where "slot_of (if radar \<le> 0 then slot_radar i0 else radar) (if channel \<le> 0 then slot_channel i0 else channel) = Some j"
    and f: "chs ! j = None"
    using assms by (auto simp: register_target_def split: option.splits if_splits)
  note j = slot_of_Some [OF this(1)]
  show "j < nslots" "chs ! j = None" "0 < radar \<Longrightarrow> slot_radar j = radar" "0 < channel \<Longrightarrow> slot_channel j = channel"
    using j f by simp_all
qed

lemma take_slot_ok:
  assumes "sv_heap s p = Some cp" "cp_parameters cp = Some prm"
  obtains s' prm' where "take_slot p j r c s = Some s'" "sv_channels s' = (sv_channels s)[j := Some p]"
    "sv_heap s' = (sv_heap s)(p \<mapsto> cp\<lparr>cp_parameters := Some prm',
        cp_radarinfo := (cp_radarinfo cp)\<lparr>ri_radar := r, ri_channel := c\<rparr>\<rparr>)"
proof -
  let ?prm = "prm\<lparr>pr_radar := r, pr_channel := c\<rparr>"
  have u: "upd_parameters p (\<lambda>prm. prm\<lparr>pr_radar := r, pr_channel := c\<rparr>) s =
      Some (s\<lparr>sv_heap := (sv_heap s)(p \<mapsto> cp\<lparr>cp_parameters := Some ?prm\<rparr>)\<rparr>)"
    using upd_parameters_Some [OF assms] .
  show thesis
    by (rule that [of _ ?prm], simp add: take_slot_def u) (simp_all add: fun_eq_iff)
qed

text \<open>The whole registration, on every branch.\<close>

lemma register_cases:
  assumes inv: "chan_inv s" and p: "sv_heap s p = Some cp" "cp_parameters cp = Some prm"
  obtains s' prm' where
    "register_radar_channel p radar channel s = Some (case register_target (vacate p (sv_channels s)) radar channel of None \<Rightarrow> -1 | Some j \<Rightarrow> 1, s')"
    "sv_channels s' = (case register_target (vacate p (sv_channels s)) radar channel of
       None \<Rightarrow> vacate p (sv_channels s) | Some j \<Rightarrow> (vacate p (sv_channels s))[j := Some p])"
    "sv_heap s' = (sv_heap s)(p \<mapsto> cp\<lparr>cp_parameters := Some prm', cp_radarinfo :=
       (case register_target (vacate p (sv_channels s)) radar channel of None \<Rightarrow> cp_radarinfo cp
        | Some j \<Rightarrow> (cp_radarinfo cp)\<lparr>ri_radar := slot_radar j, ri_channel := slot_channel j\<rparr>)\<rparr>)"
proof -
  have len: "length (sv_channels s) = nslots" using inv by (simp add: chan_inv_def)
  obtain n s1 prm1 where u: "unregister_radar_channel (Some p) s = Some (n, s1)" "sv_channels s1 = vacate p (sv_channels s)"
    "sv_heap s1 = (sv_heap s)(p \<mapsto> cp\<lparr>cp_parameters := Some prm1\<rparr>)"
    using unregister_ok [OF p len] .
  let ?t = "register_target (vacate p (sv_channels s)) radar channel"
  have reg: "register_radar_channel p radar channel s = (case ?t of None \<Rightarrow> Some (-1, s1)
     | Some j \<Rightarrow> map_option (Pair 1) (take_slot p j (slot_radar j) (slot_channel j) s1))"
    using register_loop_target [of s1 p radar channel] len u by (simp add: register_radar_channel_def)
  show thesis
  proof (cases ?t)
    case None
    then show thesis using that [of s1 prm1] reg u by simp
  next
    case (Some j)
    have s1: "sv_heap s1 p = Some (cp\<lparr>cp_parameters := Some prm1\<rparr>)" "cp_parameters (cp\<lparr>cp_parameters := Some prm1\<rparr>) = Some prm1"
      using u(3) by simp_all
    obtain s' prm' where t: "take_slot p j (slot_radar j) (slot_channel j) s1 = Some s'" "sv_channels s' = (sv_channels s1)[j := Some p]"
      "sv_heap s' = (sv_heap s1)(p \<mapsto> (cp\<lparr>cp_parameters := Some prm1\<rparr>)\<lparr>cp_parameters := Some prm',
        cp_radarinfo := (cp_radarinfo (cp\<lparr>cp_parameters := Some prm1\<rparr>))\<lparr>ri_radar := slot_radar j, ri_channel := slot_channel j\<rparr>\<rparr>)"
      using take_slot_ok [OF s1] by blast
    show thesis by (rule that [of s' prm']) (use reg Some t u in simp_all)
  qed
qed

lemma register_inv:
  assumes inv: "chan_inv s" and p: "sv_heap s p = Some cp" "cp_parameters cp = Some prm"
    and r: "register_radar_channel p radar channel s = Some (st, s')"
  shows "chan_inv s'"
proof -
  let ?t = "register_target (vacate p (sv_channels s)) radar channel"
  obtain s1 prm' where c: "register_radar_channel p radar channel s = Some (case ?t of None \<Rightarrow> -1 | Some j \<Rightarrow> 1, s1)"
    "sv_channels s1 = (case ?t of None \<Rightarrow> vacate p (sv_channels s) | Some j \<Rightarrow> (vacate p (sv_channels s))[j := Some p])"
    "sv_heap s1 = (sv_heap s)(p \<mapsto> cp\<lparr>cp_parameters := Some prm', cp_radarinfo :=
       (case ?t of None \<Rightarrow> cp_radarinfo cp | Some j \<Rightarrow> (cp_radarinfo cp)\<lparr>ri_radar := slot_radar j, ri_channel := slot_channel j\<rparr>)\<rparr>)"
    by (rule register_cases [OF inv p])
  have "s1 = s'" using c(1) r by simp
  note s' = c(2,3) [unfolded this]
  have len: "length (sv_channels s) = nslots" using inv by (simp add: chan_inv_def)
  show ?thesis
    unfolding chan_inv_def
  proof (intro conjI allI impI)
    show "length (sv_channels s') = nslots" using s'(1) len by (simp split: option.split)
  next
    fix i q assume i: "i < nslots" and q: "sv_channels s' ! i = Some q"
    show "\<exists>cp. sv_heap s' q = Some cp \<and> cp_parameters cp \<noteq> None \<and>
          ri_radar (cp_radarinfo cp) = slot_radar i \<and> ri_channel (cp_radarinfo cp) = slot_channel i"
    proof (cases "q = p")
      case True
      have v: "vacate p (sv_channels s) ! i \<noteq> Some p" using i len by (simp add: vacate_nth)
      with q s'(1) True obtain j where j: "?t = Some j" by (cases ?t) simp_all
      with q s'(1) True v have "i = j" by (cases "i = j") simp_all
      then show ?thesis using True s'(2) j by simp
    next
      case False
      have "vacate p (sv_channels s) ! i = Some q"
      proof (cases ?t)
        case None
        then show ?thesis using q s'(1) by simp
      next
        case (Some j)
        then show ?thesis using q s'(1) False i len by (cases "i = j") simp_all
      qed
      then have "sv_channels s ! i = Some q" using i len by (simp add: vacate_nth split: if_splits)
      then show ?thesis using inv i False s'(2) by (simp add: chan_inv_def)
    qed
  qed
qed

section \<open>The shared beam\<close>

text \<open>The program registered on a channel, when it is active and still has its parameters.\<close>

definition candidate :: "server \<Rightarrow> int \<Rightarrow> int \<Rightarrow> (cpid \<times> ControlPRM) option" where
  "candidate s r c = do {
     q \<leftarrow> find_registered_controlprogram_by_radar_channel s r c;
     cp \<leftarrow> sv_heap s q;
     if cp_active cp \<noteq> 0 then map_option (Pair q) (cp_parameters cp) else None
   }"

definition no_better :: "server \<Rightarrow> int \<Rightarrow> int list \<Rightarrow> int \<Rightarrow> bool" where
  "no_better s r cs pr \<longleftrightarrow> (\<forall>c \<in> set cs. \<forall>q prm. candidate s r c = Some (q, prm) \<longrightarrow> pr \<le> pr_priority prm)"

definition is_best :: "server \<Rightarrow> int \<Rightarrow> int list \<Rightarrow> cpid \<Rightarrow> ControlPRM \<Rightarrow> bool" where
  "is_best s r cs q prm \<longleftrightarrow> (\<exists>c \<in> set cs. candidate s r c = Some (q, prm)) \<and> no_better s r cs (pr_priority prm)"

lemma no_better_Cons:
  "no_better s r (c # cs) pr \<longleftrightarrow> no_better s r cs pr \<and> (\<forall>q prm. candidate s r c = Some (q, prm) \<longrightarrow> pr \<le> pr_priority prm)"
  by (auto simp: no_better_def)

lemma best_loop_ok:
  assumes "\<And>c q. c \<in> set cs \<Longrightarrow> find_registered_controlprogram_by_radar_channel s r c = Some q \<Longrightarrow> sv_heap s q \<noteq> None"
  shows "\<exists>b. best_loop s r cs pr best = Some b \<and>
    (b = best \<and> no_better s r cs pr \<or> (\<exists>q prm. b = Some q \<and> is_best s r cs q prm \<and> pr_priority prm < pr))"
  using assms
proof (induction cs arbitrary: pr best)
  case Nil
  then show ?case by (simp add: no_better_def)
next
  case (Cons c cs)
  have IH: "\<exists>b. best_loop s r cs pr best = Some b \<and>
    (b = best \<and> no_better s r cs pr \<or> (\<exists>q prm. b = Some q \<and> is_best s r cs q prm \<and> pr_priority prm < pr))" for pr best
    by (rule Cons.IH) (use Cons.prems in auto)
  show ?case
  proof (cases "candidate s r c")
    case None
    have "best_loop s r (c # cs) pr best = best_loop s r cs pr best"
      using None Cons.prems [of c] by (auto simp: candidate_def split: option.splits)
    with IH [of pr best] None show ?thesis by (auto simp: is_best_def no_better_Cons)
  next
    case (Some qp)
    obtain q prm where qp: "qp = (q, prm)" by (cases qp)
    have step: "best_loop s r (c # cs) pr best =
        (if pr_priority prm < pr then best_loop s r cs (pr_priority prm) (Some q) else best_loop s r cs pr best)"
      using Some qp by (auto simp: candidate_def bind_eq_Some_conv split: if_splits)
    show ?thesis
    proof (cases "pr_priority prm < pr")
      case True
      with IH [of "pr_priority prm" "Some q"] step Some qp show ?thesis
        by (auto simp: is_best_def no_better_Cons) (meson less_imp_le order.strict_trans)
    next
      case False
      obtain b where b: "best_loop s r cs pr best = Some b"
        "b = best \<and> no_better s r cs pr \<or> (\<exists>q prm. b = Some q \<and> is_best s r cs q prm \<and> pr_priority prm < pr)"
        using IH [of pr best] by blast
      have "is_best s r (c # cs) q' prm'" if "is_best s r cs q' prm'" "pr_priority prm' < pr" for q' prm'
        using that False Some qp by (auto simp: is_best_def no_better_Cons)
      then show ?thesis using b step False Some qp by (auto simp: no_better_Cons)
    qed
  qed
qed

lemma best_all_expand:
  "best_all s [1, 2] = do {
     b1 \<leftarrow> best_loop s 1 channel_numbers 99 None;
     b2 \<leftarrow> best_loop s 2 channel_numbers 99 None;
     Some [b1, b2] }"
  by (cases "best_loop s 1 channel_numbers 99 None"; cases "best_loop s 2 channel_numbers 99 None") simp_all

lemma registered_exists:
  assumes "chan_inv s" "find_registered_controlprogram_by_radar_channel s r c = Some q"
  shows "sv_heap s q \<noteq> None"
  using assms slot_of_Some(1) by (fastforce simp: find_registered_slot chan_inv_def split: option.splits)

section \<open>Properties\<close>

text \<open>
  C21: registration, on every branch. For a program whose parameters exist, the request first
  gives up the slot the program holds and then takes the slot named by the request, where a
  number that is not positive is the one of the first free slot; the status is 1 exactly when
  that slot is free and -1 otherwise. The table invariant is kept and no other program changes.
\<close>

theorem register_radar_channel_ok:
  assumes "chan_inv s" "sv_heap s p = Some cp" "cp_parameters cp = Some prm"
  shows "\<exists>status s'. register_radar_channel p radar channel s = Some (status, s') \<and> chan_inv s' \<and>
    (\<forall>q. q \<noteq> p \<longrightarrow> sv_heap s' q = sv_heap s q) \<and>
    (case register_target (vacate p (sv_channels s)) radar channel of
       None \<Rightarrow> status = -1 \<and> sv_channels s' = vacate p (sv_channels s)
     | Some j \<Rightarrow> status = 1 \<and> sv_channels s' = (vacate p (sv_channels s))[j := Some p])"
proof -
  obtain s' prm' where c: "register_radar_channel p radar channel s = Some (case register_target (vacate p (sv_channels s)) radar channel of None \<Rightarrow> -1 | Some j \<Rightarrow> 1, s')"
    "sv_channels s' = (case register_target (vacate p (sv_channels s)) radar channel of
       None \<Rightarrow> vacate p (sv_channels s) | Some j \<Rightarrow> (vacate p (sv_channels s))[j := Some p])"
    "sv_heap s' = (sv_heap s)(p \<mapsto> cp\<lparr>cp_parameters := Some prm', cp_radarinfo :=
       (case register_target (vacate p (sv_channels s)) radar channel of None \<Rightarrow> cp_radarinfo cp
        | Some j \<Rightarrow> (cp_radarinfo cp)\<lparr>ri_radar := slot_radar j, ri_channel := slot_channel j\<rparr>)\<rparr>)"
    by (rule register_cases [OF assms])
  have "chan_inv s'" using register_inv [OF assms c(1)] .
  then show ?thesis using c by (auto split: option.split)
qed

text \<open>
  What has been registered is found. After a successful request the search by radar and
  channel finds the program under the numbers in its \<^verbatim>\<open>radarinfo\<close>, which are the requested ones
  where the request named them.
\<close>

lemma register_then_find:
  assumes "chan_inv s" "sv_heap s p = Some cp" "cp_parameters cp = Some prm"
    "register_radar_channel p radar channel s = Some (1, s')"
  shows "\<exists>cp'. sv_heap s' p = Some cp' \<and>
    find_registered_controlprogram_by_radar_channel s' (ri_radar (cp_radarinfo cp')) (ri_channel (cp_radarinfo cp')) = Some p \<and>
    (0 < radar \<longrightarrow> ri_radar (cp_radarinfo cp') = radar) \<and> (0 < channel \<longrightarrow> ri_channel (cp_radarinfo cp') = channel)"
proof -
  let ?t = "register_target (vacate p (sv_channels s)) radar channel"
  obtain s1 prm' where c: "register_radar_channel p radar channel s = Some (case ?t of None \<Rightarrow> -1 | Some j \<Rightarrow> 1, s1)"
    "sv_channels s1 = (case ?t of None \<Rightarrow> vacate p (sv_channels s) | Some j \<Rightarrow> (vacate p (sv_channels s))[j := Some p])"
    "sv_heap s1 = (sv_heap s)(p \<mapsto> cp\<lparr>cp_parameters := Some prm', cp_radarinfo :=
       (case ?t of None \<Rightarrow> cp_radarinfo cp
        | Some j \<Rightarrow> (cp_radarinfo cp)\<lparr>ri_radar := slot_radar j, ri_channel := slot_channel j\<rparr>)\<rparr>)"
    by (rule register_cases [OF assms(1-3)])
  obtain j where j: "?t = Some j" "s1 = s'" using c(1) assms(4) by (cases ?t) auto
  note jt = register_target_slot [OF j(1)]
  have "length (sv_channels s) = nslots" using assms(1) by (simp add: chan_inv_def)
  then have "sv_channels s' ! j = Some p" using c(2) j jt(1) by simp
  moreover have "slot_of (slot_radar j) (slot_channel j) = Some j" using slot_of_slot [OF jt(1)] .
  ultimately show ?thesis using c(3) j jt(3,4) by (simp add: find_registered_slot)
qed

text \<open>A table with one program, on the first channel of the second radar.\<close>

definition idle_prm :: ControlPRM where
  "idle_prm = \<lparr>pr_radar = 0, pr_channel = 0, pr_local = 0, pr_priority = 0, pr_current_pulseseq_index = 0, pr_tbeam = 0,
     pr_tbeamcode = 0, pr_tbeamazm = 0, pr_tbeamwidth = 0, pr_tfreq = 0, pr_trise = 0, pr_number_of_samples = 0,
     pr_buffer_index = 0, pr_baseband_samplerate = 0, pr_filter_bandwidth = 0, pr_match_filter = 0, pr_rfreq = 0,
     pr_rbeam = 0, pr_rbeamcode = 0, pr_rbeamazm = 0, pr_rbeamwidth = 0, pr_status = 0, pr_name = [], pr_description = []\<rparr>"

definition idle_state :: ControlState where
  "idle_state = \<lparr>st_cancelled = 0, st_socket = 0, st_ready = 0, st_processing = 0, st_linked = 0, st_best_assigned_freq = 0,
     st_best_assigned_noise = 0, st_current_assigned_freq = 0, st_current_assigned_noise = 0, st_gpssecond = 0,
     st_gpsnsecond = 0, st_best_assigned_pwr = 0, st_current_assigned_pwr = 0, st_freq_change_needed = 0,
     st_tx_sideband = 0, st_rx_sideband = 0, st_N = 0, st_pulseseqs = [], st_linked_program = None, st_thread = None,
     st_fft_array = None\<rparr>"

definition idle_data :: DataPRM where
  "idle_data = \<lparr>da_event_secs = 0, da_event_nsecs = 0, da_samples = 0, da_shm_memory = 0, da_status = 0,
     da_frame_header = 0, da_bufnum = 0\<rparr>"

definition idle_clr :: CLRFreqPRM where
  "idle_clr = \<lparr>cl_start = 0, cl_end = 0, cl_filter_bandwidth = 0, cl_pwr_threshold = 0, cl_nave = 0\<rparr>"

definition new_cp :: ControlProgram where
  "new_cp = control_init idle_prm idle_state idle_data idle_clr"

definition idle_server :: server where
  "idle_server = \<lparr>sv_heap = Map.empty, sv_threads = [], sv_channels = replicate nslots None, sv_ready_state = 0,
     sv_trigger_state = 0, sv_ready_count = 0, sv_trigger_type = 0, sv_txread = [0, 0], sv_txstatus = [],
     sv_bad_times = \<lparr>tr_length = 0, tr_start_usec = [], tr_duration_usec = []\<rparr>,
     sv_site_settings = \<lparr>ss_name = [], ss_num_radars = 0, ss_ifmode = 0,
        ss_rf_settings = \<lparr>rx_ifmode = 0, rx_amp1 = 0, rx_amp2 = 0, rx_amp3 = 0, rx_att1 = 0, rx_att2 = 0, rx_att3 = 0, rx_att4 = 0\<rparr>,
        ss_if_settings = \<lparr>rx_ifmode = 0, rx_amp1 = 0, rx_amp2 = 0, rx_amp3 = 0, rx_att1 = 0, rx_att2 = 0, rx_att3 = 0, rx_att4 = 0\<rparr>\<rparr>,
     sv_site_ini = None, sv_clr_pwr = [], sv_blacklist = [], sv_collection_count = 0, sv_error_count = 0,
     sv_out = [], sv_in = (\<lambda>_. [])\<rparr>"

definition one_server :: server where
  "one_server = idle_server\<lparr>sv_heap := [7 \<mapsto> new_cp\<lparr>cp_radarinfo := \<lparr>ri_site = -1, ri_radar = 2, ri_channel = 1\<rparr>\<rparr>],
     sv_channels := (replicate nslots None)[4 := Some 7]\<rparr>"

lemma new_cp_simps [simp]:
  "cp_active new_cp = 1" "cp_radarinfo new_cp = \<lparr>ri_site = -1, ri_radar = -1, ri_channel = -1\<rparr>"
  "\<exists>prm. cp_parameters new_cp = Some prm \<and> pr_priority prm = 50"
  by (simp_all add: new_cp_def control_init_def)

lemma replicate_update_same: "(replicate n x)[i := x] = replicate n x"
  by (cases "i < n") (simp_all add: list_update_same_conv not_less list_update_beyond)

lemma one_server_inv: "chan_inv one_server"
proof -
  have "(replicate nslots None)[4 := Some 7] ! i = Some p \<longleftrightarrow> i = 4 \<and> p = 7" if "i < nslots" for i and p :: nat
    using that by (cases "i = 4") (auto simp: nth_list_update)
  then show ?thesis
    by (auto simp: chan_inv_def one_server_def idle_server_def new_cp_def control_init_def slot_radar_def slot_channel_def site_consts)
qed

theorem register_radar_channel_ok_witness:
  "\<exists>s'. register_radar_channel 7 0 0 one_server = Some (1, s') \<and> sv_channels s' = (replicate nslots None)[0 := Some 7]"
proof -
  obtain cp prm where p: "sv_heap one_server 7 = Some cp" "cp_parameters cp = Some prm"
    by (auto simp: one_server_def new_cp_def control_init_def)
  have v: "vacate 7 (sv_channels one_server) = replicate nslots None"
    by (simp add: vacate_def one_server_def map_update replicate_update_same)
  have "find_index (\<lambda>c. c = None) (replicate nslots (None :: cpid option)) = Some 0" by (simp add: numeral_eq_Suc)
  then have "register_target (replicate nslots None) 0 0 = Some 0"
    using slot_of_slot [of 0] by (simp add: register_target_def)
  then show ?thesis
    using register_radar_channel_ok [OF one_server_inv p, of 0 0] by (auto simp: v)
qed

theorem register_then_find_witness:
  "\<exists>s'. register_radar_channel 7 1 3 one_server = Some (1, s') \<and>
    find_registered_controlprogram_by_radar_channel s' 1 3 = Some 7"
proof -
  obtain cp prm where p: "sv_heap one_server 7 = Some cp" "cp_parameters cp = Some prm"
    by (auto simp: one_server_def new_cp_def control_init_def)
  have v: "vacate 7 (sv_channels one_server) = replicate nslots None"
    by (simp add: vacate_def one_server_def map_update replicate_update_same)
  have "find_index (\<lambda>c. c = None) (replicate nslots (None :: cpid option)) = Some 0" by (simp add: numeral_eq_Suc)
  then have t: "register_target (vacate 7 (sv_channels one_server)) 1 3 = Some 2"
    unfolding v by (simp add: register_target_def slot_of_def site_consts)
  obtain s' prm' where c: "register_radar_channel 7 1 3 one_server = Some (1, s')"
    by (rule register_cases [OF one_server_inv p, of 1 3]) (simp add: t)
  then show ?thesis using register_then_find [OF one_server_inv p, of 1 3 s'] by auto
qed

text \<open>
  A failed change of channel. When a registered program asks for a slot that is not free it
  loses the slot it had: it is in no slot any more, but its \<^verbatim>\<open>radarinfo\<close> still names the old one, so
  the tests \<^verbatim>\<open>r < 0\<close> and \<^verbatim>\<open>c < 0\<close> of the command handler keep treating it as registered.
\<close>

lemma failed_register_keeps_radarinfo:
  assumes "chan_inv s" "i < nslots" "sv_channels s ! i = Some p"
    "register_target (vacate p (sv_channels s)) radar channel = None"
  shows "\<exists>s' cp'. register_radar_channel p radar channel s = Some (-1, s') \<and> Some p \<notin> set (sv_channels s') \<and>
    sv_heap s' p = Some cp' \<and> ri_radar (cp_radarinfo cp') = slot_radar i \<and> ri_channel (cp_radarinfo cp') = slot_channel i"
proof -
  obtain cp prm where cp: "sv_heap s p = Some cp" "cp_parameters cp = Some prm"
      "ri_radar (cp_radarinfo cp) = slot_radar i" "ri_channel (cp_radarinfo cp) = slot_channel i"
    using chan_invD [OF assms(1-3)] by blast
  show ?thesis
  proof (rule register_cases [OF assms(1) cp(1,2), of radar channel])
    fix s' prm'
    assume "register_radar_channel p radar channel s = Some (case register_target (vacate p (sv_channels s)) radar channel of None \<Rightarrow> -1 | Some j \<Rightarrow> 1, s')"
      "sv_channels s' = (case register_target (vacate p (sv_channels s)) radar channel of
         None \<Rightarrow> vacate p (sv_channels s) | Some j \<Rightarrow> (vacate p (sv_channels s))[j := Some p])"
      "sv_heap s' = (sv_heap s)(p \<mapsto> cp\<lparr>cp_parameters := Some prm', cp_radarinfo :=
         (case register_target (vacate p (sv_channels s)) radar channel of None \<Rightarrow> cp_radarinfo cp
          | Some j \<Rightarrow> (cp_radarinfo cp)\<lparr>ri_radar := slot_radar j, ri_channel := slot_channel j\<rparr>)\<rparr>)"
    moreover have "Some p \<notin> set (vacate p (sv_channels s))" by (auto simp: vacate_def)
    ultimately show ?thesis using assms(4) cp(3,4) by simp
  qed
qed

theorem failed_register_keeps_radarinfo_witness:
  "\<exists>s' cp'. register_radar_channel 7 3 1 one_server = Some (-1, s') \<and> Some 7 \<notin> set (sv_channels s') \<and>
    sv_heap s' 7 = Some cp' \<and> ri_radar (cp_radarinfo cp') = 2 \<and> ri_channel (cp_radarinfo cp') = 1"
proof -
  have "register_target (vacate 7 (sv_channels one_server)) 3 1 = None"
    by (simp add: register_target_def slot_of_def site_consts split: option.split)
  moreover have "sv_channels one_server ! 4 = Some 7" by (simp add: one_server_def)
  moreover have "slot_radar 4 = 2" "slot_channel 4 = 1" by (simp_all add: slot_radar_def slot_channel_def site_consts)
  ultimately show ?thesis using failed_register_keeps_radarinfo [OF one_server_inv, of 4 7 3 1] by auto
qed

text \<open>
  C37: the shared beam. For an active, registered program with a priority below 99 the parameters
  reported to it carry the transmit and receive beams of the program with the smallest priority
  number among the active programs of its radar, and the frequencies it asked for itself.
\<close>

theorem fill_parameters_best_beam:
  assumes "chan_inv s" "i < nslots" "sv_channels s ! i = Some p" "sv_heap s p = Some cp" "cp_parameters cp = Some own"
    "cp_active cp \<noteq> 0" "pr_priority own < 99"
  shows "\<exists>prm q best. controlprogram_fill_parameters g p s = Some prm \<and> is_best s (slot_radar i) channel_numbers q best \<and>
    pr_tbeam prm = pr_tbeam best \<and> pr_rbeam prm = pr_rbeam best \<and> pr_tfreq prm = pr_tfreq own \<and> pr_rfreq prm = pr_rfreq own \<and>
    pr_radar prm = slot_radar i \<and> pr_channel prm = slot_channel i"
proof -
  have bl: "\<exists>b. best_loop s r channel_numbers 99 None = Some b \<and>
    (b = None \<and> no_better s r channel_numbers 99 \<or> (\<exists>q prm. b = Some q \<and> is_best s r channel_numbers q prm \<and> pr_priority prm < 99))" for r
    using best_loop_ok [of channel_numbers s r 99 None] registered_exists [OF assms(1)] by blast
  obtain b1 b2 where b: "best_loop s 1 channel_numbers 99 None = Some b1" "best_loop s 2 channel_numbers 99 None = Some b2"
    using bl [of 1] bl [of 2] by blast
  have ri: "ri_radar (cp_radarinfo cp) = slot_radar i" "ri_channel (cp_radarinfo cp) = slot_channel i"
    using chan_invD [OF assms(1-3)] assms(4) by auto
  have "candidate s (slot_radar i) (slot_channel i) = Some (p, own)"
    using assms slot_of_slot [OF assms(2)] by (simp add: candidate_def find_registered_slot)
  moreover have "slot_channel i \<in> set channel_numbers"
    by (auto simp: channel_numbers_def slot_channel_def site_consts)
  ultimately have "\<not> no_better s (slot_radar i) channel_numbers 99" using assms(7) by (force simp: no_better_def)
  then obtain q best where q: "best_loop s (slot_radar i) channel_numbers 99 None = Some (Some q)"
    "is_best s (slot_radar i) channel_numbers q best" using bl [of "slot_radar i"] by auto
  have r: "slot_radar i = 1 \<or> slot_radar i = 2" using assms(2) by (auto simp: slot_radar_def site_consts)
  then have a: "aref [b1, b2] (slot_radar i - 1) = Some (Some q)" using b q(1) by (auto simp: aref_def)
  have prm: "parameters_of s q = Some best"
    using q(2) by (auto simp: is_best_def candidate_def parameters_of_def bind_eq_Some_conv split: if_splits)
  have "map (\<lambda>r. int r + 1) [0..<MAX_RADARS] = [1, 2]" by (simp add: site_consts upt_rec numeral_2_eq_2)
  then have "controlprogram_fill_parameters g p s = Some (g\<lparr>pr_radar := slot_radar i, pr_channel := slot_channel i,
            pr_current_pulseseq_index := pr_current_pulseseq_index own, pr_priority := pr_priority own,
            pr_tbeam := pr_tbeam best, pr_tbeamcode := pr_tbeamcode best,
            pr_tbeamwidth := pr_tbeamwidth best, pr_tbeamazm := pr_tbeamazm best,
            pr_tfreq := pr_tfreq own, pr_trise := pr_trise own,
            pr_rbeam := pr_rbeam best, pr_rbeamcode := pr_rbeamcode best,
            pr_rbeamwidth := pr_rbeamwidth best, pr_rbeamazm := pr_rbeamazm best,
            pr_rfreq := pr_rfreq own, pr_number_of_samples := pr_number_of_samples own,
            pr_buffer_index := pr_buffer_index own, pr_baseband_samplerate := pr_baseband_samplerate own,
            pr_filter_bandwidth := pr_filter_bandwidth own, pr_match_filter := pr_match_filter own,
            pr_status := pr_status own\<rparr>)"
    unfolding controlprogram_fill_parameters_def by (simp add: best_all_expand b assms(4,5) ri a prm)
  then obtain prm where "controlprogram_fill_parameters g p s = Some prm" "pr_tbeam prm = pr_tbeam best"
    "pr_rbeam prm = pr_rbeam best" "pr_tfreq prm = pr_tfreq own" "pr_rfreq prm = pr_rfreq own"
    "pr_radar prm = slot_radar i" "pr_channel prm = slot_channel i" by simp
  then show ?thesis using q(2) by blast
qed

theorem fill_parameters_best_beam_witness:
  "\<exists>prm q best. controlprogram_fill_parameters idle_prm 7 one_server = Some prm \<and> is_best one_server 2 channel_numbers q best \<and>
    pr_tbeam prm = pr_tbeam best"
proof -
  obtain prm where prm: "cp_parameters new_cp = Some prm" "pr_priority prm = 50" using new_cp_simps(3) by blast
  have "sv_channels one_server ! 4 = Some 7" "slot_radar 4 = 2" "slot_channel 4 = 1"
    "sv_heap one_server 7 = Some (new_cp\<lparr>cp_radarinfo := \<lparr>ri_site = -1, ri_radar = 2, ri_channel = 1\<rparr>\<rparr>)"
    by (simp_all add: one_server_def slot_radar_def slot_channel_def site_consts)
  then show ?thesis
    using fill_parameters_best_beam [OF one_server_inv, of 4 7 "new_cp\<lparr>cp_radarinfo := \<lparr>ri_site = -1, ri_radar = 2, ri_channel = 1\<rparr>\<rparr>" prm idle_prm] prm
    by auto
qed

end
