(* ===== verification/Coordination.thy ===== *)
theory Coordination
  imports Driver_Comm Radar_Channels
begin

text \<open>
  The coordination of a trigger, \<^verbatim>\<open>server/coordination_handler.c\<close>: a program that has become ready
  is marked, and when every active program is ready the four drivers are prepared, the timing
  card is triggered, the time of the event is fetched and the programs go on to processing. The
  handler runs under \<^verbatim>\<open>coord_lock\<close>. The four pretrigger threads run concurrently, each on its own
  socket: \<open>sched\<close> is the order in which they take their turns. The lemmas show when a trigger
  fires, in which order the messages of a trigger go out, that the order of the threads does not
  matter to any driver, and that no program is left ready.
\<close>

section \<open>Model\<close>

definition pretrigger :: "drv \<Rightarrow> server \<Rightarrow> server option" where
  "pretrigger d =
    (case d of RECV \<Rightarrow> receiver_pretrigger | DDS \<Rightarrow> dds_pretrigger | DIO \<Rightarrow> DIO_pretrigger
     | TIMING \<Rightarrow> timing_pretrigger | GPS \<Rightarrow> Some)"

fun run_threads :: "(drv \<Rightarrow> server \<Rightarrow> server option) \<Rightarrow> drv list \<Rightarrow> server \<Rightarrow> server option" where
  "run_threads f [] s = Some s"
| "run_threads f (d # ds) s = Option.bind (f d s) (run_threads f ds)"

text \<open>The walk over the thread list: numbers of active and of ready programs.\<close>

fun count_programs :: "server \<Rightarrow> cpid list \<Rightarrow> (int \<times> int) option" where
  "count_programs s [] = Some (0, 0)"
| "count_programs s (p # ps) = do {
     cp \<leftarrow> sv_heap s p;
     (n, r) \<leftarrow> count_programs s ps;
     if cp_active cp = 1 then do {
       st \<leftarrow> cp_state cp;
       Some (n + 1, if st_ready st = 1 then r + 1 else r)
     } else Some (n, r)
   }"

definition ready_value :: "int \<times> int \<Rightarrow> int" where
  "ready_value nr = (case nr of (n, r) \<Rightarrow> if r = 0 then 0 else if r \<noteq> n then 1 else 2)"

text \<open>A program that is active marks itself ready.\<close>

definition mark_ready :: "cpid \<Rightarrow> server \<Rightarrow> server option" where
  "mark_ready p s = do {
     cp \<leftarrow> sv_heap s p;
     if cp_active cp = 1 then do {
       s1 \<leftarrow> upd_state p (\<lambda>st. st\<lparr>st_ready := 1, st_processing := 0\<rparr>) s;
       prm \<leftarrow> cp_parameters cp;
       tx \<leftarrow> aset (sv_txread s1) (pr_radar prm - 1) 1;
       Some (s1\<lparr>sv_txread := tx, sv_ready_count := sv_ready_count s1 + 1\<rparr>)
     } else Some s
   }"

text \<open>After the event every ready program is processing its data.\<close>

definition start_processing :: "ControlProgram \<Rightarrow> ControlProgram" where
  "start_processing cp =
    (case cp_state cp of
       None \<Rightarrow> cp
     | Some st \<Rightarrow> if st_ready st = 1 then cp\<lparr>cp_state := Some (st\<lparr>st_ready := 0, st_processing := 1\<rparr>)\<rparr> else cp)"

fun release_programs :: "cpid list \<Rightarrow> server \<Rightarrow> server option" where
  "release_programs [] s = Some s"
| "release_programs (p # ps) s =
    (case sv_heap s p of None \<Rightarrow> None | Some cp \<Rightarrow> release_programs ps (upd_cp p start_processing s))"

definition gps_event_time :: "server \<Rightarrow> ((int \<times> int) \<times> server) option" where
  "gps_event_time s = do {
     (sec, s1) \<leftarrow> recv_from rx_int (Driver GPS) (send_to (Driver GPS) (drv_msg GET_EVENT_TIME_code 1) s);
     (nsec, s2) \<leftarrow> recv_from rx_int (Driver GPS) s1;
     (m, s3) \<leftarrow> recv_from rx_msg (Driver GPS) s2;
     Some ((sec, nsec), s3)
   }"

text \<open>The time of the event and the transmitter status, for the program that completed the set.\<close>

definition after_trigger :: "cpid \<Rightarrow> int \<Rightarrow> int \<Rightarrow> server \<Rightarrow> server option" where
  "after_trigger p sec nsec s = do {
     cp \<leftarrow> sv_heap s p;
     if cp_active cp = 1 then do {
       s1 \<leftarrow> upd_state p (\<lambda>st. st\<lparr>st_gpssecond := sec, st_gpsnsecond := nsec\<rparr>) s;
       prm \<leftarrow> cp_parameters cp;
       t \<leftarrow> aref (sv_txread s1) (pr_radar prm - 1);
       if t \<noteq> 0 then do {
         s2 \<leftarrow> DIO_transmitter_status (pr_radar prm) s1;
         tx \<leftarrow> aset (sv_txread s2) (pr_radar prm - 1) 0;
         Some (s2\<lparr>sv_txread := tx\<rparr>)
       } else Some s1
     } else Some s
   }"

definition fire :: "drv list \<Rightarrow> cpid \<Rightarrow> server \<Rightarrow> server option" where
  "fire sched p s = do {
     s1 \<leftarrow> run_threads pretrigger sched s;
     s2 \<leftarrow> timing_trigger (sv_trigger_type s) s1;
     ((sec, nsec), s3) \<leftarrow> gps_event_time s2;
     s4 \<leftarrow> after_trigger p sec nsec s3;
     s5 \<leftarrow> receiver_posttrigger s4;
     s6 \<leftarrow> timing_posttrigger s5;
     release_programs (programs s6) s6
   }"

definition coordination_handler :: "drv list \<Rightarrow> cpid \<Rightarrow> server \<Rightarrow> server option" where
  "coordination_handler sched p s = do {
     s1 \<leftarrow> mark_ready p s;
     ready_state \<leftarrow> (if sv_trigger_state s < 2
                      then map_option ready_value (count_programs s1 (programs s1))
                      else Some (sv_ready_state s));
     if ready_state = 2 then do {
       s2 \<leftarrow> fire sched p s1;
       Some (s2\<lparr>sv_trigger_state := 0, sv_ready_count := 0, sv_ready_state := 0\<rparr>)
     } else Some (s1\<lparr>sv_ready_state := ready_state\<rparr>)
   }"

section \<open>What the conversations change\<close>

text \<open>
  A conversation with a driver leaves the programs, the thread list and the channel table alone.
\<close>

definition comm_frame :: "server \<Rightarrow> server \<Rightarrow> bool" where
  "comm_frame s s' \<longleftrightarrow> sv_heap s' = sv_heap s \<and> sv_threads s' = sv_threads s \<and> sv_channels s' = sv_channels s \<and>
     sv_txread s' = sv_txread s \<and> sv_trigger_type s' = sv_trigger_type s"

lemma comm_frame_refl [simp]: "comm_frame s s"
  by (simp add: comm_frame_def)

lemma comm_frame_trans: "comm_frame s s' \<Longrightarrow> comm_frame s' s'' \<Longrightarrow> comm_frame s s''"
  by (simp add: comm_frame_def)

lemma comm_frame_programs: "comm_frame s s' \<Longrightarrow> programs s' = programs s"
  by (simp add: comm_frame_def programs_def)

lemma request_Some:
  "request d ws s = Some s' \<longleftrightarrow> (\<exists>m rest. rx_msg (sv_in s (Driver d)) = Some (m, rest) \<and>
    s' = s\<lparr>sv_out := sv_out s @ map (Pair (Driver d)) ws, sv_in := (sv_in s)(Driver d := rest)\<rparr>)"
  by (auto simp: request_def recv_from_def send_all_def split: option.splits)

lemma request_frame:
  assumes "request d ws s = Some s'"
  shows "comm_frame s s'" "sv_out s' = sv_out s @ map (Pair (Driver d)) ws"
  using assms by (auto simp: request_Some comm_frame_def)

text \<open>What a pretrigger reads from its socket: the timing driver also sends the transmit times.\<close>

definition pre_in :: "drv \<Rightarrow> wire list \<Rightarrow> (TRTimes option \<times> wire list) option" where
  "pre_in d str =
    (if d = TIMING then do {
       (n, r1) \<leftarrow> rx_int str;
       (start, r2) \<leftarrow> rx_uints n r1;
       (dur, r3) \<leftarrow> rx_uints n r2;
       (m, r4) \<leftarrow> rx_msg r3;
       Some (Some \<lparr>tr_length = n, tr_start_usec = start, tr_duration_usec = dur\<rparr>, r4)
     } else map_option (\<lambda>(m, r). (None, r)) (rx_msg str))"

definition pre_done :: "drv \<Rightarrow> TRTimes option \<times> wire list \<Rightarrow> server \<Rightarrow> server" where
  "pre_done d x s = s\<lparr>sv_bad_times := (case fst x of None \<Rightarrow> sv_bad_times s | Some b \<Rightarrow> b),
     sv_out := sv_out s @ [(Driver d, drv_msg PRETRIGGER_code 1)], sv_in := (sv_in s)(Driver d := snd x)\<rparr>"

lemma pretrigger_eq:
  assumes "d \<noteq> GPS"
  shows "pretrigger d s = map_option (\<lambda>x. pre_done d x s) (pre_in d (sv_in s (Driver d)))"
proof (cases "d = TIMING")
  case True
  show ?thesis
    unfolding True pretrigger_def timing_pretrigger_def
    by (cases "pre_in TIMING (sv_in s (Driver TIMING))")
      (auto simp: pre_in_def pre_done_def recv_from_def send_to_def Let_def bind_eq_None_conv bind_eq_Some_conv
        split: option.splits)
next
  case False
  then show ?thesis
    using assms by (cases d)
      (auto simp: pretrigger_def receiver_pretrigger_def dds_pretrigger_def DIO_pretrigger_def request_def recv_from_def
        send_all_def pre_in_def pre_done_def split: option.splits)
qed

text \<open>All pretriggers, whatever their order: what each reads depends on its own socket only.\<close>

definition all_in :: "drv set \<Rightarrow> (endpoint \<Rightarrow> wire list) \<Rightarrow> bool" where
  "all_in ds str \<longleftrightarrow> (\<forall>d \<in> ds. pre_in d (str (Driver d)) \<noteq> None)"

definition rest_in :: "drv set \<Rightarrow> (endpoint \<Rightarrow> wire list) \<Rightarrow> endpoint \<Rightarrow> wire list" where
  "rest_in ds str e =
    (case e of Driver d \<Rightarrow> (if d \<in> ds then snd (the (pre_in d (str e))) else str e) | Client _ \<Rightarrow> str e)"

definition times_in :: "drv set \<Rightarrow> (endpoint \<Rightarrow> wire list) \<Rightarrow> TRTimes \<Rightarrow> TRTimes" where
  "times_in ds str b =
    (if TIMING \<in> ds then (case fst (the (pre_in TIMING (str (Driver TIMING)))) of None \<Rightarrow> b | Some b' \<Rightarrow> b') else b)"

lemma run_pretriggers:
  assumes "distinct sched" "GPS \<notin> set sched"
  shows "run_threads pretrigger sched s =
    (if all_in (set sched) (sv_in s)
     then Some (s\<lparr>sv_bad_times := times_in (set sched) (sv_in s) (sv_bad_times s),
            sv_out := sv_out s @ map (\<lambda>d. (Driver d, drv_msg PRETRIGGER_code 1)) sched,
            sv_in := rest_in (set sched) (sv_in s)\<rparr>)
     else None)"
  using assms
proof (induction sched arbitrary: s)
  case Nil
  have "rest_in {} (sv_in s) = sv_in s" by (auto simp: rest_in_def fun_eq_iff split: endpoint.split)
  then show ?case by (simp add: all_in_def times_in_def)
next
  case (Cons d ds)
  show ?case
  proof (cases "pre_in d (sv_in s (Driver d))")
    case None
    have "d \<noteq> GPS" using Cons.prems by auto
    with None show ?thesis using pretrigger_eq [of d s] by (simp add: all_in_def)
  next
    case (Some x)
    let ?s1 = "pre_done d x s"
    have d: "d \<noteq> GPS" "d \<notin> set ds" using Cons.prems by auto
    have same: "sv_in ?s1 (Driver d') = sv_in s (Driver d')" if "d' \<in> set ds" for d'
      using that d(2) by (auto simp: pre_done_def)
    have in1: "all_in (set ds) (sv_in ?s1) = all_in (set (d # ds)) (sv_in s)"
      using same Some by (simp add: all_in_def)
    have rest1: "rest_in (set ds) (sv_in ?s1) = rest_in (set (d # ds)) (sv_in s)"
    proof
      fix e show "rest_in (set ds) (sv_in ?s1) e = rest_in (set (d # ds)) (sv_in s) e"
        using same Some d by (cases e) (auto simp: rest_in_def pre_done_def)
    qed
    have x: "d \<noteq> TIMING \<Longrightarrow> fst x = None" using Some by (auto simp: pre_in_def)
    have times1: "times_in (set ds) (sv_in ?s1) (sv_bad_times ?s1) = times_in (set (d # ds)) (sv_in s) (sv_bad_times s)"
    proof (cases "d = TIMING")
      case True
      then show ?thesis using Some d(2) by (simp add: times_in_def pre_done_def)
    next
      case False
      then show ?thesis using x same [of TIMING] by (auto simp: times_in_def pre_done_def)
    qed
    have "run_threads pretrigger (d # ds) s = run_threads pretrigger ds ?s1"
      using pretrigger_eq [OF d(1), of s] Some by simp
    also have "\<dots> = (if all_in (set ds) (sv_in ?s1)
       then Some (?s1\<lparr>sv_bad_times := times_in (set ds) (sv_in ?s1) (sv_bad_times ?s1),
            sv_out := sv_out ?s1 @ map (\<lambda>d. (Driver d, drv_msg PRETRIGGER_code 1)) ds,
            sv_in := rest_in (set ds) (sv_in ?s1)\<rparr>) else None)"
      using Cons.IH [of ?s1] Cons.prems by simp
    also have "\<dots> = (if all_in (set (d # ds)) (sv_in s)
       then Some (s\<lparr>sv_bad_times := times_in (set (d # ds)) (sv_in s) (sv_bad_times s),
            sv_out := sv_out s @ map (\<lambda>d. (Driver d, drv_msg PRETRIGGER_code 1)) (d # ds),
            sv_in := rest_in (set (d # ds)) (sv_in s)\<rparr>) else None)"
      unfolding in1 rest1 times1 by (simp add: pre_done_def)
    finally show ?thesis .
  qed
qed


section \<open>Readiness\<close>

definition is_active :: "server \<Rightarrow> cpid \<Rightarrow> bool" where
  "is_active s p \<longleftrightarrow> (\<exists>cp. sv_heap s p = Some cp \<and> cp_active cp = 1)"

definition is_ready :: "server \<Rightarrow> cpid \<Rightarrow> bool" where
  "is_ready s p \<longleftrightarrow> (\<exists>cp st. sv_heap s p = Some cp \<and> cp_state cp = Some st \<and> st_ready st = 1)"

text \<open>Every listed program exists, and an active one has its state.\<close>

definition progs_ok :: "server \<Rightarrow> bool" where
  "progs_ok s \<longleftrightarrow> (\<forall>p \<in> set (programs s). \<exists>cp. sv_heap s p = Some cp \<and> (cp_active cp = 1 \<longrightarrow> cp_state cp \<noteq> None))"

lemma count_programs_eq:
  assumes "\<forall>p \<in> set ps. \<exists>cp. sv_heap s p = Some cp \<and> (cp_active cp = 1 \<longrightarrow> cp_state cp \<noteq> None)"
  shows "count_programs s ps = Some (int (length (filter (is_active s) ps)),
    int (length (filter (\<lambda>p. is_active s p \<and> is_ready s p) ps)))"
  using assms
proof (induction ps)
  case Nil
  then show ?case by simp
next
  case (Cons p ps)
  then obtain cp where cp: "sv_heap s p = Some cp" "cp_active cp = 1 \<longrightarrow> cp_state cp \<noteq> None" by auto
  show ?case
  proof (cases "cp_active cp = 1")
    case True
    then obtain st where "cp_state cp = Some st" using cp(2) by auto
    then show ?thesis using Cons True cp(1) by (simp add: is_active_def is_ready_def)
  next
    case False
    then show ?thesis using Cons cp(1) by (simp add: is_active_def)
  qed
qed

lemma filter_sub_length:
  "length (filter (\<lambda>x. P x \<and> Q x) xs) = length (filter P xs) \<longleftrightarrow> (\<forall>x \<in> set xs. P x \<longrightarrow> Q x)"
proof (induction xs)
  case (Cons x xs)
  have "length (filter (\<lambda>x. P x \<and> Q x) xs) \<le> length (filter P xs)" by (induction xs) auto
  then show ?case using Cons by auto
qed simp

text \<open>All active programs are ready, and there is one.\<close>

definition all_ready :: "server \<Rightarrow> bool" where
  "all_ready s \<longleftrightarrow> (\<exists>p \<in> set (programs s). is_active s p) \<and> (\<forall>p \<in> set (programs s). is_active s p \<longrightarrow> is_ready s p)"

lemma ready_value_all_ready:
  assumes "progs_ok s"
  shows "\<exists>v. map_option ready_value (count_programs s (programs s)) = Some v \<and> (v = 2 \<longleftrightarrow> all_ready s)"
proof -
  let ?a = "length (filter (is_active s) (programs s))"
  let ?r = "length (filter (\<lambda>p. is_active s p \<and> is_ready s p) (programs s))"
  have c: "count_programs s (programs s) = Some (int ?a, int ?r)"
    using assms count_programs_eq [of "programs s" s] by (simp add: progs_ok_def)
  have "?r = ?a \<longleftrightarrow> (\<forall>p \<in> set (programs s). is_active s p \<longrightarrow> is_ready s p)" by (rule filter_sub_length)
  moreover have "?a \<noteq> 0 \<longleftrightarrow> (\<exists>p \<in> set (programs s). is_active s p)" by (auto simp: filter_empty_conv)
  ultimately show ?thesis using c by (auto simp: ready_value_def all_ready_def)
qed

text \<open>Marking a program.\<close>

lemma mark_ready_cases:
  assumes "mark_ready p s = Some s1"
  obtains (inactive) cp where "sv_heap s p = Some cp" "cp_active cp \<noteq> 1" "s1 = s"
  | (active) cp st prm tx where "sv_heap s p = Some cp" "cp_active cp = 1" "cp_state cp = Some st" "cp_parameters cp = Some prm"
      "aset (sv_txread s) (pr_radar prm - 1) 1 = Some tx"
      "s1 = s\<lparr>sv_heap := (sv_heap s)(p \<mapsto> cp\<lparr>cp_state := Some (st\<lparr>st_ready := 1, st_processing := 0\<rparr>)\<rparr>),
         sv_txread := tx, sv_ready_count := sv_ready_count s + 1\<rparr>"
proof -
  obtain cp where cp: "sv_heap s p = Some cp" using assms by (auto simp: mark_ready_def bind_eq_Some_conv)
  show thesis
  proof (cases "cp_active cp = 1")
    case False
    then show thesis using inactive assms cp by (simp add: mark_ready_def)
  next
    case True
    then obtain st prm tx where "cp_state cp = Some st" "cp_parameters cp = Some prm"
      "aset (sv_txread s) (pr_radar prm - 1) 1 = Some tx"
      "s1 = s\<lparr>sv_heap := (sv_heap s)(p \<mapsto> cp\<lparr>cp_state := Some (st\<lparr>st_ready := 1, st_processing := 0\<rparr>)\<rparr>),
         sv_txread := tx, sv_ready_count := sv_ready_count s + 1\<rparr>"
      using assms cp by (auto simp: mark_ready_def bind_eq_Some_conv upd_state_def state_of_def upd_cp_def split: option.splits)
    then show thesis using active cp True by blast
  qed
qed

lemma mark_ready_Some:
  assumes "mark_ready p s = Some s1"
  shows "programs s1 = programs s" "sv_out s1 = sv_out s" "sv_in s1 = sv_in s" "sv_trigger_type s1 = sv_trigger_type s"
    "sv_trigger_state s1 = sv_trigger_state s" "sv_channels s1 = sv_channels s" "sv_txstatus s1 = sv_txstatus s"
  by (rule mark_ready_cases [OF assms]; simp add: programs_def)+

lemma mark_ready_flags:
  assumes "mark_ready p s = Some s1"
  shows "is_active s1 q = is_active s q" "is_ready s1 q \<longleftrightarrow> is_ready s q \<or> q = p \<and> is_active s p"
  by (rule mark_ready_cases [OF assms]; auto simp: is_active_def is_ready_def)+

lemma mark_ready_progs:
  assumes "mark_ready p s = Some s1" "progs_ok s"
  shows "progs_ok s1"
  by (rule mark_ready_cases [OF assms(1)]) (use assms(2) in \<open>auto simp: progs_ok_def programs_def\<close>)

text \<open>Releasing the programs.\<close>

lemma release_programs_ok:
  assumes "\<forall>p \<in> set ps. sv_heap s p \<noteq> None"
  shows "\<exists>s'. release_programs ps s = Some s' \<and> sv_out s' = sv_out s \<and> programs s' = programs s \<and> sv_in s' = sv_in s \<and>
    sv_bad_times s' = sv_bad_times s \<and> sv_txstatus s' = sv_txstatus s \<and>
    (\<forall>q. sv_heap s' q = (if q \<in> set ps then map_option start_processing (sv_heap s q) else sv_heap s q))"
  using assms
proof (induction ps arbitrary: s)
  case Nil
  then show ?case by simp
next
  case (Cons p ps)
  then obtain cp where cp: "sv_heap s p = Some cp" by auto
  have twice: "start_processing (start_processing cp) = start_processing cp" for cp
    by (auto simp: start_processing_def split: option.splits)
  let ?s1 = "upd_cp p start_processing s"
  have "\<forall>q \<in> set ps. sv_heap ?s1 q \<noteq> None" using Cons.prems by auto
  from Cons.IH [OF this] obtain s' where s': "release_programs ps ?s1 = Some s'" "sv_out s' = sv_out s"
      "programs s' = programs s" "sv_in s' = sv_in s" "sv_bad_times s' = sv_bad_times s" "sv_txstatus s' = sv_txstatus s"
      "\<forall>q. sv_heap s' q = (if q \<in> set ps then map_option start_processing (sv_heap ?s1 q) else sv_heap ?s1 q)"
    by auto
  have "\<forall>q. sv_heap s' q = (if q \<in> set (p # ps) then map_option start_processing (sv_heap s q) else sv_heap s q)"
    using s'(7) cp twice by auto
  then show ?case using s' cp by auto
qed

lemma start_processing_ready: "start_processing cp = cp' \<Longrightarrow> cp_state cp' = Some st \<Longrightarrow> st_ready st \<noteq> 1"
  by (auto simp: start_processing_def split: option.splits if_splits)


section \<open>A trigger\<close>

definition tx_items :: "int \<Rightarrow> (endpoint \<times> wire) list" where
  "tx_items radar = [(Driver DIO, drv_msg GET_TX_STATUS_code 1), (Driver DIO, W_int radar)]"

definition trigger_trace :: "drv list \<Rightarrow> int \<Rightarrow> (endpoint \<times> wire) list \<Rightarrow> (endpoint \<times> wire) list" where
  "trigger_trace sched tt tx = map (\<lambda>d. (Driver d, drv_msg PRETRIGGER_code 1)) sched @
     [(Driver TIMING, drv_msg (if tt = 2 then GPS_TRIGGER_code else TRIGGER_code) 1),
      (Driver GPS, drv_msg GET_EVENT_TIME_code 1)] @ tx @
     [(Driver RECV, drv_msg POSTTRIGGER_code 1), (Driver TIMING, drv_msg POSTTRIGGER_code 1)]"

lemma timing_trigger_Some:
  assumes "timing_trigger tt s = Some s'"
  shows "comm_frame s s'" "sv_out s' = sv_out s @ [(Driver TIMING, drv_msg (if tt = 2 then GPS_TRIGGER_code else TRIGGER_code) 1)]"
  using assms request_frame by (auto simp: timing_trigger_def split: if_splits)

lemma gps_event_time_Some:
  assumes "gps_event_time s = Some (x, s')"
  shows "comm_frame s s'" "sv_out s' = sv_out s @ [(Driver GPS, drv_msg GET_EVENT_TIME_code 1)]"
  using assms by (auto simp: gps_event_time_def bind_eq_Some_conv recv_from_Some comm_frame_def send_to_def)

lemma transmitter_status_Some:
  assumes "DIO_transmitter_status radar s = Some s'"
  shows "comm_frame s s'" "sv_out s' = sv_out s @ tx_items radar"
  using assms by (auto simp: DIO_transmitter_status_def Let_def bind_eq_Some_conv recv_from_Some comm_frame_def tx_items_def send_all_def)

lemma upd_state_Some:
  assumes "upd_state p f s = Some s'"
  obtains cp st where "sv_heap s p = Some cp" "cp_state cp = Some st"
    "s' = s\<lparr>sv_heap := (sv_heap s)(p \<mapsto> cp\<lparr>cp_state := Some (f st)\<rparr>)\<rparr>"
  using assms by (auto simp: upd_state_def state_of_def upd_cp_def bind_eq_Some_conv split: option.splits)

lemma after_trigger_Some:
  assumes "after_trigger p sec nsec s = Some s'"
  shows "programs s' = programs s" "(\<forall>q. sv_heap s' q = None \<longleftrightarrow> sv_heap s q = None)"
    "\<exists>tx. sv_out s' = sv_out s @ tx \<and> (tx = [] \<or> (\<exists>radar. tx = tx_items radar))"
proof -
  obtain cp where cp: "sv_heap s p = Some cp" using assms by (auto simp: after_trigger_def bind_eq_Some_conv)
  have "programs s' = programs s \<and> (\<forall>q. sv_heap s' q = None \<longleftrightarrow> sv_heap s q = None) \<and>
    (\<exists>tx. sv_out s' = sv_out s @ tx \<and> (tx = [] \<or> (\<exists>radar. tx = tx_items radar)))"
  proof (cases "cp_active cp = 1")
    case False
    then have "s' = s" using assms cp by (simp add: after_trigger_def)
    then show ?thesis by auto
  next
    case True
    then obtain s1 and prm :: ControlPRM and t :: int where s1: "upd_state p (\<lambda>st. st\<lparr>st_gpssecond := sec, st_gpsnsecond := nsec\<rparr>) s = Some s1"
      "(if t \<noteq> 0 then do {
         s2 \<leftarrow> DIO_transmitter_status (pr_radar prm) s1;
         tx \<leftarrow> aset (sv_txread s2) (pr_radar prm - 1) 0;
         Some (s2\<lparr>sv_txread := tx\<rparr>) } else Some s1) = Some s'"
      using assms cp unfolding after_trigger_def by (simp add: bind_eq_Some_conv split del: if_split) blast
    have f1: "programs s1 = programs s" "\<forall>q. sv_heap s1 q = None \<longleftrightarrow> sv_heap s q = None" "sv_out s1 = sv_out s"
      by (rule upd_state_Some [OF s1(1)]; auto simp: programs_def)+
    have "programs s' = programs s1 \<and> sv_heap s' = sv_heap s1 \<and>
      (\<exists>tx. sv_out s' = sv_out s1 @ tx \<and> (tx = [] \<or> (\<exists>radar. tx = tx_items radar)))"
    proof (cases "t \<noteq> 0")
      case True
      then obtain s2 tx where s2: "DIO_transmitter_status (pr_radar prm) s1 = Some s2" "s' = s2\<lparr>sv_txread := tx\<rparr>"
        using s1(2) by (auto simp: bind_eq_Some_conv)
      then show ?thesis using transmitter_status_Some [OF s2(1)] by (auto simp: comm_frame_def programs_def)
    next
      case False
      then show ?thesis using s1(2) by auto
    qed
    then show ?thesis using f1 by auto
  qed
  then show "programs s' = programs s" "(\<forall>q. sv_heap s' q = None \<longleftrightarrow> sv_heap s q = None)"
    "\<exists>tx. sv_out s' = sv_out s @ tx \<and> (tx = [] \<or> (\<exists>radar. tx = tx_items radar))" by blast+
qed

lemma fire_Some:
  assumes "fire sched p s = Some s'" "distinct sched" "GPS \<notin> set sched" "progs_ok s"
  shows "\<exists>tx. sv_out s' = sv_out s @ trigger_trace sched (sv_trigger_type s) tx \<and> (tx = [] \<or> (\<exists>radar. tx = tx_items radar))"
    "programs s' = programs s" "\<forall>q \<in> set (programs s'). \<not> is_ready s' q"
proof -
  obtain s1 s2 sec nsec s3 s4 s5 s6 where st:
    "run_threads pretrigger sched s = Some s1" "timing_trigger (sv_trigger_type s) s1 = Some s2"
    "gps_event_time s2 = Some ((sec, nsec), s3)" "after_trigger p sec nsec s3 = Some s4"
    "receiver_posttrigger s4 = Some s5" "timing_posttrigger s5 = Some s6" "release_programs (programs s6) s6 = Some s'"
    using assms(1) by (auto simp: fire_def bind_eq_Some_conv)
  have f1: "comm_frame s s1" "sv_out s1 = sv_out s @ map (\<lambda>d. (Driver d, drv_msg PRETRIGGER_code 1)) sched"
    using st(1) run_pretriggers [OF assms(2,3), of s] by (auto simp: comm_frame_def split: if_splits)
  note f2 = timing_trigger_Some [OF st(2)] and f3 = gps_event_time_Some [OF st(3)] and f4 = after_trigger_Some [OF st(4)]
  note f5 = request_frame [OF st(5) [unfolded receiver_posttrigger_def]] and f6 = request_frame [OF st(6) [unfolded timing_posttrigger_def]]
  have c3: "comm_frame s s3" using f1(1) f2(1) f3(1) comm_frame_trans by blast
  have c6: "comm_frame s4 s6" using f5(1) f6(1) comm_frame_trans by blast
  have pr: "programs s6 = programs s" using f4(1) comm_frame_programs [OF c3] comm_frame_programs [OF c6] by simp
  have ex: "\<forall>q \<in> set (programs s6). sv_heap s6 q \<noteq> None"
  proof
    fix q assume "q \<in> set (programs s6)"
    then have "sv_heap s q \<noteq> None" using assms(4) pr by (auto simp: progs_ok_def)
    then show "sv_heap s6 q \<noteq> None" using c3 c6 f4(2) by (simp add: comm_frame_def)
  qed
  obtain s'' where r: "release_programs (programs s6) s6 = Some s''" "sv_out s'' = sv_out s6" "programs s'' = programs s6"
    "\<forall>q. sv_heap s'' q = (if q \<in> set (programs s6) then map_option start_processing (sv_heap s6 q) else sv_heap s6 q)"
    using release_programs_ok [OF ex] by blast
  have s': "s'' = s'" using r(1) st(7) by simp
  obtain tx where tx: "sv_out s4 = sv_out s3 @ tx" "tx = [] \<or> (\<exists>radar. tx = tx_items radar)" using f4(3) by blast
  have "sv_out s' = sv_out s @ trigger_trace sched (sv_trigger_type s) tx"
    using r(2) s' f6(2) f5(2) tx(1) f3(2) f2(2) f1(2) by (simp add: trigger_trace_def)
  then show "\<exists>tx. sv_out s' = sv_out s @ trigger_trace sched (sv_trigger_type s) tx \<and> (tx = [] \<or> (\<exists>radar. tx = tx_items radar))"
    using tx(2) by blast
  show "programs s' = programs s" using r(3) s' pr by simp
  show "\<forall>q \<in> set (programs s'). \<not> is_ready s' q"
    using r(3,4) s' start_processing_ready by (fastforce simp: is_ready_def)
qed

section \<open>Properties\<close>

text \<open>
  The condition for a trigger, on the state before the call: with the calling program counted as
  ready when it is active, every active program in the list is ready, and there is one.
\<close>

definition will_fire :: "cpid \<Rightarrow> server \<Rightarrow> bool" where
  "will_fire p s \<longleftrightarrow> (\<exists>q \<in> set (programs s). is_active s q) \<and>
     (\<forall>q \<in> set (programs s). is_active s q \<longrightarrow> is_ready s q \<or> q = p)"

lemma will_fire_marked:
  assumes "mark_ready p s = Some s1"
  shows "will_fire p s \<longleftrightarrow> all_ready s1"
  using mark_ready_Some(1) [OF assms] mark_ready_flags [OF assms] by (auto simp: will_fire_def all_ready_def)

text \<open>
  C2: when a trigger fires and what it sends. The coordination handler triggers exactly when every
  active program is ready, the caller included; then the messages go out in the order
  pretrigger of all drivers, trigger of the timing card, GPS event time, transmitter status,
  posttrigger of the receiver, posttrigger of the timing card, and afterwards no program of the
  list is ready. Otherwise nothing is sent at all.
\<close>

theorem coordination_fires_iff_all_ready:
  assumes "coordination_handler sched p s = Some s'" "distinct sched" "GPS \<notin> set sched" "progs_ok s" "sv_trigger_state s < 2"
  shows "if will_fire p s
    then (\<exists>tx. sv_out s' = sv_out s @ trigger_trace sched (sv_trigger_type s) tx \<and> (tx = [] \<or> (\<exists>radar. tx = tx_items radar))) \<and>
         (\<forall>q \<in> set (programs s'). \<not> is_ready s' q) \<and> sv_ready_state s' = 0
    else sv_out s' = sv_out s \<and> sv_ready_state s' \<noteq> 2"
proof -
  obtain s1 where s1: "mark_ready p s = Some s1" using assms(1) by (auto simp: coordination_handler_def bind_eq_Some_conv)
  have ok: "progs_ok s1" using mark_ready_progs [OF s1 assms(4)] .
  obtain v where v: "map_option ready_value (count_programs s1 (programs s1)) = Some v" "v = 2 \<longleftrightarrow> will_fire p s"
    using ready_value_all_ready [OF ok] will_fire_marked [OF s1] by blast
  note m = mark_ready_Some [OF s1]
  have run: "coordination_handler sched p s = (if v = 2 then do {
       s2 \<leftarrow> fire sched p s1; Some (s2\<lparr>sv_trigger_state := 0, sv_ready_count := 0, sv_ready_state := 0\<rparr>)
     } else Some (s1\<lparr>sv_ready_state := v\<rparr>))"
  proof -
    obtain a b where "count_programs s1 (programs s1) = Some (a, b)" "ready_value (a, b) = v" using v(1) by auto
    then show ?thesis using s1 assms(5) by (simp add: coordination_handler_def)
  qed
  show ?thesis
  proof (cases "will_fire p s")
    case True
    have "Option.bind (fire sched p s1) (\<lambda>s2. Some (s2\<lparr>sv_trigger_state := 0, sv_ready_count := 0, sv_ready_state := 0\<rparr>)) = Some s'"
      using run assms(1) v(2) True by simp
    then obtain s2 where s2: "fire sched p s1 = Some s2" "s' = s2\<lparr>sv_trigger_state := 0, sv_ready_count := 0, sv_ready_state := 0\<rparr>"
      by (auto simp: bind_eq_Some_conv)
    have "\<forall>q \<in> set (programs s'). \<not> is_ready s' q"
      using fire_Some(3) [OF s2(1) assms(2,3) ok] s2(2) by (simp add: programs_def is_ready_def)
    then show ?thesis using fire_Some(1) [OF s2(1) assms(2,3) ok] s2(2) m(2,4) True by auto
  next
    case False
    then show ?thesis using run assms(1) v(2) m(2) by auto
  qed
qed

text \<open>
  C38: the order of the pretrigger threads does not matter. Any two schedules of the same drivers
  succeed together, leave the same state apart from the interleaving of the sockets, and send
  every endpoint the same items.
\<close>

theorem pretrigger_order_irrelevant:
  assumes "distinct sched" "distinct sched'" "set sched = set sched'" "GPS \<notin> set sched"
  shows "map_option (\<lambda>s'. s'\<lparr>sv_out := []\<rparr>) (run_threads pretrigger sched s) =
      map_option (\<lambda>s'. s'\<lparr>sv_out := []\<rparr>) (run_threads pretrigger sched' s) \<and>
    map_option (sent_to e) (run_threads pretrigger sched s) = map_option (sent_to e) (run_threads pretrigger sched' s)"
proof -
  have G': "GPS \<notin> set sched'" using assms(3,4) by simp
  have "length (filter (\<lambda>d. Driver d = e) xs) = (if \<exists>d \<in> set xs. Driver d = e then 1 else 0)" if "distinct xs" for xs
    using that by (induction xs) auto
  then have "length (filter (\<lambda>d. Driver d = e) sched) = length (filter (\<lambda>d. Driver d = e) sched')"
    using assms(1-3) by simp
  then have "map snd (filter (\<lambda>x. fst x = e) (map (\<lambda>d. (Driver d, w)) sched)) =
      map snd (filter (\<lambda>x. fst x = e) (map (\<lambda>d. (Driver d, w)) sched'))" for w :: wire
    by (simp add: filter_map o_def map_replicate_const)
  then show ?thesis
    unfolding run_pretriggers [OF assms(1,4)] run_pretriggers [OF assms(2) G'] assms(3) by (simp add: sent_to_def)
qed

theorem pretrigger_order_irrelevant_witness:
  "\<forall>s. map_option (sent_to (Driver DIO)) (run_threads pretrigger [RECV, DDS, DIO, TIMING] s) =
     map_option (sent_to (Driver DIO)) (run_threads pretrigger [TIMING, DIO, DDS, RECV] s)"
  using pretrigger_order_irrelevant [of "[RECV, DDS, DIO, TIMING]" "[TIMING, DIO, DDS, RECV]" _ "Driver DIO"] by auto


text \<open>The answers of the drivers to one trigger, with what follows them on each socket.\<close>

record trigger_answer =
  ta_times :: TRTimes
  ta_tx :: tx_status
  ta_sec :: int
  ta_nsec :: int

definition answers :: "trigger_answer \<Rightarrow> (drv \<Rightarrow> wire list) \<Rightarrow> server \<Rightarrow> bool" where
  "answers a rest s \<longleftrightarrow>
     tr_length (ta_times a) = int (length (tr_start_usec (ta_times a))) \<and>
     tr_length (ta_times a) = int (length (tr_duration_usec (ta_times a))) \<and>
     (\<exists>m1 m2. sv_in s (Driver RECV) = W_DriverMsg m1 # W_DriverMsg m2 # rest RECV) \<and>
     (\<exists>m1. sv_in s (Driver DDS) = W_DriverMsg m1 # rest DDS) \<and>
     (\<exists>m1 m2. sv_in s (Driver DIO) = W_DriverMsg m1 # W_tx (ta_tx a) # W_DriverMsg m2 # rest DIO) \<and>
     (\<exists>m1 m2 m3. sv_in s (Driver TIMING) = W_int (tr_length (ta_times a)) # W_uints (tr_start_usec (ta_times a)) #
        W_uints (tr_duration_usec (ta_times a)) # W_DriverMsg m1 # W_DriverMsg m2 # W_DriverMsg m3 # rest TIMING) \<and>
     (\<exists>m1. sv_in s (Driver GPS) = W_int (ta_sec a) # W_int (ta_nsec a) # W_DriverMsg m1 # rest GPS)"

lemma request_ok:
  assumes "sv_in s (Driver d) = W_DriverMsg m # r"
  shows "\<exists>s'. request d ws s = Some s' \<and> comm_frame s s' \<and> sv_in s' = (sv_in s)(Driver d := r) \<and>
    sv_bad_times s' = sv_bad_times s \<and> sv_txstatus s' = sv_txstatus s"
  using assms by (simp add: request_def recv_from_def send_all_def comm_frame_def)

lemma all_drivers: "(\<forall>d. d \<noteq> GPS \<longrightarrow> P d) \<longleftrightarrow> P RECV \<and> P DDS \<and> P DIO \<and> P TIMING"
  by (metis drv.exhaust drv.distinct)

lemma run_pretriggers_ok:
  assumes "distinct sched" "set sched = {RECV, DDS, DIO, TIMING}" "answers a rest s"
  obtains s1 mr md mt1 mt2 where "run_threads pretrigger sched s = Some s1" "comm_frame s s1" "sv_bad_times s1 = ta_times a"
    "sv_txstatus s1 = sv_txstatus s" "sv_in s1 (Driver RECV) = W_DriverMsg mr # rest RECV" "sv_in s1 (Driver DDS) = rest DDS"
    "sv_in s1 (Driver DIO) = W_tx (ta_tx a) # W_DriverMsg md # rest DIO"
    "sv_in s1 (Driver TIMING) = W_DriverMsg mt1 # W_DriverMsg mt2 # rest TIMING" "sv_in s1 (Driver GPS) = sv_in s (Driver GPS)"
proof -
  obtain mr0 mr mdd md0 md mt0 mt1 mt2 where i:
    "sv_in s (Driver RECV) = W_DriverMsg mr0 # W_DriverMsg mr # rest RECV" "sv_in s (Driver DDS) = W_DriverMsg mdd # rest DDS"
    "sv_in s (Driver DIO) = W_DriverMsg md0 # W_tx (ta_tx a) # W_DriverMsg md # rest DIO"
    "sv_in s (Driver TIMING) = W_int (tr_length (ta_times a)) # W_uints (tr_start_usec (ta_times a)) #
        W_uints (tr_duration_usec (ta_times a)) # W_DriverMsg mt0 # W_DriverMsg mt1 # W_DriverMsg mt2 # rest TIMING"
    using assms(3) by (auto simp: answers_def)
  have n: "tr_length (ta_times a) = int (length (tr_start_usec (ta_times a)))" "tr_length (ta_times a) = int (length (tr_duration_usec (ta_times a)))"
    using assms(3) by (auto simp: answers_def)
  have pre: "pre_in RECV (sv_in s (Driver RECV)) = Some (None, W_DriverMsg mr # rest RECV)"
    "pre_in DDS (sv_in s (Driver DDS)) = Some (None, rest DDS)"
    "pre_in DIO (sv_in s (Driver DIO)) = Some (None, W_tx (ta_tx a) # W_DriverMsg md # rest DIO)"
    "pre_in TIMING (sv_in s (Driver TIMING)) = Some (Some (ta_times a), W_DriverMsg mt1 # W_DriverMsg mt2 # rest TIMING)"
    using i n by (simp_all add: pre_in_def)
  let ?s1 = "s\<lparr>sv_bad_times := times_in (set sched) (sv_in s) (sv_bad_times s),
            sv_out := sv_out s @ map (\<lambda>d. (Driver d, drv_msg PRETRIGGER_code 1)) sched, sv_in := rest_in (set sched) (sv_in s)\<rparr>"
  have "all_in (set sched) (sv_in s)" using pre assms(2) by (simp add: all_in_def)
  moreover have "GPS \<notin> set sched" using assms(2) by simp
  ultimately have "run_threads pretrigger sched s = Some ?s1" using run_pretriggers [OF assms(1)] by simp
  then show thesis
    by (rule that) (use pre assms(2) in \<open>simp_all add: comm_frame_def times_in_def rest_in_def\<close>)
qed

text \<open>The exchange with the drivers up to the event time.\<close>

lemma trigger_exchange:
  assumes "distinct sched" "set sched = {RECV, DDS, DIO, TIMING}" "answers a rest s" "ty \<in> {0, 1, 2}"
  obtains s2 s3 s4 mr md mt where "run_threads pretrigger sched s = Some s2" "timing_trigger ty s2 = Some s3"
    "gps_event_time s3 = Some ((ta_sec a, ta_nsec a), s4)" "comm_frame s s4" "sv_bad_times s4 = ta_times a"
    "sv_txstatus s4 = sv_txstatus s" "sv_in s4 (Driver DIO) = W_tx (ta_tx a) # W_DriverMsg md # rest DIO"
    "sv_in s4 (Driver DDS) = rest DDS" "sv_in s4 (Driver RECV) = W_DriverMsg mr # rest RECV"
    "sv_in s4 (Driver TIMING) = W_DriverMsg mt # rest TIMING" "sv_in s4 (Driver GPS) = rest GPS"
proof -
  obtain s2 mr md mt1 mt2 where s2: "run_threads pretrigger sched s = Some s2" "comm_frame s s2" "sv_bad_times s2 = ta_times a"
    "sv_txstatus s2 = sv_txstatus s" "sv_in s2 (Driver RECV) = W_DriverMsg mr # rest RECV" "sv_in s2 (Driver DDS) = rest DDS"
    "sv_in s2 (Driver DIO) = W_tx (ta_tx a) # W_DriverMsg md # rest DIO"
    "sv_in s2 (Driver TIMING) = W_DriverMsg mt1 # W_DriverMsg mt2 # rest TIMING" "sv_in s2 (Driver GPS) = sv_in s (Driver GPS)"
    by (rule run_pretriggers_ok [OF assms(1-3)])
  let ?m = "if ty = 2 then GPS_TRIGGER_code else TRIGGER_code"
  have tt: "timing_trigger ty s2 = request TIMING [drv_msg ?m 1] s2"
    using assms(4) by (auto simp: timing_trigger_def)
  obtain s3 where s3: "timing_trigger ty s2 = Some s3" "comm_frame s2 s3"
    "sv_in s3 = (sv_in s2)(Driver TIMING := W_DriverMsg mt2 # rest TIMING)" "sv_bad_times s3 = ta_times a" "sv_txstatus s3 = sv_txstatus s"
    using request_ok [OF s2(8), of "[drv_msg ?m 1]"] unfolding tt s2(3,4) by blast
  obtain mg where g: "sv_in s3 (Driver GPS) = W_int (ta_sec a) # W_int (ta_nsec a) # W_DriverMsg mg # rest GPS"
    using s3(3) s2(9) assms(3) by (auto simp: answers_def)
  obtain s4 where s4: "gps_event_time s3 = Some ((ta_sec a, ta_nsec a), s4)" "comm_frame s3 s4"
    "sv_in s4 = (sv_in s3)(Driver GPS := rest GPS)" "sv_bad_times s4 = ta_times a" "sv_txstatus s4 = sv_txstatus s"
    using g s3(4,5) by (simp add: gps_event_time_def recv_from_def send_to_def comm_frame_def)
  have "comm_frame s s4" using s2(2) s3(2) s4(2) comm_frame_trans by blast
  then show thesis
    using that [OF s2(1) s3(1) s4(1), where md = md and mr = mr and mt = mt2] s4(3-5) s3(3) s2(5-8) by simp
qed

text \<open>The whole call, step by step.\<close>

lemma coordination_run:
  assumes "distinct sched" "set sched = {RECV, DDS, DIO, TIMING}" "answers a rest s" "progs_ok s" "sv_trigger_state s < 2"
    "sv_trigger_type s \<in> {0, 1, 2}" "will_fire p s" "p \<in> set (programs s)"
    "sv_heap s p = Some cp" "cp_active cp = 1" "cp_parameters cp = Some prm"
    "1 \<le> pr_radar prm" "pr_radar prm \<le> int (length (sv_txread s))" "pr_radar prm \<le> int (length (sv_txstatus s))"
  shows "\<exists>s' st'. coordination_handler sched p s = Some s' \<and> sv_bad_times s' = ta_times a \<and>
    aref (sv_txstatus s') (pr_radar prm - 1) = Some (ta_tx a) \<and> state_of s' p = Some st' \<and>
    st_gpssecond st' = ta_sec a \<and> st_gpsnsecond st' = ta_nsec a \<and> st_ready st' = 0 \<and> st_processing st' = 1 \<and>
    (\<forall>d. sv_in s' (Driver d) = rest d) \<and> sv_out s' = sv_out s @ trigger_trace sched (sv_trigger_type s) (tx_items (pr_radar prm))"
proof -
  obtain st where st: "cp_state cp = Some st" using assms(4,8,9,10) by (auto simp: progs_ok_def)
  let ?st1 = "st\<lparr>st_ready := 1, st_processing := 0\<rparr>" and ?i = "nat (pr_radar prm - 1)"
  let ?s1 = "s\<lparr>sv_heap := (sv_heap s)(p \<mapsto> cp\<lparr>cp_state := Some ?st1\<rparr>), sv_txread := (sv_txread s)[?i := 1], sv_ready_count := sv_ready_count s + 1\<rparr>"
  have m: "mark_ready p s = Some ?s1"
    using assms(9-13) st by (simp add: mark_ready_def upd_state_def state_of_def upd_cp_def aset_def)
  have ok1: "progs_ok ?s1" using mark_ready_progs [OF m assms(4)] .
  have in1: "sv_in ?s1 = sv_in s" by simp
  have an1: "answers a rest ?s1" using assms(3) unfolding answers_def in1 .
  obtain v1 v2 where v: "count_programs ?s1 (programs ?s1) = Some (v1, v2)" "ready_value (v1, v2) = 2"
    using ready_value_all_ready [OF ok1] will_fire_marked [OF m] assms(7) by auto
  obtain s2 s3 s4 mr md mt where s2: "run_threads pretrigger sched ?s1 = Some s2" and s3: "timing_trigger (sv_trigger_type s) s2 = Some s3"
    and s4: "gps_event_time s3 = Some ((ta_sec a, ta_nsec a), s4)" "comm_frame ?s1 s4" "sv_bad_times s4 = ta_times a"
      "sv_txstatus s4 = sv_txstatus ?s1" and i4: "sv_in s4 (Driver DIO) = W_tx (ta_tx a) # W_DriverMsg md # rest DIO"
      "sv_in s4 (Driver DDS) = rest DDS" "sv_in s4 (Driver RECV) = W_DriverMsg mr # rest RECV"
      "sv_in s4 (Driver TIMING) = W_DriverMsg mt # rest TIMING" "sv_in s4 (Driver GPS) = rest GPS"
    by (rule trigger_exchange [OF assms(1,2) an1 assms(6)])
  have h4: "sv_heap s4 p = Some (cp\<lparr>cp_state := Some ?st1\<rparr>)" "sv_txread s4 = (sv_txread s)[?i := 1]" "programs s4 = programs s"
    using s4(2) comm_frame_programs [OF s4(2)] by (simp_all add: comm_frame_def programs_def)
  let ?st5 = "?st1\<lparr>st_gpssecond := ta_sec a, st_gpsnsecond := ta_nsec a\<rparr>"
  obtain s5 where s5: "after_trigger p (ta_sec a) (ta_nsec a) s4 = Some s5" "sv_heap s5 = (sv_heap s4)(p \<mapsto> cp\<lparr>cp_state := Some ?st5\<rparr>)"
    "programs s5 = programs s" "sv_in s5 = (sv_in s4)(Driver DIO := rest DIO)" "sv_bad_times s5 = ta_times a"
    "sv_txstatus s5 = (sv_txstatus s)[?i := ta_tx a]" "sv_out s5 = sv_out s4 @ tx_items (pr_radar prm)"
    using h4 i4(1) s4(3,4) assms(9-14) st
    by (simp add: after_trigger_def upd_state_def state_of_def upd_cp_def aref_def DIO_transmitter_status_def recv_from_def send_all_def
        aset_def programs_def tx_items_def)
  obtain s6 where s6: "receiver_posttrigger s5 = Some s6" "comm_frame s5 s6" "sv_in s6 = (sv_in s5)(Driver RECV := rest RECV)"
    "sv_bad_times s6 = sv_bad_times s5" "sv_txstatus s6 = sv_txstatus s5"
    using request_ok [of s5 RECV mr "rest RECV"] s5(4) i4(3) unfolding receiver_posttrigger_def by auto
  obtain s7 where s7: "timing_posttrigger s6 = Some s7" "comm_frame s6 s7" "sv_in s7 = (sv_in s6)(Driver TIMING := rest TIMING)"
    "sv_bad_times s7 = sv_bad_times s6" "sv_txstatus s7 = sv_txstatus s6"
    using request_ok [of s6 TIMING mt "rest TIMING"] s6(3) s5(4) i4(4) unfolding timing_posttrigger_def by auto
  have f7: "comm_frame s5 s7" using s6(2) s7(2) comm_frame_trans by blast
  have h7: "sv_heap s7 = sv_heap s5" "programs s7 = programs s" using f7 comm_frame_programs [OF f7] s5(3) by (simp_all add: comm_frame_def)
  have "\<forall>q \<in> set (programs s7). sv_heap s7 q \<noteq> None"
    using ok1 h7 s5(2) s4(2) by (auto simp: progs_ok_def programs_def comm_frame_def)
  from release_programs_ok [OF this] obtain s8 where s8: "release_programs (programs s7) s7 = Some s8" "sv_in s8 = sv_in s7" "sv_out s8 = sv_out s7"
    "sv_bad_times s8 = sv_bad_times s7" "sv_txstatus s8 = sv_txstatus s7"
    "\<forall>q. sv_heap s8 q = (if q \<in> set (programs s7) then map_option start_processing (sv_heap s7 q) else sv_heap s7 q)" by blast
  let ?s' = "s8\<lparr>sv_trigger_state := 0, sv_ready_count := 0, sv_ready_state := 0\<rparr>"
  have "fire sched p ?s1 = Some s8"
    using s2 s3 s4(1) s5(1) s6(1) s7(1) s8(1) by (simp add: fire_def)
  then have "coordination_handler sched p s = Some ?s'"
    using m v assms(5) by (simp add: coordination_handler_def)
  moreover have "state_of ?s' p = Some (?st5\<lparr>st_ready := 0, st_processing := 1\<rparr>)"
    using s8(6) h7 s5(2) assms(8) by (simp add: state_of_def start_processing_def)
  moreover have "sv_in ?s' (Driver d) = rest d" for d
    using s8(2) s7(3) s6(3) s5(4) i4 by (cases d) simp_all
  moreover have "sv_bad_times ?s' = ta_times a" "aref (sv_txstatus ?s') (pr_radar prm - 1) = Some (ta_tx a)"
    using s8(4,5) s7(4,5) s6(4,5) s5(5,6) assms(12,14) by (simp_all add: aref_def)
  moreover have "sv_out ?s' = sv_out s @ trigger_trace sched (sv_trigger_type s) (tx_items (pr_radar prm))"
  proof -
    have "GPS \<notin> set sched" using assms(2) by simp
    then have "sv_out s2 = sv_out s @ map (\<lambda>d. (Driver d, drv_msg PRETRIGGER_code 1)) sched"
      using run_pretriggers [OF assms(1)] s2 by (auto split: if_splits)
    then show ?thesis
      using s8(3) request_frame(2) [OF s7(1) [unfolded timing_posttrigger_def]] request_frame(2) [OF s6(1) [unfolded receiver_posttrigger_def]] s5(7)
        gps_event_time_Some(2) [OF s4(1)] timing_trigger_Some(2) [OF s3] by (simp add: trigger_trace_def)
  qed
  ultimately show ?thesis by auto
qed

text \<open>
  A trigger completes. When all programs are ready and the drivers give the answers the
  protocol foresees, the handler returns for every schedule of its threads: the transmit times
  of the timing driver, the transmitter status and the event time are stored, the calling program
  goes from ready to processing, and exactly the answers have been read from every socket.
\<close>

lemma coordination_completes:
  assumes "distinct sched" "set sched = {RECV, DDS, DIO, TIMING}" "answers a rest s" "progs_ok s" "sv_trigger_state s < 2"
    "sv_trigger_type s \<in> {0, 1, 2}" "will_fire p s" "p \<in> set (programs s)"
    "sv_heap s p = Some cp" "cp_active cp = 1" "cp_parameters cp = Some prm"
    "1 \<le> pr_radar prm" "pr_radar prm \<le> int (length (sv_txread s))" "pr_radar prm \<le> int (length (sv_txstatus s))"
  shows "\<exists>s' st'. coordination_handler sched p s = Some s' \<and> sv_bad_times s' = ta_times a \<and>
    aref (sv_txstatus s') (pr_radar prm - 1) = Some (ta_tx a) \<and> state_of s' p = Some st' \<and>
    st_gpssecond st' = ta_sec a \<and> st_gpsnsecond st' = ta_nsec a \<and> st_ready st' = 0 \<and> st_processing st' = 1 \<and>
    (\<forall>d. sv_in s' (Driver d) = rest d)"
  using coordination_run [OF assms] by blast

text \<open>One registered program, and drivers that have answered.\<close>

definition some_tx :: tx_status where
  "some_tx = \<lparr>tx_LOWPWR = [1], tx_AGC = [0], tx_stat = [0]\<rparr>"

definition some_answer :: trigger_answer where
  "some_answer = \<lparr>ta_times = \<lparr>tr_length = 1, tr_start_usec = [20], tr_duration_usec = [300]\<rparr>, ta_tx = some_tx, ta_sec = 12, ta_nsec = 34\<rparr>"

definition ok_msg :: wire where
  "ok_msg = drv_msg CHR ''0'' 1"

definition answered :: server where
  "answered = one_server\<lparr>sv_threads := [(1, 11, 60, 0, 7)],
     sv_heap := [7 \<mapsto> new_cp\<lparr>cp_parameters := Some (idle_prm\<lparr>pr_radar := 2, pr_channel := 1\<rparr>)\<rparr>],
     sv_txread := [0, 0], sv_txstatus := [some_tx, some_tx],
     sv_in := (\<lambda>e. case e of
        Driver RECV \<Rightarrow> [ok_msg, ok_msg] | Driver DDS \<Rightarrow> [ok_msg] | Driver DIO \<Rightarrow> [ok_msg, W_tx some_tx, ok_msg]
      | Driver TIMING \<Rightarrow> [W_int 1, W_uints [20], W_uints [300], ok_msg, ok_msg, ok_msg]
      | Driver GPS \<Rightarrow> [W_int 12, W_int 34, ok_msg] | Client _ \<Rightarrow> [])\<rparr>"

lemma answered_ok:
  "answers some_answer (\<lambda>_. []) answered" "progs_ok answered" "sv_trigger_state answered = 0" "sv_trigger_type answered = 0"
  "will_fire 7 answered" "programs answered = [7]" "sv_out answered = []" "sv_txread answered = [0, 0]" "sv_txstatus answered = [some_tx, some_tx]"
  "sv_heap answered 7 = Some (new_cp\<lparr>cp_parameters := Some (idle_prm\<lparr>pr_radar := 2, pr_channel := 1\<rparr>)\<rparr>)"
  by (simp_all add: answered_def answers_def some_answer_def ok_msg_def progs_ok_def programs_def one_server_def idle_server_def
      will_fire_def is_active_def new_cp_def control_init_def)

theorem coordination_completes_witness:
  "\<exists>s'. coordination_handler [RECV, DDS, DIO, TIMING] 7 answered = Some s' \<and> tr_start_usec (sv_bad_times s') = [20]"
proof -
  have "pr_radar (idle_prm\<lparr>pr_radar := 2, pr_channel := 1\<rparr>) = 2" by simp
  then show ?thesis
    using coordination_completes [where sched = "[RECV, DDS, DIO, TIMING]" and p = 7 and
        cp = "new_cp\<lparr>cp_parameters := Some (idle_prm\<lparr>pr_radar := 2, pr_channel := 1\<rparr>)\<rparr>" and
        prm = "idle_prm\<lparr>pr_radar := 2, pr_channel := 1\<rparr>", OF _ _ answered_ok(1,2)]
    by (auto simp: answered_ok some_answer_def)
qed

theorem coordination_fires_iff_all_ready_witness:
  "\<exists>s' tx. coordination_handler [RECV, DDS, DIO, TIMING] 7 answered = Some s' \<and>
    sv_out s' = trigger_trace [RECV, DDS, DIO, TIMING] 0 tx \<and> sv_ready_state s' = 0"
proof -
  have d: "distinct [RECV, DDS, DIO, TIMING]" "GPS \<notin> set [RECV, DDS, DIO, TIMING]" by simp_all
  obtain s' where s': "coordination_handler [RECV, DDS, DIO, TIMING] 7 answered = Some s'"
    using coordination_run [where sched = "[RECV, DDS, DIO, TIMING]" and p = 7 and
        cp = "new_cp\<lparr>cp_parameters := Some (idle_prm\<lparr>pr_radar := 2, pr_channel := 1\<rparr>)\<rparr>" and
        prm = "idle_prm\<lparr>pr_radar := 2, pr_channel := 1\<rparr>", OF _ _ answered_ok(1,2)]
    by (auto simp: answered_ok)
  show ?thesis using coordination_fires_iff_all_ready [OF s' d answered_ok(2)] s' answered_ok by auto
qed

end
