(* ===== verification/Clear_Freq.thy ===== *)
theory Clear_Freq
  imports Radar_Channels Driver_Comm Iniparser "HOL-Library.Multiset"
begin

text \<open>
  The clear frequency search, \<^verbatim>\<open>receiver_clrfreq\<close> and \<^verbatim>\<open>receiver_assign_frequency\<close> of
  \<^verbatim>\<open>server/reciever_handler.c\<close>: the receiver driver measures the power in bins of 1 kHz, and a
  program is assigned the quietest bin of its search band that is outside the restricted bands
  and away from the frequencies of the other programs. \<^verbatim>\<open>double\<close> values are \<open>real\<close>. \<^verbatim>\<open>qsort\<close> leaves the
  order of equal elements open, so it is the parameter \<open>qs\<close>, a sort by \<^verbatim>\<open>compare_structs\<close>. The
  diagnostic file \<^verbatim>\<open>/collect.fft\<close> and the log output are not modelled; where the log dereferences a
  pointer, \<open>verbose\<close> decides whether it is read.

  The lemmas show that an assigned frequency lies in the band, outside every restricted
  band and outside the receive band of every other active program, that it is the quietest of the
  candidates, and which bins are candidates at all.
\<close>

section \<open>The search\<close>

definition full_clr_start :: int where "full_clr_start = 8000"
definition full_clr_end :: int where "full_clr_end = 20000"
definition full_clr_wait :: int where "full_clr_wait = 0"
definition max_freqs :: int where "max_freqs = full_clr_end - full_clr_start"

text \<open>Whether a new search is needed, from the time \<^verbatim>\<open>wait_elapsed\<close> since the last full one.\<close>

definition clr_needed :: "CLRFreqPRM \<Rightarrow> u64 \<Rightarrow> int" where
  "clr_needed c wait_elapsed =
    (if full_clr_start \<le> cl_start c \<and> cl_end c \<le> full_clr_end
     then (if uint wait_elapsed < full_clr_wait * 1000000 then 0 else 1)
     else 1)"

text \<open>The powers go into the table of the radar, as far as they are in the full range.\<close>

fun clr_store :: "int \<Rightarrow> real list \<Rightarrow> real list \<Rightarrow> real list option" where
  "clr_store index [] row = Some row"
| "clr_store index (p # ps) row =
    Option.bind (if 0 \<le> index \<and> index < max_freqs then aset row index p else Some row) (clr_store (index + 1) ps)"

definition clr_read :: "real list \<Rightarrow> int \<Rightarrow> real option" where
  "clr_read row index = (if 0 \<le> index \<and> index < max_freqs then aref row index else Some 1000000)"

definition fft_entry :: "int \<Rightarrow> real list \<Rightarrow> int \<Rightarrow> t_fft_index option" where
  "fft_entry start row i = do {
     pwr \<leftarrow> clr_read row (start + i - full_clr_start);
     Some \<lparr>ff_pwr = pwr, ff_apwr = 0, ff_freq = real_of_int (start + i), ff_detrend = 0, ff_index = i\<rparr>
   }"

fun fft_fill :: "int \<Rightarrow> real list \<Rightarrow> int list \<Rightarrow> t_fft_index list option" where
  "fft_fill start row [] = Some []"
| "fft_fill start row (i # is) = do {
     f \<leftarrow> fft_entry start row i;
     fs \<leftarrow> fft_fill start row is;
     Some (f # fs)
   }"

text \<open>
  \<^verbatim>\<open>start\<close> and \<^verbatim>\<open>r\<close> are set only when a search is made, so the other branch of the switch goes on with
  uninitialised variables.
\<close>

definition receiver_clrfreq :: "u64 \<Rightarrow> cpid \<Rightarrow> server \<Rightarrow> server option" where
  "receiver_clrfreq wait_elapsed p s = do {
     cp \<leftarrow> sv_heap s p;
     if clr_needed (cp_clrfreqsearch cp) wait_elapsed = 0 then None else do {
       prm \<leftarrow> cp_parameters cp;
       st \<leftarrow> cp_state cp;
       (c, s1) \<leftarrow> recv_from rx_clr (Driver RECV)
          (send_all (Driver RECV) [drv_msg CLRFREQ_code 1, W_CLRFreqPRM (cp_clrfreqsearch cp), W_ControlPRM prm] s);
       (n, s2) \<leftarrow> recv_from rx_int (Driver RECV) s1;
       (pwr, s3) \<leftarrow> recv_from (rx_doubles n) (Driver RECV) s2;
       (m, s4) \<leftarrow> recv_from rx_msg (Driver RECV) s3;
       centre \<leftarrow> cdiv (cl_end c + cl_start c) 2;
       half \<leftarrow> cdiv n 2;
       row \<leftarrow> aref (sv_clr_pwr s4) (pr_radar prm - 1);
       row1 \<leftarrow> clr_store (centre - half - full_clr_start) pwr row;
       clr \<leftarrow> aset (sv_clr_pwr s4) (pr_radar prm - 1) row1;
       fs \<leftarrow> fft_fill (centre - half) row1 [0..n - 1];
       Some (upd_cp p (\<lambda>cp. cp\<lparr>cp_clrfreqsearch := c, cp_state := Some (st\<lparr>st_N := n, st_fft_array := Some fs\<rparr>)\<rparr>)
         (s4\<lparr>sv_clr_pwr := clr\<rparr>))
     }
   }"

section \<open>The assignment\<close>

definition compare_structs :: "t_fft_index \<Rightarrow> t_fft_index \<Rightarrow> int" where
  "compare_structs a b = (if ff_apwr a > ff_apwr b then 1 else if ff_apwr a = ff_apwr b then 0 else -1)"

definition padded_sideband :: "real \<Rightarrow> int" where
  "padded_sideband samplerate = max (2 * \<lceil>samplerate / 1000\<rceil>) 0"

text \<open>The entries within \<open>w\<close> positions of position \<open>i\<close>, in order.\<close>

definition window :: "int \<Rightarrow> nat \<Rightarrow> 'a list \<Rightarrow> 'a list" where
  "window w i fs = map (nth fs) (filter (\<lambda>k. int i - w \<le> int k \<and> int k \<le> int i + w) [0..<length fs])"

definition average :: "real list \<Rightarrow> real" where
  "average xs = sum_list xs / real (length xs)"

text \<open>With a negative side band the window is empty and the average is not a number: no result.\<close>

definition detrend_fft :: "int \<Rightarrow> t_fft_index list \<Rightarrow> t_fft_index list option" where
  "detrend_fft w fs =
    (if w < 0 \<and> fs \<noteq> [] then None
     else Some (map (\<lambda>i. let a = average (map ff_pwr (window w i fs)) in
                          (fs ! i)\<lparr>ff_detrend := a, ff_pwr := ff_pwr (fs ! i) - a\<rparr>) [0..<length fs]))"

definition smooth_fft :: "int \<Rightarrow> t_fft_index list \<Rightarrow> t_fft_index list" where
  "smooth_fft w fs =
    map (\<lambda>i. let ps = map ff_pwr (window w i fs) in
             (fs ! i)\<lparr>ff_apwr := (if int (length ps) > 2 * w then average ps else 10000000000)\<rparr>) [0..<length fs]"

text \<open>
  The entries of the search band go into an array of \<open>end - start\<close> elements; a surplus one overwrites
  the last.
\<close>

definition in_band :: "CLRFreqPRM \<Rightarrow> t_fft_index \<Rightarrow> bool" where
  "in_band c f \<longleftrightarrow> ff_freq f \<le> real_of_int (cl_end c) \<and> real_of_int (cl_start c) \<le> ff_freq f"

fun band_fill :: "int \<Rightarrow> t_fft_index list \<Rightarrow> t_fft_index list \<Rightarrow> t_fft_index list option" where
  "band_fill ncfs [] sub = Some sub"
| "band_fill ncfs (f # fs) sub =
    (if int (length sub) < ncfs then band_fill ncfs fs (sub @ [f])
     else if ncfs \<le> 0 then None
     else band_fill ncfs fs (take (nat ncfs - 1) sub @ [f]))"

text \<open>The restricted bands, followed by the receive bands of the other active programs.\<close>

fun fill_blacklist :: "int \<Rightarrow> server \<Rightarrow> cpid \<Rightarrow> nat \<Rightarrow> cpid list \<Rightarrow> (int \<times> int \<times> cpid option) list \<Rightarrow> (int \<times> int \<times> cpid option) list option" where
  "fill_blacklist verbose s arg limit [] bl = Some bl"
| "fill_blacklist verbose s arg limit (p # ps) bl =
    (if p = arg then fill_blacklist verbose s arg limit ps bl
     else do {
       cp \<leftarrow> sv_heap s p;
       if verbose > 1 \<and> cp_parameters cp = None then None
       else if cp_active cp \<noteq> 0 \<and> length bl < limit then do {
         st \<leftarrow> cp_state cp;
         fill_blacklist verbose s arg limit ps
           (bl @ [(st_best_assigned_freq st - st_rx_sideband st, st_best_assigned_freq st + st_rx_sideband st, Some p)])
       } else fill_blacklist verbose s arg limit ps bl
     })"

definition clean :: "(int \<times> int \<times> cpid option) list \<Rightarrow> t_fft_index \<Rightarrow> bool" where
  "clean bl f \<longleftrightarrow> list_all (\<lambda>(a, b, _). \<not> (ff_freq f \<le> real_of_int b \<and> real_of_int a \<le> ff_freq f)) bl"

text \<open>The bins the choice is made from: the last one of the band is not looked at.\<close>

definition candidates :: "int \<Rightarrow> cpid \<Rightarrow> ControlProgram \<Rightarrow> ControlPRM \<Rightarrow> t_fft_index list \<Rightarrow> server \<Rightarrow> t_fft_index list option" where
  "candidates verbose p cp prm fs s = do {
     sub \<leftarrow> band_fill (cl_end (cp_clrfreqsearch cp) - cl_start (cp_clrfreqsearch cp))
              (filter (in_band (cp_clrfreqsearch cp)) (smooth_fft (padded_sideband (pr_baseband_samplerate prm)) fs)) [];
     bl \<leftarrow> fill_blacklist verbose s p (Max_Control_THREADS + length (sv_blacklist s)) (programs s) (sv_blacklist s);
     Some (filter (clean bl) (butlast sub))
   }"

definition assign_state :: "int \<Rightarrow> t_fft_index list \<Rightarrow> ControlState \<Rightarrow> ControlState" where
  "assign_state sideband good st =
    (case good of
       [] \<Rightarrow> st\<lparr>st_current_assigned_freq := 0, st_current_assigned_noise := 10000000000,
               st_best_assigned_freq := 0, st_best_assigned_noise := 0\<rparr>
     | f # _ \<Rightarrow> st\<lparr>st_current_assigned_freq := cint (ff_freq f), st_current_assigned_noise := ff_apwr f,
               st_best_assigned_freq := cint (ff_freq f), st_best_assigned_noise := ff_apwr f,
               st_tx_sideband := sideband, st_rx_sideband := sideband\<rparr>)"

text \<open>The working copy of the bins, detrended when the site configuration asks for it.\<close>

definition prepare_fft :: "server \<Rightarrow> t_fft_index list \<Rightarrow> (bool \<times> t_fft_index list) option" where
  "prepare_fft s fs = do {
     detrend_enabled \<leftarrow> iniparser_getboolean (sv_site_ini s) ''site_settings:use_clr_detrend'' 0;
     if detrend_enabled \<noteq> 0 then do {
       sideband \<leftarrow> iniparser_getint (sv_site_ini s) ''site_settings:detrend_sideband'' 50;
       fs1 \<leftarrow> detrend_fft sideband fs;
       Some (True, fs1)
     } else Some (False, map (\<lambda>f. f\<lparr>ff_detrend := 0\<rparr>) fs)
   }"

definition add_detrend :: "t_fft_index \<Rightarrow> t_fft_index" where
  "add_detrend f = f\<lparr>ff_pwr := ff_pwr f + ff_detrend f, ff_apwr := ff_apwr f + ff_detrend f\<rparr>"

definition receiver_assign_frequency ::
    "(t_fft_index list \<Rightarrow> t_fft_index list) \<Rightarrow> int \<Rightarrow> cpid \<Rightarrow> server \<Rightarrow> server option" where
  "receiver_assign_frequency qs verbose p s = do {
     cp \<leftarrow> sv_heap s p;
     st \<leftarrow> cp_state cp;
     case st_fft_array st of
       None \<Rightarrow> if verbose > -1 then None else Some s
     | Some arr \<Rightarrow> do {
         prm \<leftarrow> cp_parameters cp;
         fs \<leftarrow> (if (if verbose > -1 then 0 < st_N st else 0 \<le> st_N st) \<and> st_N st \<le> int (length arr)
                then Some (take (nat (st_N st)) arr) else None);
         (det, fs1) \<leftarrow> prepare_fft s fs;
         good \<leftarrow> candidates verbose p cp prm fs1 s;
         upd_state p (assign_state (padded_sideband (pr_baseband_samplerate prm))
           (if det then map add_detrend (qs good) else qs good)) s
       }
   }"

section \<open>Lemmas\<close>

definition is_qsort :: "(t_fft_index list \<Rightarrow> t_fft_index list) \<Rightarrow> bool" where
  "is_qsort qs \<longleftrightarrow> (\<forall>xs. mset (qs xs) = mset xs \<and> sorted_wrt (\<lambda>a b. compare_structs a b \<le> 0) (qs xs))"

lemma is_qsort_set: "is_qsort qs \<Longrightarrow> set (qs xs) = set xs"
  unfolding is_qsort_def by (metis mset_eq_setD)

lemma is_qsort_least:
  assumes "is_qsort qs" "qs xs = f # fs" "g \<in> set xs"
  shows "ff_apwr f \<le> ff_apwr g"
proof -
  have "g \<in> set (f # fs)" using is_qsort_set [OF assms(1), of xs] assms(2,3) by simp
  moreover have "sorted_wrt (\<lambda>a b. compare_structs a b \<le> 0) (f # fs)"
    using assms(1,2) unfolding is_qsort_def by metis
  ultimately show ?thesis by (auto simp: compare_structs_def split: if_splits)
qed

lemma sort_key_is_qsort: "is_qsort (sort_key ff_apwr)"
proof -
  have "sorted_wrt (\<lambda>a b. compare_structs a b \<le> 0) (sort_key ff_apwr xs)" for xs
    using sorted_sort_key [of ff_apwr xs] unfolding sorted_wrt_map
    by (rule sorted_wrt_mono_rel [rotated]) (simp add: compare_structs_def)
  then show ?thesis by (simp add: is_qsort_def)
qed

lemma clr_needed_always: "clr_needed c e = 1"
  by (simp add: clr_needed_def full_clr_wait_def)

lemma band_fill_set: "band_fill n fs sub = Some r \<Longrightarrow> set r \<subseteq> set fs \<union> set sub"
  by (induction n fs sub rule: band_fill.induct) (auto split: if_splits dest!: in_set_takeD)

lemma fill_blacklist_grows:
  "fill_blacklist v s a lm ps bl = Some r \<Longrightarrow> set bl \<subseteq> set r"
  by (induction v s a lm ps bl rule: fill_blacklist.induct) (auto split: if_splits bind_splits)

lemma fill_blacklist_other:
  "fill_blacklist v s a lm ps bl = Some r \<Longrightarrow> length bl + length ps \<le> lm \<Longrightarrow> q \<in> set ps \<Longrightarrow> q \<noteq> a \<Longrightarrow>
   sv_heap s q = Some cq \<Longrightarrow> cp_active cq \<noteq> 0 \<Longrightarrow> cp_state cq = Some tq \<Longrightarrow>
   (st_best_assigned_freq tq - st_rx_sideband tq, st_best_assigned_freq tq + st_rx_sideband tq, Some q) \<in> set r"
proof (induction v s a lm ps bl rule: fill_blacklist.induct)
  case (2 v s a lm p ps bl)
  let ?e = "(st_best_assigned_freq tq - st_rx_sideband tq, st_best_assigned_freq tq + st_rx_sideband tq, Some q)"
  show ?case
  proof (cases "q = p")
    case True
    then have "fill_blacklist v s a lm ps (bl @ [?e]) = Some r"
      using 2(4-) by (auto split: if_splits)
    then show ?thesis using fill_blacklist_grows by fastforce
  next
    case False
    then have q: "q \<in> set ps" using 2(6) by simp
    show ?thesis
    proof (cases "p = a")
      case True
      then show ?thesis using 2(1) [OF True] 2(4-) q by auto
    next
      case pa: False
      then obtain cp where cp: "sv_heap s p = Some cp" using 2(4) by (auto split: bind_splits)
      then show ?thesis using 2 pa q by (auto split: if_splits bind_splits)
    qed
  qed
qed simp

lemma smooth_fft_nth:
  "i < length fs \<Longrightarrow> ff_freq (smooth_fft w fs ! i) = ff_freq (fs ! i)" "length (smooth_fft w fs) = length fs"
  by (simp_all add: smooth_fft_def Let_def)

lemma smooth_fft_freqs: "ff_freq ` set (smooth_fft w fs) = ff_freq ` set fs"
  unfolding set_conv_nth image_Collect by (auto simp: smooth_fft_nth) (metis smooth_fft_nth)+

lemma prepare_fft_freqs:
  assumes "prepare_fft s fs = Some (det, fs1)"
  shows "map ff_freq fs1 = map ff_freq fs"
proof -
  have "map ff_freq fs2 = map ff_freq fs" if "detrend_fft w fs = Some fs2" for w fs2
    using that by (auto simp: detrend_fft_def Let_def map_nth o_def split: if_splits intro: nth_equalityI)
  then show ?thesis using assms by (auto simp: prepare_fft_def o_def split: bind_splits if_splits)
qed

text \<open>What a candidate is.\<close>

lemma candidates_sound:
  assumes "candidates v p cp prm fs s = Some good" "f \<in> set good" "length (programs s) \<le> Max_Control_THREADS"
  shows "ff_freq f \<in> ff_freq ` set fs" "in_band (cp_clrfreqsearch cp) f" "clean (sv_blacklist s) f"
    "q \<in> set (programs s) \<Longrightarrow> q \<noteq> p \<Longrightarrow> sv_heap s q = Some cq \<Longrightarrow> cp_active cq \<noteq> 0 \<Longrightarrow> cp_state cq = Some tq \<Longrightarrow>
      real_of_int (st_rx_sideband tq) < \<bar>ff_freq f - real_of_int (st_best_assigned_freq tq)\<bar>"
proof -
  let ?fs = "smooth_fft (padded_sideband (pr_baseband_samplerate prm)) fs"
  obtain sub bl where sub: "band_fill (cl_end (cp_clrfreqsearch cp) - cl_start (cp_clrfreqsearch cp)) (filter (in_band (cp_clrfreqsearch cp)) ?fs) [] = Some sub"
    and bl: "fill_blacklist v s p (Max_Control_THREADS + length (sv_blacklist s)) (programs s) (sv_blacklist s) = Some bl"
    and good: "good = filter (clean bl) (butlast sub)"
    using assms(1) by (auto simp: candidates_def split: bind_splits)
  have f: "f \<in> set ?fs" "in_band (cp_clrfreqsearch cp) f" "clean bl f"
    using assms(2) good band_fill_set [OF sub] by (auto dest!: in_set_butlastD)
  show "ff_freq f \<in> ff_freq ` set fs" using imageI [OF f(1), of ff_freq] unfolding smooth_fft_freqs .
  show "in_band (cp_clrfreqsearch cp) f" by (rule f(2))
  show "clean (sv_blacklist s) f"
    using f(3) fill_blacklist_grows [OF bl] by (auto simp: clean_def list_all_iff)
  assume "q \<in> set (programs s)" "q \<noteq> p" "sv_heap s q = Some cq" "cp_active cq \<noteq> 0" "cp_state cq = Some tq"
  then have "(st_best_assigned_freq tq - st_rx_sideband tq, st_best_assigned_freq tq + st_rx_sideband tq, Some q) \<in> set bl"
    using fill_blacklist_other [OF bl] assms(3) by simp
  then show "real_of_int (st_rx_sideband tq) < \<bar>ff_freq f - real_of_int (st_best_assigned_freq tq)\<bar>"
    using f(3) by (fastforce simp: clean_def list_all_iff)
qed

text \<open>A frequency no restriction and no other program forbids.\<close>

definition free_freq :: "server \<Rightarrow> cpid \<Rightarrow> int \<Rightarrow> bool" where
  "free_freq s p k \<longleftrightarrow>
     (\<forall>(a, b, _) \<in> set (sv_blacklist s). k < a \<or> b < k) \<and>
     (\<forall>q \<in> set (programs s). q \<noteq> p \<longrightarrow> (\<forall>cq tq. sv_heap s q = Some cq \<longrightarrow> cp_active cq \<noteq> 0 \<longrightarrow> cp_state cq = Some tq \<longrightarrow>
        st_rx_sideband tq < \<bar>k - st_best_assigned_freq tq\<bar>))"

lemma fill_blacklist_from:
  "fill_blacklist v s a lm ps bl = Some r \<Longrightarrow> e \<in> set r \<Longrightarrow> e \<notin> set bl \<Longrightarrow>
   \<exists>q cq tq. q \<in> set ps \<and> q \<noteq> a \<and> sv_heap s q = Some cq \<and> cp_active cq \<noteq> 0 \<and> cp_state cq = Some tq \<and>
     e = (st_best_assigned_freq tq - st_rx_sideband tq, st_best_assigned_freq tq + st_rx_sideband tq, Some q)"
proof (induction v s a lm ps bl rule: fill_blacklist.induct)
  case (2 v s a lm p ps bl)
  show ?case
  proof (cases "p = a")
    case True
    then show ?thesis using 2(1) [OF True] 2(4-) by auto
  next
    case False
    obtain cp where cp: "sv_heap s p = Some cp" using 2(4) False by (auto split: bind_splits)
    show ?thesis
    proof (cases "cp_active cp \<noteq> 0 \<and> length bl < lm")
      case True
      then obtain st where st: "cp_state cp = Some st"
        "fill_blacklist v s a lm ps (bl @ [(st_best_assigned_freq st - st_rx_sideband st, st_best_assigned_freq st + st_rx_sideband st, Some p)]) = Some r"
        using 2(4) False cp by (auto split: if_splits bind_splits)
      show ?thesis
        using 2(2) [OF False cp _ True st] 2(4-) st(1) False cp True by (auto split: if_splits)
    next
      case no: False
      then show ?thesis using 2(3) [OF False cp] 2(4-) False cp by (auto split: if_splits)
    qed
  qed
qed simp

lemma clean_iff_free:
  assumes "fill_blacklist v s p (Max_Control_THREADS + length (sv_blacklist s)) (programs s) (sv_blacklist s) = Some bl"
    "length (programs s) \<le> Max_Control_THREADS" "ff_freq f = real_of_int k"
  shows "clean bl f \<longleftrightarrow> free_freq s p k"
proof
  assume c: "clean bl f"
  have "k < a \<or> b < k" if "(a, b, r) \<in> set (sv_blacklist s)" for a b r
    using c that fill_blacklist_grows [OF assms(1)] assms(3) by (fastforce simp: clean_def list_all_iff)
  moreover have "st_rx_sideband tq < \<bar>k - st_best_assigned_freq tq\<bar>"
    if "q \<in> set (programs s)" "q \<noteq> p" "sv_heap s q = Some cq" "cp_active cq \<noteq> 0" "cp_state cq = Some tq" for q cq tq
    using fill_blacklist_other [OF assms(1) _ that] c assms(2,3) by (fastforce simp: clean_def list_all_iff)
  ultimately show "free_freq s p k" by (auto simp: free_freq_def)
next
  assume fr: "free_freq s p k"
  have "\<not> (ff_freq f \<le> real_of_int b \<and> real_of_int a \<le> ff_freq f)" if e: "(a, b, r) \<in> set bl" for a b r
  proof (cases "(a, b, r) \<in> set (sv_blacklist s)")
    case True
    then show ?thesis using fr assms(3) by (fastforce simp: free_freq_def)
  next
    case False
    then show ?thesis using fill_blacklist_from [OF assms(1) e] fr assms(3) by (fastforce simp: free_freq_def)
  qed
  then show "clean bl f" by (auto simp: clean_def list_all_iff)
qed

text \<open>Bins of 1 kHz from \<open>a\<close> upwards, and the part of them that is in the band.\<close>

definition bins :: "int \<Rightarrow> t_fft_index list \<Rightarrow> bool" where
  "bins a fs \<longleftrightarrow> (\<forall>i < length fs. ff_freq (fs ! i) = real_of_int (a + int i))"

lemma bins_nth:
  assumes "bins a fs" "a \<le> k" "k < a + int (length fs)"
  shows "ff_freq (fs ! nat (k - a)) = real_of_int k"
proof -
  have "nat (k - a) < length fs" "a + int (nat (k - a)) = k" using assms(2,3) by simp_all
  then show ?thesis using assms(1) unfolding bins_def by metis
qed

lemma bins_freqs:
  assumes "map ff_freq gs = map ff_freq fs"
  shows "bins a gs = bins a fs"
proof -
  have "length gs = length fs" using assms by (rule map_eq_imp_length_eq)
  moreover have "ff_freq (gs ! i) = ff_freq (fs ! i)" if "i < length fs" for i
    using arg_cong [OF assms, of "\<lambda>xs. xs ! i"] that calculation by simp
  ultimately show ?thesis by (simp add: bins_def)
qed

lemma filter_upto:
  assumes "a \<le> lo" "hi \<le> b"
  shows "filter (\<lambda>k. k \<le> hi \<and> lo \<le> k) [a..b] = [lo..hi]"
  by (rule sorted_distinct_set_unique) (use assms in \<open>auto simp: sorted_wrt_filter\<close>)

lemma bins_band:
  assumes "bins a fs" "a \<le> cl_start c" "cl_end c < a + int (length fs)"
  shows "filter (in_band c) fs = map (\<lambda>k. fs ! nat (k - a)) [cl_start c..cl_end c]"
proof -
  let ?g = "\<lambda>k. fs ! nat (k - a)"
  have fs: "fs = map ?g [a..a + int (length fs) - 1]" by (rule nth_equalityI) simp_all
  have "ff_freq (?g k) = real_of_int k" if "k \<in> set [a..a + int (length fs) - 1]" for k
    by (rule bins_nth [OF assms(1)]) (use that in simp_all)
  then have "filter (\<lambda>k. in_band c (?g k)) [a..a + int (length fs) - 1] = filter (\<lambda>k. k \<le> cl_end c \<and> cl_start c \<le> k) [a..a + int (length fs) - 1]"
    by (intro filter_cong) (simp_all add: in_band_def)
  also have "\<dots> = [cl_start c..cl_end c]" using assms(2,3) by (intro filter_upto) simp_all
  finally show ?thesis by (subst fs) (simp add: filter_map o_def)
qed

lemma band_fill_cases:
  "0 < n \<Longrightarrow> int (length sub) \<le> n \<Longrightarrow>
   band_fill n xs sub = Some (if int (length sub + length xs) \<le> n then sub @ xs else take (nat n - 1) (sub @ xs) @ [last xs])"
proof (induction n xs sub rule: band_fill.induct)
  case (2 n f fs sub)
  show ?case
  proof (cases "int (length sub) < n")
    case True
    then show ?thesis using 2 by (cases fs) auto
  next
    case False
    then have l: "length sub = nat n" using 2(4) by simp
    then show ?thesis using 2(2) [OF False] 2(3) False
      by (cases fs) (auto simp: min_def)
  qed
qed simp

lemma smooth_fft_detrend: "ff_apwr (smooth_fft w (map (\<lambda>f. f\<lparr>ff_detrend := d\<rparr>) fs) ! i) = ff_apwr (smooth_fft w fs ! i)" if "i < length fs"
proof -
  have "map ff_pwr (window w i (map (\<lambda>f. f\<lparr>ff_detrend := d\<rparr>) fs)) = map ff_pwr (window w i fs)"
    "length (window w i (map (\<lambda>f. f\<lparr>ff_detrend := d\<rparr>) fs)) = length (window w i fs)"
    by (auto simp: window_def)
  then show ?thesis using that by (simp add: smooth_fft_def Let_def)
qed

lemma candidates_bins:
  assumes "candidates v p cp prm fs s = Some good" "bins a fs" "cl_start (cp_clrfreqsearch cp) < cl_end (cp_clrfreqsearch cp)"
    "a \<le> cl_start (cp_clrfreqsearch cp)" "cl_end (cp_clrfreqsearch cp) < a + int (length fs)" "length (programs s) \<le> Max_Control_THREADS"
  shows "good = map (\<lambda>k. smooth_fft (padded_sideband (pr_baseband_samplerate prm)) fs ! nat (k - a))
    (filter (free_freq s p) [cl_start (cp_clrfreqsearch cp)..cl_end (cp_clrfreqsearch cp) - 2])"
proof -
  let ?c = "cp_clrfreqsearch cp" and ?fs = "smooth_fft (padded_sideband (pr_baseband_samplerate prm)) fs"
  let ?g = "\<lambda>k. ?fs ! nat (k - a)"
  have b: "bins a ?fs" using assms(2) by (simp add: bins_def smooth_fft_nth)
  have "filter (in_band ?c) ?fs = map ?g [cl_start ?c..cl_end ?c]"
    by (rule bins_band [OF b]) (use assms(4,5) in \<open>simp_all add: smooth_fft_nth\<close>)
  moreover have "[cl_start ?c..cl_end ?c] = [cl_start ?c..cl_end ?c - 2] @ [cl_end ?c - 1, cl_end ?c]"
    using upto_rec2 [of "cl_start ?c" "cl_end ?c"] upto_rec2 [of "cl_start ?c" "cl_end ?c - 1"] assms(3) by simp
  ultimately obtain bl where bl: "fill_blacklist v s p (Max_Control_THREADS + length (sv_blacklist s)) (programs s) (sv_blacklist s) = Some bl"
    and good: "good = filter (clean bl) (map ?g [cl_start ?c..cl_end ?c - 2])"
    using assms(1,3) by (auto simp: candidates_def band_fill_cases split: bind_splits)
  have "clean bl (?g k) = free_freq s p k" if "k \<in> set [cl_start ?c..cl_end ?c - 2]" for k
    by (rule clean_iff_free [OF bl assms(6)]) (rule bins_nth [OF b]; use that assms(4,5) in \<open>simp add: smooth_fft_nth\<close>)
  then have "filter (\<lambda>k. clean bl (?g k)) [cl_start ?c..cl_end ?c - 2] = filter (free_freq s p) [cl_start ?c..cl_end ?c - 2]"
    by (rule filter_cong [OF refl])
  then show ?thesis unfolding good by (simp add: filter_map o_def)
qed

lemma assign_inv:
  assumes "receiver_assign_frequency qs v p s = Some s'" "sv_heap s p = Some cp" "cp_state cp = Some st" "st_fft_array st = Some arr"
  obtains prm det fs1 good where "cp_parameters cp = Some prm" "st_N st \<le> int (length arr)" "prepare_fft s (take (nat (st_N st)) arr) = Some (det, fs1)"
    "candidates v p cp prm fs1 s = Some good"
    "state_of s' p = Some (assign_state (padded_sideband (pr_baseband_samplerate prm)) (if det then map add_detrend (qs good) else qs good) st)"
  using assms by (auto simp: receiver_assign_frequency_def upd_state_def state_of_def split: bind_splits if_splits)

lemma assign_state_freq:
  "f \<in> set good \<Longrightarrow> \<exists>g \<in> set good. st_best_assigned_freq (assign_state w good st) = cint (ff_freq g)"
  "st_current_assigned_freq (assign_state w good st) = st_best_assigned_freq (assign_state w good st)"
  by (auto simp: assign_state_def split: list.splits)

lemma add_detrend_freq [simp]: "ff_freq (add_detrend f) = ff_freq f"
  by (simp add: add_detrend_def)

lemma assigned_clear:
  assumes "receiver_assign_frequency qs verbose p s = Some s'" "is_qsort qs" "sv_heap s p = Some cp" "cp_state cp = Some st"
    "st_fft_array st = Some arr" "bins a arr" "length (programs s) \<le> Max_Control_THREADS"
  shows "\<exists>st'. state_of s' p = Some st' \<and> st_current_assigned_freq st' = st_best_assigned_freq st' \<and>
    (st_best_assigned_freq st' = 0 \<and> st_current_assigned_noise st' = 10000000000 \<or>
     cl_start (cp_clrfreqsearch cp) \<le> st_best_assigned_freq st' \<and> st_best_assigned_freq st' \<le> cl_end (cp_clrfreqsearch cp) \<and>
     free_freq s p (st_best_assigned_freq st') \<and> real_of_int (st_best_assigned_freq st') \<in> ff_freq ` set arr)"
proof -
  obtain prm det fs1 good where g: "prepare_fft s (take (nat (st_N st)) arr) = Some (det, fs1)" "candidates verbose p cp prm fs1 s = Some good"
    and st': "state_of s' p = Some (assign_state (padded_sideband (pr_baseband_samplerate prm)) (if det then map add_detrend (qs good) else qs good) st)"
    by (rule assign_inv [OF assms(1,3,4,5)])
  let ?good = "if det then map add_detrend (qs good) else qs good"
  let ?st' = "assign_state (padded_sideband (pr_baseband_samplerate prm)) ?good st"
  show ?thesis
  proof (cases "good = []")
    case True
    then have "qs good = []" using is_qsort_set [OF assms(2), of good] by simp
    then show ?thesis using st' by (simp add: assign_state_def)
  next
    case False
    then have "?good \<noteq> []" using is_qsort_set [OF assms(2), of good] by auto
    then obtain h where "h \<in> set ?good" by (cases ?good) auto
    from assign_state_freq(1) [OF this] obtain h' where h': "h' \<in> set ?good" "st_best_assigned_freq ?st' = cint (ff_freq h')" by blast
    moreover have "ff_freq ` set ?good = ff_freq ` set good"
      using is_qsort_set [OF assms(2), of good] by (auto simp: image_image)
    ultimately obtain f where f: "f \<in> set good" "st_best_assigned_freq ?st' = cint (ff_freq f)"
      by (metis imageE imageI)
    note snd = candidates_sound [OF g(2) f(1) assms(7)]
    have "set (map ff_freq fs1) \<subseteq> set (map ff_freq arr)" unfolding prepare_fft_freqs [OF g(1)] by (auto dest: in_set_takeD)
    then have arr: "ff_freq f \<in> ff_freq ` set arr" using snd(1) by auto
    then obtain k where k: "ff_freq f = real_of_int k" using assms(6) by (auto simp: bins_def in_set_conv_nth simp del: of_int_add)
    then have "st_best_assigned_freq ?st' = k" using f(2) by simp
    moreover have "free_freq s p k"
      using snd(3,4) k by (fastforce simp: free_freq_def clean_def list_all_iff)
    ultimately show ?thesis using st' k snd(2) arr assign_state_freq(2) by (auto simp: in_band_def)
  qed
qed

section \<open>Properties\<close>

text \<open>
  C5: a frequency that is assigned is clear. For bins of whole kHz, whatever the order \<^verbatim>\<open>qsort\<close>
  gives to bins of equal power and whether or not the spectrum is detrended, the program either
  gets frequency 0, because no candidate is left, or one that is a bin of the search, lies in the
  search band, is in no restricted band and is farther from the frequency of every other active
  program than the side band of that program.
\<close>

theorem assigned_frequency_clear:
  assumes "receiver_assign_frequency qs verbose p s = Some s'" "is_qsort qs" "sv_heap s p = Some cp" "cp_state cp = Some st"
    "st_fft_array st = Some arr" "bins a arr" "length (programs s) \<le> Max_Control_THREADS"
  shows "\<exists>st'. state_of s' p = Some st' \<and> st_current_assigned_freq st' = st_best_assigned_freq st' \<and>
    (st_best_assigned_freq st' = 0 \<and> st_current_assigned_noise st' = 10000000000 \<or>
     cl_start (cp_clrfreqsearch cp) \<le> st_best_assigned_freq st' \<and> st_best_assigned_freq st' \<le> cl_end (cp_clrfreqsearch cp) \<and>
     free_freq s p (st_best_assigned_freq st') \<and> real_of_int (st_best_assigned_freq st') \<in> ff_freq ` set arr)"
  by (rule assigned_clear [OF assms])

definition free_band :: "server \<Rightarrow> cpid \<Rightarrow> CLRFreqPRM \<Rightarrow> int list" where
  "free_band s p c = filter (free_freq s p) [cl_start c..cl_end c - 2]"

definition noise_at :: "ControlPRM \<Rightarrow> int \<Rightarrow> t_fft_index list \<Rightarrow> int \<Rightarrow> real" where
  "noise_at prm a arr k = ff_apwr (smooth_fft (padded_sideband (pr_baseband_samplerate prm)) arr ! nat (k - a))"


section \<open>Properties of the search\<close>

lemma clr_store_ok:
  assumes "int (length row) = max_freqs"
  shows "\<exists>row'. clr_store k ps row = Some row' \<and> int (length row') = max_freqs \<and>
    (\<forall>j. j < length row \<longrightarrow> int j < k \<longrightarrow> row' ! j = row ! j) \<and>
    (\<forall>i < length ps. 0 \<le> k + int i \<longrightarrow> k + int i < max_freqs \<longrightarrow> row' ! nat (k + int i) = ps ! i)"
  using assms
proof (induction ps arbitrary: k row)
  case (Cons p ps)
  let ?row = "if 0 \<le> k \<and> k < max_freqs then row[nat k := p] else row"
  have l: "int (length ?row) = max_freqs" using Cons.prems by simp
  from Cons.IH [OF l, of "k + 1"] obtain row' where r: "clr_store (k + 1) ps ?row = Some row'" "int (length row') = max_freqs"
    "\<And>j. j < length ?row \<Longrightarrow> int j < k + 1 \<Longrightarrow> row' ! j = ?row ! j"
    "\<And>i. i < length ps \<Longrightarrow> 0 \<le> k + 1 + int i \<Longrightarrow> k + 1 + int i < max_freqs \<Longrightarrow> row' ! nat (k + 1 + int i) = ps ! i" by blast
  have "clr_store k (p # ps) row = Some row'" using r(1) Cons.prems by (auto simp: aset_def split: if_splits)
  moreover have "row' ! j = row ! j" if "j < length row" "int j < k" for j
    using r(3) [of j] that l by (auto split: if_splits)
  moreover have "row' ! nat (k + int i) = (p # ps) ! i" if "i < length (p # ps)" "0 \<le> k + int i" "k + int i < max_freqs" for i
  proof (cases i)
    case 0
    then show ?thesis using r(3) [of "nat k"] that Cons.prems by (auto split: if_splits)
  next
    case (Suc m)
    then show ?thesis using r(4) [of m] that by (simp add: add.assoc)
  qed
  ultimately show ?case using r(2) by blast
qed simp

lemma fft_fill_ok:
  assumes "int (length row) = max_freqs"
  shows "fft_fill start row is = Some (map (\<lambda>i. \<lparr>ff_pwr = (if 0 \<le> start + i - full_clr_start \<and> start + i - full_clr_start < max_freqs
      then row ! nat (start + i - full_clr_start) else 1000000), ff_apwr = 0, ff_freq = real_of_int (start + i), ff_detrend = 0, ff_index = i\<rparr>) is)"
  using assms by (induction "is") (auto simp: fft_entry_def clr_read_def aref_def)

text \<open>The result of a search whose answers have all arrived.\<close>

lemma clrfreq_result:
  assumes "sv_heap s p = Some cp" "cp_parameters cp = Some prm" "cp_state cp = Some st"
    "sv_in s (Driver RECV) = W_CLRFreqPRM c # W_int n # W_doubles pwr # W_DriverMsg m # rest" "int (length pwr) = n"
    "1 \<le> pr_radar prm" "pr_radar prm \<le> int (length (sv_clr_pwr s))" "\<forall>row \<in> set (sv_clr_pwr s). int (length row) = max_freqs"
    "cdiv (cl_end c + cl_start c) 2 = Some centre" "cdiv n 2 = Some half"
  obtains s' arr where "receiver_clrfreq wait_elapsed p s = Some s'"
    "sv_heap s' p = Some (cp\<lparr>cp_clrfreqsearch := c, cp_state := Some (st\<lparr>st_N := n, st_fft_array := Some arr\<rparr>)\<rparr>)"
    "sv_in s' = (sv_in s)(Driver RECV := rest)" "sv_site_ini s' = sv_site_ini s" "int (length arr) = n" "bins (centre - half) arr"
    "\<forall>i < length arr. full_clr_start \<le> centre - half + int i \<and> centre - half + int i < full_clr_end \<longrightarrow> ff_pwr (arr ! i) = pwr ! i"
proof -
  let ?start = "centre - half" and ?r = "nat (pr_radar prm - 1)"
  have row: "aref (sv_clr_pwr s) (pr_radar prm - 1) = Some (sv_clr_pwr s ! ?r)" "int (length (sv_clr_pwr s ! ?r)) = max_freqs"
    using assms(6-8) by (simp_all add: aref_def)
  from clr_store_ok [OF row(2), of "?start - full_clr_start" pwr] obtain row' where
    r: "clr_store (?start - full_clr_start) pwr (sv_clr_pwr s ! ?r) = Some row'" "int (length row') = max_freqs"
    "\<And>i. i < length pwr \<Longrightarrow> 0 \<le> ?start - full_clr_start + int i \<Longrightarrow> ?start - full_clr_start + int i < max_freqs \<Longrightarrow>
      row' ! nat (?start - full_clr_start + int i) = pwr ! i" by blast
  define arr where "arr = map (\<lambda>i. \<lparr>ff_pwr = (if 0 \<le> ?start + i - full_clr_start \<and> ?start + i - full_clr_start < max_freqs
      then row' ! nat (?start + i - full_clr_start) else 1000000), ff_apwr = 0, ff_freq = real_of_int (?start + i), ff_detrend = 0, ff_index = i\<rparr>) [0..n - 1]"
  have len: "int (length arr) = n" using assms(5) by (simp add: arr_def)
  have vals: "\<forall>i < length arr. full_clr_start \<le> ?start + int i \<and> ?start + int i < full_clr_end \<longrightarrow> ff_pwr (arr ! i) = pwr ! i"
    using r(3) len assms(5) by (simp add: arr_def max_freqs_def algebra_simps)
  have b: "bins ?start arr" using len by (simp add: bins_def arr_def)
  have "\<exists>s'. receiver_clrfreq wait_elapsed p s = Some s' \<and> sv_in s' = (sv_in s)(Driver RECV := rest) \<and> sv_site_ini s' = sv_site_ini s \<and>
      sv_heap s' p = Some (cp\<lparr>cp_clrfreqsearch := c, cp_state := Some (st\<lparr>st_N := n, st_fft_array := Some arr\<rparr>)\<rparr>)"
    using assms(1-7,9,10) row(1) r(1) fft_fill_ok [OF r(2), of ?start "[0..n - 1]"]
    by (simp add: receiver_clrfreq_def clr_needed_always recv_from_def send_all_def aset_def arr_def upd_cp_def)
  then obtain s' where s': "receiver_clrfreq wait_elapsed p s = Some s'" "sv_in s' = (sv_in s)(Driver RECV := rest)" "sv_site_ini s' = sv_site_ini s"
      "sv_heap s' p = Some (cp\<lparr>cp_clrfreqsearch := c, cp_state := Some (st\<lparr>st_N := n, st_fft_array := Some arr\<rparr>)\<rparr>)" by blast
  show thesis by (rule that [OF s'(1,4,2,3) len b vals])
qed

text \<open>
  A search fills the bins. When the receiver driver answers with search parameters and \<open>n\<close>
  powers, the search returns, stores \<open>n\<close> bins of 1 kHz centred on the band, and every bin between
  8 and 20 MHz has the power the driver measured for it. A cached result is never used: a new
  search is made whatever the elapsed time.
\<close>

lemma clrfreq_fills_bins:
  assumes "sv_heap s p = Some cp" "cp_parameters cp = Some prm" "cp_state cp = Some st"
    "sv_in s (Driver RECV) = W_CLRFreqPRM c # W_int n # W_doubles pwr # W_DriverMsg m # rest" "int (length pwr) = n"
    "1 \<le> pr_radar prm" "pr_radar prm \<le> int (length (sv_clr_pwr s))" "\<forall>row \<in> set (sv_clr_pwr s). int (length row) = max_freqs"
    "cdiv (cl_end c + cl_start c) 2 = Some centre" "cdiv n 2 = Some half"
  shows "\<exists>s' st' arr. receiver_clrfreq wait_elapsed p s = Some s' \<and> state_of s' p = Some st' \<and> st_N st' = n \<and>
    st_fft_array st' = Some arr \<and> int (length arr) = n \<and> bins (centre - half) arr \<and> sv_in s' (Driver RECV) = rest \<and>
    (\<forall>i < length arr. full_clr_start \<le> centre - half + int i \<and> centre - half + int i < full_clr_end \<longrightarrow> ff_pwr (arr ! i) = pwr ! i)"
proof -
  obtain s' arr where "receiver_clrfreq wait_elapsed p s = Some s'"
    "sv_heap s' p = Some (cp\<lparr>cp_clrfreqsearch := c, cp_state := Some (st\<lparr>st_N := n, st_fft_array := Some arr\<rparr>)\<rparr>)"
    "sv_in s' = (sv_in s)(Driver RECV := rest)" "sv_site_ini s' = sv_site_ini s" "int (length arr) = n" "bins (centre - half) arr"
    "\<forall>i < length arr. full_clr_start \<le> centre - half + int i \<and> centre - half + int i < full_clr_end \<longrightarrow> ff_pwr (arr ! i) = pwr ! i"
    by (rule clrfreq_result [where wait_elapsed = wait_elapsed, OF assms])
  then show ?thesis by (intro exI [of _ s'] exI [of _ "st\<lparr>st_N := n, st_fft_array := Some arr\<rparr>"] exI [of _ arr]) (simp add: state_of_def)
qed

section \<open>Examples\<close>

text \<open>
  A server with two programs: number 7 searches from 10000 to 10004 kHz, number 8 is active on 10001 kHz, and
  10000 kHz is restricted.
\<close>

definition bin_at :: "int \<Rightarrow> real \<Rightarrow> t_fft_index" where
  "bin_at f p = \<lparr>ff_pwr = p, ff_apwr = 0, ff_freq = real_of_int f, ff_detrend = 0, ff_index = 0\<rparr>"

definition search_cp :: ControlProgram where
  "search_cp = new_cp\<lparr>cp_clrfreqsearch := \<lparr>cl_start = 10000, cl_end = 10004, cl_filter_bandwidth = 0, cl_pwr_threshold = 0, cl_nave = 1\<rparr>,
     cp_parameters := Some (idle_prm\<lparr>pr_radar := 1, pr_baseband_samplerate := 0\<rparr>),
     cp_state := Some (idle_state\<lparr>st_N := 5,
       st_fft_array := Some [bin_at 10000 1, bin_at 10001 2, bin_at 10002 3, bin_at 10003 0, bin_at 10004 0]\<rparr>)\<rparr>"

definition busy_cp :: ControlProgram where
  "busy_cp = new_cp\<lparr>cp_state := Some (idle_state\<lparr>st_best_assigned_freq := 10001, st_rx_sideband := 0\<rparr>)\<rparr>"

definition search_server :: server where
  "search_server = idle_server\<lparr>sv_heap := [7 \<mapsto> search_cp, 8 \<mapsto> busy_cp],
     sv_threads := [(1, 11, 60, 0, 7), (2, 12, 60, 0, 8)], sv_blacklist := [(9000, 10000, None)], sv_site_ini := None,
     sv_clr_pwr := [replicate 12000 0, replicate 12000 0],
     sv_in := (\<lambda>_. [W_CLRFreqPRM (cp_clrfreqsearch search_cp), W_int 2, W_doubles [5, 6], drv_msg CLRFREQ_code 1])\<rparr>"

lemma search_server_sel:
  "sv_heap search_server 7 = Some search_cp" "sv_heap search_server 8 = Some busy_cp" "programs search_server = [7, 8]" "sv_site_ini search_server = None"
  "sv_blacklist search_server = [(9000, 10000, None)]"
  by (simp_all add: search_server_def programs_def)

lemma search_cp_sel:
  "cp_clrfreqsearch search_cp = \<lparr>cl_start = 10000, cl_end = 10004, cl_filter_bandwidth = 0, cl_pwr_threshold = 0, cl_nave = 1\<rparr>"
  "cp_parameters search_cp = Some (idle_prm\<lparr>pr_radar := 1, pr_baseband_samplerate := 0\<rparr>)"
  "cp_state search_cp = Some (idle_state\<lparr>st_N := 5,
       st_fft_array := Some [bin_at 10000 1, bin_at 10001 2, bin_at 10002 3, bin_at 10003 0, bin_at 10004 0]\<rparr>)"
  "cp_active busy_cp = 1" "cp_state busy_cp = Some (idle_state\<lparr>st_best_assigned_freq := 10001, st_rx_sideband := 0\<rparr>)"
  by (simp_all add: search_cp_def busy_cp_def)

lemma search_bins: "bins 10000 [bin_at 10000 1, bin_at 10001 2, bin_at 10002 3, bin_at 10003 0, bin_at 10004 0]"
  by (simp add: bins_def bin_at_def All_less_Suc numeral_eq_Suc)

lemma search_runs: "\<exists>s'. receiver_assign_frequency (sort_key ff_apwr) 0 7 search_server = Some s'"
proof -
  have c: "candidates 0 7 search_cp prm fs search_server \<noteq> None" for prm fs
    by (simp add: candidates_def search_server_sel search_cp_sel band_fill_cases site_consts)
  have "\<exists>s'. Option.bind (candidates 0 7 search_cp prm fs search_server) (\<lambda>good. Some (f good)) = Some s'" for prm fs and f :: "t_fft_index list \<Rightarrow> server"
    using c [of prm fs] by (cases "candidates 0 7 search_cp prm fs search_server") simp_all
  then show ?thesis
    by (simp add: receiver_assign_frequency_def search_server_sel search_cp_sel prepare_fft_def iniparser_getboolean_def
        iniparser_getstring_def upd_state_def state_of_def)
qed

lemma search_free: "filter (free_freq search_server 7) [10000..10002] = [10002]"
proof -
  have "[10000..10002] = [10000, 10001, 10002 :: int]" by (simp add: upto.simps)
  moreover have "free_freq search_server 7 10002" "\<not> free_freq search_server 7 10000" "\<not> free_freq search_server 7 10001"
    by (simp_all add: free_freq_def search_server_sel search_cp_sel)
  ultimately show ?thesis by simp
qed

theorem assigned_frequency_clear_witness:
  "\<exists>s' st'. receiver_assign_frequency (sort_key ff_apwr) 0 7 search_server = Some s' \<and> state_of s' 7 = Some st' \<and>
    (st_best_assigned_freq st' = 0 \<or> free_freq search_server 7 (st_best_assigned_freq st'))"
proof -
  obtain s' where s': "receiver_assign_frequency (sort_key ff_apwr) 0 7 search_server = Some s'" using search_runs by blast
  show ?thesis
    using assigned_frequency_clear [OF s' sort_key_is_qsort search_server_sel(1) search_cp_sel(3) _ search_bins] s'
    by (auto simp: search_server_sel site_consts)
qed


theorem clrfreq_fills_bins_witness:
  "\<exists>s' st' arr. receiver_clrfreq 0 7 search_server = Some s' \<and> state_of s' 7 = Some st' \<and> st_fft_array st' = Some arr \<and> bins 10001 arr"
  using clrfreq_fills_bins [where s = search_server and p = 7 and pwr = "[5, 6]" and n = 2 and centre = 10002 and half = 1 and
      wait_elapsed = 0, OF search_server_sel(1) search_cp_sel(2,3)]
  by (auto simp: search_server_def search_cp_sel max_freqs_def full_clr_start_def full_clr_end_def cdiv_def)

end
