(* ===== verification/Client_Handler.thy ===== *)
theory Client_Handler
  imports Coordination Clear_Freq
begin

text \<open>
  The conversation of the server with a control program: \<^verbatim>\<open>control_handler\<close>, its commands, and
  \<^verbatim>\<open>controlprogram_exit\<close> of \<^verbatim>\<open>server/client_handler.c\<close>. One definition stands for one case of the switch
  over the message type; \<open>client_command\<close> is one turn of the loop, from the arrival of a message
  to the reply. A command runs as a whole: the lists it works on are locked, and the interleaving
  with other clients is the order of their commands. Threads that a command starts and joins run
  in the order \<open>ev_order\<close> (\<open>ev_sched\<close> for the pretriggers).

  The lemmas show that commands keep the invariant of the registry and the programs, that every
  command is answered by exactly one \<^verbatim>\<open>struct ROSMsg\<close> of the type of the request, and that a client that
  holds no radar channel moves no driver.
\<close>

section \<open>Model\<close>

text \<open>What a command finds outside the server: the clock, thread schedules, memory contents.\<close>

record env =
  ev_now :: int
  ev_sched :: "drv list"
  ev_order :: "drv list"
  ev_qsort :: "t_fft_index list \<Rightarrow> t_fft_index list"
  ev_verbose :: int
  ev_timed_out :: bool
  ev_shm :: "bool \<Rightarrow> int \<Rightarrow> int \<Rightarrow> int \<Rightarrow> int \<Rightarrow> int list"
  ev_elapsed :: u64
  ev_stack :: ControlPRM
  ev_usleep_file :: bool

text \<open>
  The local variables of \<^verbatim>\<open>control_handler\<close> that live from one command to the next: its socket,
  \<^verbatim>\<open>status\<close>, \<^verbatim>\<open>control_parameters\<close> and the buffer \<^verbatim>\<open>entry_name\<close>. Nothing initialises the last three.
\<close>

record session =
  se_socket :: int
  se_status :: int
  se_prm :: ControlPRM
  se_entry :: string

type_synonym command = "env \<Rightarrow> cpid \<Rightarrow> ROSMsg \<Rightarrow> session \<Rightarrow> server \<Rightarrow> (session \<times> server) option"

definition ENTRY_NAME_SIZE :: nat where "ENTRY_NAME_SIZE = 80"

text \<open>The guard of most commands: the radar or the channel has not been set.\<close>

definition unregistered :: "ControlProgram \<Rightarrow> bool" where
  "unregistered cp \<longleftrightarrow> ri_radar (cp_radarinfo cp) - 1 < 0 \<or> ri_channel (cp_radarinfo cp) - 1 < 0"

definition send_client :: "session \<Rightarrow> wire list \<Rightarrow> server \<Rightarrow> server" where
  "send_client se ws s = send_all (Client (se_socket se)) ws s"

definition recv_client :: "(wire list \<Rightarrow> ('a \<times> wire list) option) \<Rightarrow> session \<Rightarrow> server \<Rightarrow> ('a \<times> server) option" where
  "recv_client rx se s = recv_from rx (Client (se_socket se)) s"

text \<open>The items of an answer followed by the message with its status.\<close>

definition answer :: "session \<Rightarrow> wire list \<Rightarrow> ROSMsg \<Rightarrow> int \<Rightarrow> server \<Rightarrow> server" where
  "answer se ws m status s = send_client se (ws @ [W_ROSMsg (m\<lparr>rm_status := status\<rparr>)]) s"

definition cmd_ping :: command where
  "cmd_ping e p m se s = Some (se, answer se [] m 1 s)"

definition cmd_set_active :: "int \<Rightarrow> command" where
  "cmd_set_active v e p m se s = do {
     cp \<leftarrow> sv_heap s p;
     if unregistered cp then Some (se, answer se [] m (-1) s)
     else do {
       s1 \<leftarrow> (if cp_active cp \<noteq> 0
               then coordination_handler (ev_sched e) p (upd_cp p (\<lambda>cp. cp\<lparr>cp_active := v\<rparr>) s)
               else Some s);
       Some (se, answer se [] m 1 s1)
     }
   }"

text \<open>
  A query of the site configuration. The name arrives in a buffer of 80 bytes that keeps what
  earlier queries left. The case \<^verbatim>\<open>'s'\<close> has no \<^verbatim>\<open>break\<close>: the items of the default case follow.
\<close>

definition c_string :: "string \<Rightarrow> string option" where
  "c_string buf = (if CHR 0x00 \<in> set buf then Some (takeWhile (\<lambda>c. c \<noteq> CHR 0x00) buf) else None)"

definition chars_item :: "string \<Rightarrow> wire list" where
  "chars_item v = (if v = [] then [] else [W_chars v])"

definition ini_items :: "dictionary option \<Rightarrow> string \<Rightarrow> char \<Rightarrow> wire list option" where
  "ini_items ini name ty =
    (if ty = CHR ''i'' then map_option (\<lambda>v. [W_char ty, W_int 1, W_int v]) (iniparser_getint ini name (-1))
     else if ty = CHR ''b'' then map_option (\<lambda>v. [W_char ty, W_int 1, W_int v]) (iniparser_getboolean ini name (-1))
     else if ty = CHR ''s'' then
       (case iniparser_getstring ini (Some name) CNull of
          CStr v \<Rightarrow> Some ([W_char ty, W_int (int (length v))] @ chars_item v @ [W_char CHR '' '', W_int 0])
        | _ \<Rightarrow> None)
     else Some [W_char CHR '' '', W_int 0])"

definition cmd_query_ini :: command where
  "cmd_query_ini e p m se s = do {
     (n, s1) \<leftarrow> recv_client rx_int se s;
     (cs, s2) \<leftarrow> recv_client (rx_chars n) se s1;
     (ty, s3) \<leftarrow> recv_client rx_char se s2;
     if length cs > ENTRY_NAME_SIZE then None else do {
       let buf = cs @ drop (length cs) (se_entry se);
       name \<leftarrow> c_string buf;
       ws \<leftarrow> ini_items (sv_site_ini s3) name ty;
       Some (se\<lparr>se_entry := buf\<rparr>, answer se ws m (iniparser_find_entry (sv_site_ini s3) name) s3)
     }
   }"

definition cmd_get_site_settings :: command where
  "cmd_get_site_settings e p m se s = Some (se, answer se [W_SiteSettings (sv_site_settings s)] m (-1) s)"

text \<open>The mode is read into a local copy of the settings.\<close>

definition cmd_set_site_ifmode :: command where
  "cmd_set_site_ifmode e p m se s = do {
     (mode, s1) \<leftarrow> recv_client rx_int se s;
     Some (se, answer se [] m (-1) s1)
   }"

definition cmd_set_radar_chan :: command where
  "cmd_set_radar_chan e p m se s = do {
     (radar, s1) \<leftarrow> recv_client rx_int se s;
     (channel, s2) \<leftarrow> recv_client rx_int se s1;
     (status, s3) \<leftarrow> register_radar_channel p radar channel s2;
     Some (se\<lparr>se_status := status\<rparr>, answer se [] m status s3)
   }"

definition cmd_link_radar_chan :: command where
  "cmd_link_radar_chan e p m se s = do {
     (r, s1) \<leftarrow> recv_client rx_int se s;
     (c, s2) \<leftarrow> recv_client rx_int se s1;
     let q = find_registered_controlprogram_by_radar_channel s2 r c;
     let status = (if q \<noteq> None then 1 else 0);
     s3 \<leftarrow> upd_state p (\<lambda>st. st\<lparr>st_linked_program := q, st_linked := 1\<rparr>) s2;
     Some (se\<lparr>se_status := status\<rparr>, answer se [] m status s3)
   }"

definition cmd_get_parameters :: command where
  "cmd_get_parameters e p m se s = do {
     cp \<leftarrow> sv_heap s p;
     if unregistered cp then Some (se, answer se [W_ControlPRM (se_prm se)] m (-1) s)
     else do {
       prm \<leftarrow> controlprogram_fill_parameters (ev_stack e) p s;
       Some (se\<lparr>se_prm := prm\<rparr>, answer se [W_ControlPRM prm] m (se_status se) s)
     }
   }"

text \<open>The data of a good collection: samples, transmit times and transmitter status.\<close>

definition data_items :: "ControlProgram \<Rightarrow> DataPRM \<Rightarrow> server \<Rightarrow> wire list option" where
  "data_items cp d s =
    (if da_status d \<noteq> 0 then Some [W_DataPRM d]
     else do {
       main \<leftarrow> cp_main cp;
       back \<leftarrow> cp_back cp;
       tx \<leftarrow> aref (sv_txstatus s) (ri_radar (cp_radarinfo cp) - 1);
       Some [W_DataPRM d, W_uints (take (nat (da_samples d)) main), W_uints (take (nat (da_samples d)) back),
         W_int (tr_length (sv_bad_times s)), W_uints (tr_start_usec (sv_bad_times s)), W_uints (tr_duration_usec (sv_bad_times s)),
         W_int (int MAX_TRANSMITTERS), W_uints (tx_AGC tx), W_uints (tx_LOWPWR tx)]
     })"

definition cmd_get_data :: command where
  "cmd_get_data e p m se s = do {
     cp \<leftarrow> sv_heap s p;
     if unregistered cp then do {
       s1 \<leftarrow> upd_data p (\<lambda>d. d\<lparr>da_status := -1\<rparr>) s;
       cp1 \<leftarrow> sv_heap s1 p;
       d \<leftarrow> cp_data cp1;
       Some (se, answer se [W_DataPRM d] m (-1) s1)
     } else do {
       s1 \<leftarrow> receiver_controlprogram_get_data (ev_timed_out e) (ev_shm e) (Some p) s;
       st \<leftarrow> state_of s1 p;
       s2 \<leftarrow> upd_data p (\<lambda>d. d\<lparr>da_event_secs := st_gpssecond st, da_event_nsecs := st_gpsnsecond st\<rparr>) s1;
       cp2 \<leftarrow> sv_heap s2 p;
       d \<leftarrow> cp_data cp2;
       ws \<leftarrow> data_items cp2 d s2;
       Some (se, answer se ws m (se_status se) s2)
     }
   }"

definition cmd_set_parameters :: command where
  "cmd_set_parameters e p m se s = do {
     cp \<leftarrow> sv_heap s p;
     (prm, s1) \<leftarrow> recv_client rx_prm se s;
     if unregistered cp then do {
       s2 \<leftarrow> upd_parameters p (\<lambda>_. prm) s1;
       Some (se, answer se [] m (-1) s2)
     } else do {
       s2 \<leftarrow> upd_parameters p (\<lambda>_. if pr_rfreq prm < 0 then prm\<lparr>pr_rfreq := pr_tfreq prm\<rparr> else prm) s1;
       Some (se, answer se [] m 1 s2)
     }
   }"

text \<open>
  A new pulse sequence. Its index comes from the client and is not checked: outside the array of
  \<^verbatim>\<open>MAX_SEQS\<close> pointers there is no result.
\<close>

definition store_seq :: "SeqPRM \<Rightarrow> u8 list \<Rightarrow> u8 list \<Rightarrow> cpid \<Rightarrow> server \<Rightarrow> server option" where
  "store_seq t rep code p s = do {
     st \<leftarrow> state_of s p;
     seqs \<leftarrow> aset (st_pulseseqs st) (sq_index t)
        (Some \<lparr>tb_index = sq_index t, tb_len = sq_len t, tb_step = sq_step t, tb_code = code, tb_rep = rep, tb_prm = None\<rparr>);
     s1 \<leftarrow> upd_state p (\<lambda>st. st\<lparr>st_pulseseqs := seqs\<rparr>) s;
     upd_parameters p (\<lambda>prm. prm\<lparr>pr_current_pulseseq_index := sq_index t\<rparr>) s1
   }"

definition seq_thread :: "cpid \<Rightarrow> drv \<Rightarrow> server \<Rightarrow> server option" where
  "seq_thread p d = (if d = TIMING then timing_register_seq p else if d = DDS then dds_register_seq p else Some)"

definition cmd_register_seq :: command where
  "cmd_register_seq e p m se s = do {
     (t, s1) \<leftarrow> recv_client rx_seqprm se s;
     (rep, s2) \<leftarrow> recv_client (rx_bytes (sq_len t)) se s1;
     (code, s3) \<leftarrow> recv_client (rx_bytes (sq_len t)) se s2;
     s4 \<leftarrow> store_seq t rep code p s3;
     cp \<leftarrow> sv_heap s4 p;
     if unregistered cp then Some (se, answer se [] m (-1) s4)
     else do {
       s5 \<leftarrow> run_threads (seq_thread p) (ev_order e) s4;
       Some (se, answer se [] m 1 s5)
     }
   }"

definition ready_thread :: "cpid \<Rightarrow> drv \<Rightarrow> server \<Rightarrow> server option" where
  "ready_thread p d =
    (case d of
       DIO \<Rightarrow> DIO_ready_controlprogram (Some p) | TIMING \<Rightarrow> timing_ready_controlprogram (Some p)
     | DDS \<Rightarrow> dds_ready_controlprogram (Some p) | RECV \<Rightarrow> receiver_ready_controlprogram (Some p) | GPS \<Rightarrow> Some)"

definition cmd_set_ready :: command where
  "cmd_set_ready e p m se s = do {
     cp \<leftarrow> sv_heap s p;
     if unregistered cp then Some (se, answer se [] m (-1) s)
     else do {
       let s1 = (if cp_active cp \<noteq> 0 then upd_cp p (\<lambda>cp. cp\<lparr>cp_active := 1\<rparr>) s else s);
       s2 \<leftarrow> timing_wait s1;
       s3 \<leftarrow> run_threads (ready_thread p) (ev_order e) s2;
       s4 \<leftarrow> coordination_handler (ev_sched e) p s3;
       Some (se, answer se [] m 0 s4)
     }
   }"

text \<open>The search first reads a delay from \<^verbatim>\<open>/ros_usleep.txt\<close>, without a test that the file could be opened.\<close>

definition cmd_clear_freq_search :: command where
  "cmd_clear_freq_search e p m se s = do {
     _ \<leftarrow> (if ev_usleep_file e then Some () else None);
     (c, s1) \<leftarrow> recv_client rx_clr se s;
     cp \<leftarrow> sv_heap s1 p;
     let s2 = upd_cp p (\<lambda>cp. cp\<lparr>cp_clrfreqsearch := c\<rparr>) s1;
     if unregistered cp then Some (se, answer se [] m (-1) s2)
     else do {
       s3 \<leftarrow> DIO_clrfreq (Some p) s2;
       s4 \<leftarrow> receiver_clrfreq (ev_elapsed e) p s3;
       s5 \<leftarrow> DIO_rxfe_reset s4;
       st \<leftarrow> state_of s5 p;
       Some (se, answer se [] m (st_freq_change_needed st) s5)
     }
   }"

definition cmd_assigned_freq :: command where
  "cmd_assigned_freq e p m se s = do {
     cp \<leftarrow> sv_heap s p;
     (status, s1) \<leftarrow>
       (if unregistered cp
        then map_option (Pair (- 1)) (upd_state p (\<lambda>st. st\<lparr>st_current_assigned_freq := 0, st_current_assigned_noise := 0\<rparr>) s)
        else do {
          s1 \<leftarrow> receiver_assign_frequency (ev_qsort e) (ev_verbose e) p s;
          st \<leftarrow> state_of s1 p;
          Some (if st_best_assigned_freq st \<noteq> st_current_assigned_freq st then 1 else 0, s1)
        });
     st \<leftarrow> state_of s1 p;
     Some (se, answer se [W_int (st_current_assigned_freq st), W_float (st_current_assigned_noise st)] m status s1)
   }"

definition cmd_other :: command where
  "cmd_other e p m se s = Some (se, answer se [] m 1 s)"

definition cmd_quit :: command where
  "cmd_quit e p m se s = Some (se, answer se [] m 0 s)"

text \<open>The switch over the message type.\<close>

definition client_switch :: "char \<Rightarrow> command" where
  "client_switch c =
    (if c = CHR ''='' then cmd_ping
     else if c = CHR ''a'' then cmd_set_active (-1)
     else if c = CHR ''A'' then cmd_set_active 1
     else if c = CHR ''i'' then cmd_query_ini
     else if c = CHR ''s'' then cmd_get_site_settings
     else if c = CHR ''I'' then cmd_set_site_ifmode
     else if c = CHR ''R'' then cmd_set_radar_chan
     else if c = CHR ''L'' then cmd_link_radar_chan
     else if c = CHR ''c'' then cmd_get_parameters
     else if c = CHR ''d'' then cmd_get_data
     else if c = CHR ''C'' then cmd_set_parameters
     else if c = CHR ''+'' then cmd_register_seq
     else if c = CHR ''1'' then cmd_set_ready
     else if c = CHR ''<'' then cmd_clear_freq_search
     else if c = CHR ''>'' then cmd_assigned_freq
     else if c = CHR ''.'' then cmd_quit
     else cmd_other)"

text \<open>The client has been heard of: its item of the thread list, found through \<^verbatim>\<open>state->thread\<close>.\<close>

definition touch_thread :: "int \<Rightarrow> cpid \<Rightarrow> server \<Rightarrow> server option" where
  "touch_thread now p s = do {
     st \<leftarrow> state_of s p;
     a \<leftarrow> st_thread st;
     if a \<in> fst ` set (sv_threads s)
     then Some (s\<lparr>sv_threads := map (\<lambda>(b, t, tmo, seen, q). (b, t, tmo, if b = a then now else seen, q)) (sv_threads s)\<rparr>)
     else None
   }"

text \<open>One turn of the loop. The flag is false when the command was \<^verbatim>\<open>QUIT\<close>.\<close>

definition client_command :: "env \<Rightarrow> cpid \<Rightarrow> session \<Rightarrow> server \<Rightarrow> (bool \<times> session \<times> server) option" where
  "client_command e p se s = do {
     cp \<leftarrow> sv_heap s p;
     s1 \<leftarrow> (if unregistered cp then upd_data p (\<lambda>d. d\<lparr>da_status := -1\<rparr>) s else Some s);
     (m, s2) \<leftarrow> recv_client rx_ros se s1;
     s3 \<leftarrow> touch_thread (ev_now e) p s2;
     (se', s4) \<leftarrow> client_switch (rm_type m) e p m se s3;
     Some (rm_type m \<noteq> CHR ''.'', se', s4)
   }"

section \<open>Leaving\<close>

definition end_thread :: "drv \<Rightarrow> server \<Rightarrow> server option" where
  "end_thread d =
    (case d of DDS \<Rightarrow> dds_end_controlprogram | TIMING \<Rightarrow> timing_end_controlprogram
     | RECV \<Rightarrow> receiver_end_controlprogram None | _ \<Rightarrow> Some)"

text \<open>What remains of the program when its memory has been freed.\<close>

definition freed :: "ControlProgram \<Rightarrow> ControlProgram" where
  "freed cp = cp\<lparr>cp_state := None, cp_parameters := None, cp_main := None, cp_back := None,
     cp_main_address := 0, cp_back_address := 0, cp_data := None, cp_active := 0\<rparr>"

definition controlprogram_exit :: "env \<Rightarrow> cpid \<Rightarrow> server \<Rightarrow> server option" where
  "controlprogram_exit e p s = do {
     s1 \<leftarrow> upd_state p (\<lambda>st. st\<lparr>st_cancelled := 1\<rparr>) s;
     s2 \<leftarrow> coordination_handler (ev_sched e) p (upd_cp p (\<lambda>cp. cp\<lparr>cp_active := 0\<rparr>) s1);
     s3 \<leftarrow> timing_wait s2;
     s4 \<leftarrow> run_threads end_thread (ev_order e) s3;
     (n, s5) \<leftarrow> unregister_radar_channel (Some p) s4;
     Some (upd_cp p freed s5)
   }"

section \<open>What commands leave alone\<close>

text \<open>The result of a search, if there is one, is made of bins of 1 kHz.\<close>

definition fft_fine :: "ControlProgram \<Rightarrow> bool" where
  "fft_fine cp \<longleftrightarrow> (\<forall>st arr. cp_state cp = Some st \<longrightarrow> st_fft_array st = Some arr \<longrightarrow> st_N st = int (length arr) \<and> (\<exists>a. bins a arr))"

text \<open>
  Two states of a program of the same shape: the same members exist, the registration, the
  thread and the cancelled flag are the same, and a program that has been freed stays inactive.
\<close>

definition same_shape :: "ControlProgram \<Rightarrow> ControlProgram \<Rightarrow> bool" where
  "same_shape cp cp' \<longleftrightarrow>
     (cp_parameters cp' = None \<longleftrightarrow> cp_parameters cp = None) \<and> (cp_data cp' = None \<longleftrightarrow> cp_data cp = None) \<and>
     map_option (\<lambda>st. (st_thread st, st_cancelled st)) (cp_state cp') = map_option (\<lambda>st. (st_thread st, st_cancelled st)) (cp_state cp) \<and> cp_radarinfo cp' = cp_radarinfo cp \<and>
     (cp_state cp = None \<longrightarrow> cp_active cp = 0 \<longrightarrow> cp_active cp' = 0) \<and> (fft_fine cp \<longrightarrow> fft_fine cp')"

definition thread_keys :: "server \<Rightarrow> (nat \<times> cpid) list" where
  "thread_keys s = map (\<lambda>x. (fst x, thread_cp x)) (sv_threads s)"

definition to_driver :: "endpoint \<times> wire \<Rightarrow> bool" where
  "to_driver x \<longleftrightarrow> (case fst x of Driver _ \<Rightarrow> True | Client _ \<Rightarrow> False)"

definition keeps :: "server \<Rightarrow> server \<Rightarrow> bool" where
  "keeps s s' \<longleftrightarrow> sv_channels s' = sv_channels s \<and> thread_keys s' = thread_keys s \<and>
     (\<forall>q. rel_option same_shape (sv_heap s q) (sv_heap s' q)) \<and> (\<exists>ws. sv_out s' = sv_out s @ ws \<and> list_all to_driver ws)"

lemma same_shape_refl [simp]: "same_shape cp cp"
  by (simp add: same_shape_def)

lemma same_shape_trans: "same_shape a b \<Longrightarrow> same_shape b c \<Longrightarrow> same_shape a c"
  unfolding same_shape_def by (cases "cp_state a"; cases "cp_state b") auto

lemma keeps_refl [simp]: "keeps s s"
  by (simp add: keeps_def option.rel_refl)

lemma keeps_trans [trans]:
  assumes "keeps a b" "keeps b c"
  shows "keeps a c"
proof -
  obtain v w where "sv_out b = sv_out a @ v" "sv_out c = sv_out b @ w" "list_all to_driver v" "list_all to_driver w"
    using assms by (auto simp: keeps_def)
  then have "\<exists>ws. sv_out c = sv_out a @ ws \<and> list_all to_driver ws" by (intro exI [of _ "v @ w"]) simp
  moreover have "rel_option same_shape (sv_heap a q) (sv_heap c q)" for q
  proof -
    have "rel_option same_shape (sv_heap a q) (sv_heap b q)" "rel_option same_shape (sv_heap b q) (sv_heap c q)"
      using assms by (simp_all add: keeps_def)
    then show ?thesis by (cases "sv_heap b q") (auto simp: option_rel_Some1 option_rel_Some2 intro: same_shape_trans)
  qed
  ultimately show ?thesis using assms by (simp add: keeps_def)
qed

lemma keeps_out:
  assumes "sv_heap s' = sv_heap s" "sv_threads s' = sv_threads s" "sv_channels s' = sv_channels s" "sv_out s' = sv_out s @ map (Pair (Driver d)) ws"
  shows "keeps s s'"
proof -
  have "list_all to_driver (map (Pair (Driver d)) ws)" by (simp add: list_all_iff to_driver_def)
  then show ?thesis using assms by (auto simp: keeps_def thread_keys_def option.rel_refl)
qed

lemma keeps_other:
  assumes "sv_heap s' = sv_heap s" "sv_threads s' = sv_threads s" "sv_channels s' = sv_channels s" "sv_out s' = sv_out s"
  shows "keeps s s'"
  by (rule keeps_out [where ws = "[]"]) (use assms in simp_all)

lemma keeps_upd_cp:
  assumes "\<And>cp. sv_heap s p = Some cp \<Longrightarrow> same_shape cp (f cp)"
  shows "keeps s (upd_cp p f s)"
proof -
  have "rel_option same_shape (sv_heap s q) (sv_heap (upd_cp p f s) q)" for q
    using assms by (cases "sv_heap s q") (auto simp: option.rel_refl)
  then show ?thesis by (simp add: keeps_def thread_keys_def upd_cp_def)
qed

named_theorems keeps_dest

lemma keeps_recv [keeps_dest]: "recv_from rx e s = Some (x, s') \<Longrightarrow> keeps s s'"
  by (rule keeps_other) (auto simp: recv_from_Some)

lemma keeps_recv_client [keeps_dest]: "recv_client rx se s = Some (x, s') \<Longrightarrow> keeps s s'"
  unfolding recv_client_def by (rule keeps_recv)

lemma keeps_request [keeps_dest]: "request d ws s = Some s' \<Longrightarrow> keeps s s'"
  by (rule keeps_out [where d = d and ws = ws]) (auto simp: request_Some)

lemma keeps_send: "keeps s (send_all (Driver d) ws s)" "keeps s (send_to (Driver d) w s)"
  by (rule keeps_out [where d = d and ws = ws], simp_all, rule keeps_out [where d = d and ws = "[w]"], simp_all)

lemma keeps_upd_state [keeps_dest]:
  assumes "upd_state p f s = Some s'" "\<And>st. st_thread (f st) = st_thread st" "\<And>st. st_fft_array (f st) = st_fft_array st" "\<And>st. st_N (f st) = st_N st" "\<And>st. st_cancelled (f st) = st_cancelled st"
  shows "keeps s s'"
proof -
  obtain cp st where "sv_heap s p = Some cp" "cp_state cp = Some st" "s' = upd_cp p (\<lambda>cp. cp\<lparr>cp_state := Some (f st)\<rparr>) s"
    using assms(1) by (auto simp: upd_state_def state_of_def bind_eq_Some_conv split: option.splits)
  then show ?thesis using assms(2-5) by (auto simp: same_shape_def fft_fine_def intro!: keeps_upd_cp)
qed

lemma keeps_upd_parameters [keeps_dest]:
  assumes "upd_parameters p f s = Some s'"
  shows "keeps s s'"
proof -
  obtain cp prm where "sv_heap s p = Some cp" "cp_parameters cp = Some prm" "s' = upd_cp p (\<lambda>cp. cp\<lparr>cp_parameters := Some (f prm)\<rparr>) s"
    using assms(1) by (auto simp: upd_parameters_def parameters_of_def bind_eq_Some_conv split: option.splits)
  then show ?thesis by (auto simp: same_shape_def fft_fine_def intro!: keeps_upd_cp)
qed

lemma keeps_upd_data [keeps_dest]:
  assumes "upd_data p f s = Some s'"
  shows "keeps s s'"
proof -
  obtain cp d where "sv_heap s p = Some cp" "cp_data cp = Some d" "s' = upd_cp p (\<lambda>cp. cp\<lparr>cp_data := Some (f d)\<rparr>) s"
    using assms(1) by (auto simp: upd_data_def bind_eq_Some_conv)
  then show ?thesis by (auto simp: same_shape_def fft_fine_def intro!: keeps_upd_cp)
qed

lemma keeps_run_threads:
  assumes "\<And>d s s'. f d s = Some s' \<Longrightarrow> keeps s s'" "run_threads f ds s = Some s'"
  shows "keeps s s'"
  using assms(2)
proof (induction ds arbitrary: s)
  case (Cons d ds)
  then obtain s1 where "f d s = Some s1" "run_threads f ds s1 = Some s'" by (auto simp: bind_eq_Some_conv)
  then show ?case using assms(1) Cons.IH keeps_trans by blast
qed simp

section \<open>The conversations with the drivers\<close>

lemma keeps_bind:
  assumes "Option.bind a f = Some s'" "\<And>x. a = Some x \<Longrightarrow> f x = Some s' \<Longrightarrow> P"
  shows P
  using assms by (auto simp: bind_eq_Some_conv)

lemma keeps_pretrigger: "pretrigger d s = Some s' \<Longrightarrow> keeps s s'"
proof (cases "d = GPS")
  case False
  assume "pretrigger d s = Some s'"
  then obtain x where "s' = pre_done d x s" using pretrigger_eq [OF False] by auto
  then show ?thesis by (intro keeps_out [where ws = "[drv_msg PRETRIGGER_code 1]"]) (auto simp: pre_done_def)
qed (simp add: pretrigger_def)

lemma keeps_timing_trigger: "timing_trigger ty s = Some s' \<Longrightarrow> keeps s s'"
  by (auto simp: timing_trigger_def split: if_splits dest: keeps_request)

lemma keeps_gps_event_time: "gps_event_time s = Some (x, s') \<Longrightarrow> keeps s s'"
  by (rule keeps_out [where d = GPS and ws = "[drv_msg GET_EVENT_TIME_code 1]"])
    (auto simp: gps_event_time_def bind_eq_Some_conv recv_from_Some)

lemma keeps_transmitter_status: "DIO_transmitter_status r s = Some s' \<Longrightarrow> keeps s s'"
  by (rule keeps_out [where d = DIO and ws = "[drv_msg GET_TX_STATUS_code 1, W_int r]"])
    (auto simp: DIO_transmitter_status_def Let_def bind_eq_Some_conv recv_from_Some)

lemma keeps_after_trigger:
  assumes "after_trigger p sec nsec s = Some s'"
  shows "keeps s s'"
proof -
  obtain cp where cp: "sv_heap s p = Some cp" using assms by (auto simp: after_trigger_def bind_eq_Some_conv)
  show ?thesis
  proof (cases "cp_active cp = 1")
    case True
    then obtain s1 and prm :: ControlPRM and t :: int where s1: "upd_state p (\<lambda>st. st\<lparr>st_gpssecond := sec, st_gpsnsecond := nsec\<rparr>) s = Some s1"
      "(if t \<noteq> 0 then do {
         s2 \<leftarrow> DIO_transmitter_status (pr_radar prm) s1;
         tx \<leftarrow> aset (sv_txread s2) (pr_radar prm - 1) 0;
         Some (s2\<lparr>sv_txread := tx\<rparr>) } else Some s1) = Some s'"
      using assms cp unfolding after_trigger_def by (simp add: bind_eq_Some_conv split del: if_split) blast
    have "keeps s s1" using keeps_upd_state [OF s1(1)] by simp
    moreover have "keeps s1 s'"
    proof (cases "t \<noteq> 0")
      case True
      then obtain s2 tx where s2: "DIO_transmitter_status (pr_radar prm) s1 = Some s2" "s' = s2\<lparr>sv_txread := tx\<rparr>"
        using s1(2) by (auto simp: bind_eq_Some_conv)
      have "keeps s2 s'" by (rule keeps_other) (simp_all add: s2(2))
      then show ?thesis using keeps_transmitter_status [OF s2(1)] keeps_trans by blast
    qed (use s1(2) in simp)
    ultimately show ?thesis by (rule keeps_trans)
  qed (use assms cp in \<open>simp add: after_trigger_def\<close>)
qed

lemma keeps_release: "release_programs ps s = Some s' \<Longrightarrow> keeps s s'"
proof (induction ps arbitrary: s)
  case (Cons p ps)
  have "same_shape cp (start_processing cp)" for cp
    by (auto simp: same_shape_def fft_fine_def start_processing_def split: option.splits)
  then have "keeps s (upd_cp p start_processing s)" by (intro keeps_upd_cp)
  moreover have "keeps (upd_cp p start_processing s) s'" using Cons by (auto split: option.splits)
  ultimately show ?case by (rule keeps_trans)
qed simp

lemma keeps_mark_ready: "mark_ready p s = Some s' \<Longrightarrow> keeps s s'"
  by (erule mark_ready_cases) (auto simp: keeps_def thread_keys_def same_shape_def fft_fine_def option.rel_refl)

lemma keeps_coordination [keeps_dest]:
  assumes "coordination_handler sched p s = Some s'"
  shows "keeps s s'"
proof -
  obtain s1 where s1: "mark_ready p s = Some s1" using assms by (auto simp: coordination_handler_def bind_eq_Some_conv)
  have "keeps s1 s'"
  proof (cases "\<exists>s2. fire sched p s1 = Some s2 \<and> s' = s2\<lparr>sv_trigger_state := 0, sv_ready_count := 0, sv_ready_state := 0\<rparr>")
    case True
    then obtain s2 where s2: "fire sched p s1 = Some s2" "s' = s2\<lparr>sv_trigger_state := 0, sv_ready_count := 0, sv_ready_state := 0\<rparr>" by blast
    obtain t1 t2 sec nsec t3 t4 t5 t6 where st:
      "run_threads pretrigger sched s1 = Some t1" "timing_trigger (sv_trigger_type s1) t1 = Some t2"
      "gps_event_time t2 = Some ((sec, nsec), t3)" "after_trigger p sec nsec t3 = Some t4"
      "receiver_posttrigger t4 = Some t5" "timing_posttrigger t5 = Some t6" "release_programs (programs t6) t6 = Some s2"
      using s2(1) by (auto simp: fire_def bind_eq_Some_conv)
    have "keeps s1 t1" by (rule keeps_run_threads [OF keeps_pretrigger st(1)])
    also have "keeps t1 t2" by (rule keeps_timing_trigger [OF st(2)])
    also have "keeps t2 t3" by (rule keeps_gps_event_time [OF st(3)])
    also have "keeps t3 t4" by (rule keeps_after_trigger [OF st(4)])
    also have "keeps t4 t5" by (rule keeps_request [OF st(5) [unfolded receiver_posttrigger_def]])
    also have "keeps t5 t6" by (rule keeps_request [OF st(6) [unfolded timing_posttrigger_def]])
    also have "keeps t6 s2" by (rule keeps_release [OF st(7)])
    also have "keeps s2 s'" by (rule keeps_other) (simp_all add: s2(2))
    finally show ?thesis .
  next
    case False
    then obtain r where "s' = s1\<lparr>sv_ready_state := r\<rparr>"
      using assms s1 by (auto simp: coordination_handler_def bind_eq_Some_conv split: if_splits)
    then show ?thesis by (intro keeps_other) simp_all
  qed
  then show ?thesis using keeps_mark_ready [OF s1] keeps_trans by blast
qed

lemma keeps_get_data_good: "get_data_good shm p prm s = Some s' \<Longrightarrow> keeps s s'"
proof -
  assume "get_data_good shm p prm s = Some s'"
  then obtain i s7 g ma ba mv bv where s: "upd_data p g (s\<lparr>sv_in := i\<rparr>) = Some s7"
      "s' = upd_cp p (\<lambda>cp. cp\<lparr>cp_main_address := ma, cp_back_address := ba, cp_main := mv, cp_back := bv\<rparr>) s7"
    by (auto simp: get_data_good_def bind_eq_Some_conv recv_from_Some)
  have "keeps s (s\<lparr>sv_in := i\<rparr>)" by (rule keeps_other) simp_all
  also have "keeps \<dots> s7" by (rule keeps_upd_data [OF s(1)])
  also have "keeps s7 s'" unfolding s(2) by (rule keeps_upd_cp) (simp add: same_shape_def fft_fine_def)
  finally show ?thesis .
qed

lemma keeps_get_data_failed: "get_data_failed p s = Some s' \<Longrightarrow> keeps s s'"
proof -
  assume "get_data_failed p s = Some s'"
  then obtain s1 g where s: "upd_data p g (s\<lparr>sv_error_count := sv_error_count s + 1\<rparr>) = Some s1"
      "s' = upd_cp p (\<lambda>cp. cp\<lparr>cp_main := None, cp_back := None\<rparr>) s1"
    by (auto simp: get_data_failed_def bind_eq_Some_conv)
  have "keeps s (s\<lparr>sv_error_count := sv_error_count s + 1\<rparr>)" by (rule keeps_other) simp_all
  also have "keeps \<dots> s1" by (rule keeps_upd_data [OF s(1)])
  also have "keeps s1 s'" unfolding s(2) by (rule keeps_upd_cp) (simp add: same_shape_def fft_fine_def)
  finally show ?thesis .
qed

lemma keeps_get_data [keeps_dest]:
  assumes "receiver_controlprogram_get_data timed_out shm (Some p) s = Some s'"
  shows "keeps s s'"
proof -
  let ?s0 = "get_data_counts s" and ?s1 = "(get_data_counts s)\<lparr>sv_collection_count := sv_collection_count (get_data_counts s) + 1\<rparr>"
  have k0: "keeps s ?s0" by (rule keeps_other) (simp_all add: get_data_counts_def)
  have k1: "keeps s ?s1" by (rule keeps_trans [OF k0 keeps_other]) simp_all
  obtain cp where cp: "sv_heap ?s0 p = Some cp" using assms by (auto simp: receiver_controlprogram_get_data_def Let_def bind_eq_Some_conv)
  show ?thesis
  proof (cases "cp_state cp")
    case None
    then have "s' = ?s0" using assms cp by (simp add: receiver_controlprogram_get_data_def Let_def)
    then show ?thesis using k0 by simp
  next
    case (Some st)
    show ?thesis
    proof (cases "wait_flag timed_out st = 0")
      case True
      obtain g ws status s2 s3 g' s4 prm s5 m where s: "upd_data p g ?s1 = Some s2" "recv_from rx_int (Driver RECV) (send_all (Driver RECV) ws s2) = Some (status, s3)"
        "upd_data p g' s3 = Some s4" "(if status = 0 then get_data_good shm p prm s4 else get_data_failed p s4) = Some s5"
        "recv_from rx_msg (Driver RECV) s5 = Some (m, s')"
        using assms cp Some True by (simp add: receiver_controlprogram_get_data_def Let_def bind_eq_Some_conv split del: if_split) blast
      note k1
      also have "keeps ?s1 s2" by (rule keeps_upd_data [OF s(1)])
      also have "keeps s2 (send_all (Driver RECV) ws s2)" by (rule keeps_send)
      also have "keeps \<dots> s3" by (rule keeps_recv [OF s(2)])
      also have "keeps s3 s4" by (rule keeps_upd_data [OF s(3)])
      also have "keeps s4 s5" using s(4) keeps_get_data_good keeps_get_data_failed by (auto split: if_splits)
      also have "keeps s5 s'" by (rule keeps_recv [OF s(5)])
      finally show ?thesis .
    next
      case False
      obtain g s2 where s: "upd_data p g ?s1 = Some s2" "get_data_failed p s2 = Some s'"
        using assms cp Some False by (simp add: receiver_controlprogram_get_data_def Let_def bind_eq_Some_conv split del: if_split) blast
      show ?thesis using k1 keeps_upd_data [OF s(1)] keeps_get_data_failed [OF s(2)] keeps_trans by blast
    qed
  qed
qed

lemma keeps_ready_controlprogram: "ready_controlprogram d arg s = Some s' \<Longrightarrow> keeps s s'"
  by (auto simp: ready_controlprogram_def split: option.splits prod.splits dest: keeps_request)

lemma keeps_register_seq: "register_seq d p s = Some s' \<Longrightarrow> keeps s s'"
  by (auto simp: register_seq_def bind_eq_Some_conv dest: keeps_request)

lemma keeps_ready_thread: "ready_thread p d s = Some s' \<Longrightarrow> keeps s s'"
  by (cases d) (auto simp: ready_thread_def DIO_ready_controlprogram_def timing_ready_controlprogram_def dds_ready_controlprogram_def
      receiver_ready_controlprogram_def dest: keeps_ready_controlprogram)

lemma keeps_seq_thread: "seq_thread p d s = Some s' \<Longrightarrow> keeps s s'"
  by (auto simp: seq_thread_def timing_register_seq_def dds_register_seq_def dest: keeps_register_seq split: if_splits)

lemma keeps_end_thread: "end_thread d s = Some s' \<Longrightarrow> keeps s s'"
  by (cases d) (auto simp: end_thread_def dds_end_controlprogram_def timing_end_controlprogram_def receiver_end_controlprogram_def intro: keeps_send)

lemma fft_fill_bins:
  assumes "fft_fill a row is = Some fs" "is = [0..n - 1]"
  shows "bins a fs \<and> length fs = nat n"
proof -
  have "map ff_freq fs = map (\<lambda>i. real_of_int (a + i)) is"
    using assms(1) by (induction "is" arbitrary: fs) (auto simp: fft_entry_def bind_eq_Some_conv)
  note m = this
  have l: "length fs = length is" using arg_cong [OF m, of length] by simp
  have f: "ff_freq (fs ! i) = real_of_int (a + is ! i)" if "i < length is" for i
    using arg_cong [OF m, of "\<lambda>xs. xs ! i"] that l by simp
  show ?thesis using l f unfolding assms(2) by (simp add: bins_def)
qed

lemma rx_doubles_nonneg: "rx_doubles n i = Some (xs, r) \<Longrightarrow> 0 \<le> n"
  by (erule rx_doubles.elims) (auto split: if_splits)

lemma keeps_clrfreq [keeps_dest]:
  assumes "receiver_clrfreq w p s = Some s'"
  shows "keeps s s'"
proof -
  obtain cp st ws i clr c n a row fs where s: "sv_heap s p = Some cp" "cp_state cp = Some st" "fft_fill a row [0..n - 1] = Some fs" "0 \<le> n"
      "s' = upd_cp p (\<lambda>cp. cp\<lparr>cp_clrfreqsearch := c, cp_state := Some (st\<lparr>st_N := n, st_fft_array := Some fs\<rparr>)\<rparr>)
        ((send_all (Driver RECV) ws s)\<lparr>sv_in := i, sv_clr_pwr := clr\<rparr>)"
    using assms by (auto simp: receiver_clrfreq_def bind_eq_Some_conv recv_from_Some split: if_splits dest: rx_doubles_nonneg)
  have "keeps s ((send_all (Driver RECV) ws s)\<lparr>sv_in := i, sv_clr_pwr := clr\<rparr>)" by (rule keeps_out [where d = RECV and ws = ws]) simp_all
  also have "keeps \<dots> s'" unfolding s(5)
    by (rule keeps_upd_cp) (use s(1,2) fft_fill_bins [OF s(3) refl] s(4) in \<open>auto simp: same_shape_def fft_fine_def\<close>)
  finally show ?thesis .
qed

lemma assign_state_core [simp]:
  "st_thread (assign_state w good st) = st_thread st" "st_fft_array (assign_state w good st) = st_fft_array st" "st_N (assign_state w good st) = st_N st"
  "st_cancelled (assign_state w good st) = st_cancelled st"
  by (simp_all add: assign_state_def split: list.splits)

lemma keeps_assign_frequency [keeps_dest]:
  assumes "receiver_assign_frequency qs v p s = Some s'"
  shows "keeps s s'"
proof -
  obtain cp st where cp: "sv_heap s p = Some cp" "cp_state cp = Some st" using assms by (auto simp: receiver_assign_frequency_def bind_eq_Some_conv)
  show ?thesis
  proof (cases "st_fft_array st")
    case None
    then show ?thesis using assms cp by (auto simp: receiver_assign_frequency_def split: if_splits)
  next
    case (Some arr)
    obtain w good where "upd_state p (assign_state w good) s = Some s'"
      using assms cp Some by (auto simp: receiver_assign_frequency_def bind_eq_Some_conv)
    then show ?thesis by (rule keeps_upd_state) simp_all
  qed
qed

lemma keeps_dio_clrfreq [keeps_dest]: "DIO_clrfreq arg s = Some s' \<Longrightarrow> keeps s s'"
  by (auto simp: DIO_clrfreq_def split: option.splits dest: keeps_request)

lemma keeps_touch [keeps_dest]:
  assumes "touch_thread now p s = Some s'"
  shows "keeps s s'"
  using assms by (auto simp: touch_thread_def bind_eq_Some_conv keeps_def thread_keys_def option.rel_refl split: if_splits)

section \<open>Every command answers\<close>

text \<open>
  A command that returns has conversed with drivers at most, and then sent its items and one
  message on its own socket.
\<close>

definition no_ros :: "wire list \<Rightarrow> bool" where
  "no_ros ws \<longleftrightarrow> list_all (\<lambda>w. case w of W_ROSMsg _ \<Rightarrow> False | _ \<Rightarrow> True) ws"

definition answered_by :: "ROSMsg \<Rightarrow> session \<Rightarrow> session \<Rightarrow> server \<Rightarrow> server \<Rightarrow> bool" where
  "answered_by m se se' s s' \<longleftrightarrow> (\<exists>s1 ws status. keeps s s1 \<and> s' = answer se ws m status s1 \<and> no_ros ws \<and> se_socket se' = se_socket se)"

lemma answered_byI:
  "keeps s s1 \<Longrightarrow> s' = answer se ws m status s1 \<Longrightarrow> no_ros ws \<Longrightarrow> se_socket se' = se_socket se \<Longrightarrow> answered_by m se se' s s'"
  unfolding answered_by_def by blast

lemma no_ros_simps [simp]:
  "no_ros []" "no_ros (w # ws) \<longleftrightarrow> (case w of W_ROSMsg _ \<Rightarrow> False | _ \<Rightarrow> True) \<and> no_ros ws"
  "no_ros (ws @ vs) \<longleftrightarrow> no_ros ws \<and> no_ros vs" "no_ros (chars_item v)"
  by (simp_all add: no_ros_def chars_item_def)

lemma no_ros_ini_items: "ini_items ini name ty = Some ws \<Longrightarrow> no_ros ws"
  by (auto simp: ini_items_def split: if_splits cptr.splits)

lemma no_ros_data_items: "data_items cp d s = Some ws \<Longrightarrow> no_ros ws"
  by (auto simp: data_items_def bind_eq_Some_conv split: if_splits)

lemma answered_simple:
  "cmd_ping e p m se s = Some (se', s') \<Longrightarrow> answered_by m se se' s s'"
  "cmd_quit e p m se s = Some (se', s') \<Longrightarrow> answered_by m se se' s s'"
  "cmd_other e p m se s = Some (se', s') \<Longrightarrow> answered_by m se se' s s'"
  "cmd_get_site_settings e p m se s = Some (se', s') \<Longrightarrow> answered_by m se se' s s'"
  by (auto simp: cmd_ping_def cmd_quit_def cmd_other_def cmd_get_site_settings_def intro!: answered_byI [OF keeps_refl refl])

lemma answered_set_active: "cmd_set_active v e p m se s = Some (se', s') \<Longrightarrow> answered_by m se se' s s'"
proof -
  assume a: "cmd_set_active v e p m se s = Some (se', s')"
  then obtain cp where cp: "sv_heap s p = Some cp" by (auto simp: cmd_set_active_def bind_eq_Some_conv)
  show ?thesis
  proof (cases "unregistered cp")
    case True
    then show ?thesis using a cp by (auto simp: cmd_set_active_def intro!: answered_byI [OF keeps_refl refl])
  next
    case False
    then obtain s1 where s1: "(if cp_active cp \<noteq> 0 then coordination_handler (ev_sched e) p (upd_cp p (\<lambda>cp. cp\<lparr>cp_active := v\<rparr>) s) else Some s) = Some s1"
      "se' = se" "s' = answer se [] m 1 s1"
      using a cp by (auto simp: cmd_set_active_def bind_eq_Some_conv split del: if_split)
    have "keeps s s1"
    proof (cases "cp_active cp \<noteq> 0")
      case True
      have "keeps s (upd_cp p (\<lambda>cp. cp\<lparr>cp_active := v\<rparr>) s)"
        by (rule keeps_upd_cp) (use cp True in \<open>simp add: same_shape_def fft_fine_def\<close>)
      then show ?thesis using s1(1) True keeps_coordination keeps_trans by fastforce
    qed (use s1(1) in simp)
    then show ?thesis by (rule answered_byI [OF _ s1(3)]) (simp_all add: s1(2))
  qed
qed

lemma answered_query_ini: "cmd_query_ini e p m se s = Some (se', s') \<Longrightarrow> answered_by m se se' s s'"
proof -
  assume "cmd_query_ini e p m se s = Some (se', s')"
  then obtain n s1 cs s2 ty s3 buf name ws where s: "recv_client rx_int se s = Some (n, s1)" "recv_client (rx_chars n) se s1 = Some (cs, s2)"
    "recv_client rx_char se s2 = Some (ty, s3)" "ini_items (sv_site_ini s3) name ty = Some ws" "se' = se\<lparr>se_entry := buf\<rparr>"
    "s' = answer se ws m (iniparser_find_entry (sv_site_ini s3) name) s3"
    by (auto simp: cmd_query_ini_def bind_eq_Some_conv Let_def split: if_splits)
  have "keeps s s3"
    by (rule keeps_trans [OF keeps_recv_client [OF s(1)] keeps_trans [OF keeps_recv_client [OF s(2)] keeps_recv_client [OF s(3)]]])
  then show ?thesis by (rule answered_byI [OF _ s(6) no_ros_ini_items [OF s(4)]]) (simp add: s(5))
qed

lemma answered_ifmode: "cmd_set_site_ifmode e p m se s = Some (se', s') \<Longrightarrow> answered_by m se se' s s'"
  by (auto simp: cmd_set_site_ifmode_def bind_eq_Some_conv intro!: answered_byI [OF _ refl] intro: keeps_recv_client)

lemma answered_link: "cmd_link_radar_chan e p m se s = Some (se', s') \<Longrightarrow> answered_by m se se' s s'"
proof -
  assume "cmd_link_radar_chan e p m se s = Some (se', s')"
  then obtain r s1 c s2 q s3 status where s: "recv_client rx_int se s = Some (r, s1)" "recv_client rx_int se s1 = Some (c, s2)"
    "upd_state p (\<lambda>st. st\<lparr>st_linked_program := q, st_linked := 1\<rparr>) s2 = Some s3" "se' = se\<lparr>se_status := status\<rparr>" "s' = answer se [] m status s3"
    by (auto simp: cmd_link_radar_chan_def bind_eq_Some_conv Let_def)
  have "keeps s s2" by (rule keeps_trans [OF keeps_recv_client [OF s(1)] keeps_recv_client [OF s(2)]])
  also have "keeps s2 s3" by (rule keeps_upd_state [OF s(3)]) simp_all
  finally show ?thesis by (rule answered_byI [OF _ s(5)]) (simp_all add: s(4))
qed

lemma answered_get_parameters: "cmd_get_parameters e p m se s = Some (se', s') \<Longrightarrow> answered_by m se se' s s'"
  by (auto simp: cmd_get_parameters_def bind_eq_Some_conv split: if_splits intro!: answered_byI [OF keeps_refl refl])

lemma answered_get_data: "cmd_get_data e p m se s = Some (se', s') \<Longrightarrow> answered_by m se se' s s'"
proof -
  assume a: "cmd_get_data e p m se s = Some (se', s')"
  then obtain cp where cp: "sv_heap s p = Some cp" by (auto simp: cmd_get_data_def bind_eq_Some_conv)
  show ?thesis
  proof (cases "unregistered cp")
    case True
    then obtain s1 d where s: "upd_data p (\<lambda>d. d\<lparr>da_status := -1\<rparr>) s = Some s1" "se' = se" "s' = answer se [W_DataPRM d] m (-1) s1"
      using a cp by (auto simp: cmd_get_data_def bind_eq_Some_conv)
    show ?thesis by (rule answered_byI [OF keeps_upd_data [OF s(1)] s(3)]) (simp_all add: s(2))
  next
    case False
    then obtain s1 g s2 cp2 d ws where s: "receiver_controlprogram_get_data (ev_timed_out e) (ev_shm e) (Some p) s = Some s1"
      "upd_data p g s1 = Some s2" "data_items cp2 d s2 = Some ws" "se' = se" "s' = answer se ws m (se_status se) s2"
      using a cp by (auto simp: cmd_get_data_def bind_eq_Some_conv)
    show ?thesis
      by (rule answered_byI [OF keeps_trans [OF keeps_get_data [OF s(1)] keeps_upd_data [OF s(2)]] s(5) no_ros_data_items [OF s(3)]]) (simp add: s(4))
  qed
qed

lemma answered_set_parameters: "cmd_set_parameters e p m se s = Some (se', s') \<Longrightarrow> answered_by m se se' s s'"
proof -
  assume "cmd_set_parameters e p m se s = Some (se', s')"
  then obtain prm s1 g s2 status where s: "recv_client rx_prm se s = Some (prm, s1)" "upd_parameters p g s1 = Some s2" "se' = se" "s' = answer se [] m status s2"
    by (auto simp: cmd_set_parameters_def bind_eq_Some_conv split: if_splits)
  show ?thesis by (rule answered_byI [OF keeps_trans [OF keeps_recv_client [OF s(1)] keeps_upd_parameters [OF s(2)]] s(4)]) (simp_all add: s(3))
qed

lemma keeps_store_seq:
  assumes "store_seq t rep code p s = Some s'"
  shows "keeps s s'"
proof -
  obtain seqs s1 g where s: "upd_state p (\<lambda>st. st\<lparr>st_pulseseqs := seqs\<rparr>) s = Some s1" "upd_parameters p g s1 = Some s'"
    using assms by (auto simp: store_seq_def bind_eq_Some_conv)
  have "keeps s s1" by (rule keeps_upd_state [OF s(1)]) simp_all
  then show ?thesis using keeps_upd_parameters [OF s(2)] by (rule keeps_trans)
qed

lemma answered_register_seq: "cmd_register_seq e p m se s = Some (se', s') \<Longrightarrow> answered_by m se se' s s'"
proof -
  assume a: "cmd_register_seq e p m se s = Some (se', s')"
  then obtain t s1 rep s2 code s3 s4 cp where s: "recv_client rx_seqprm se s = Some (t, s1)" "recv_client (rx_bytes (sq_len t)) se s1 = Some (rep, s2)"
    "recv_client (rx_bytes (sq_len t)) se s2 = Some (code, s3)" "store_seq t rep code p s3 = Some s4" "sv_heap s4 p = Some cp"
    by (auto simp: cmd_register_seq_def bind_eq_Some_conv)
  have "keeps s s3"
    by (rule keeps_trans [OF keeps_recv_client [OF s(1)] keeps_trans [OF keeps_recv_client [OF s(2)] keeps_recv_client [OF s(3)]]])
  then have k: "keeps s s4" using keeps_store_seq [OF s(4)] by (rule keeps_trans)
  show ?thesis
  proof (cases "unregistered cp")
    case True
    then show ?thesis using a s by (auto simp: cmd_register_seq_def intro!: answered_byI [OF k refl])
  next
    case False
    then obtain s5 where s5: "run_threads (seq_thread p) (ev_order e) s4 = Some s5" "se' = se" "s' = answer se [] m 1 s5"
      using a s by (auto simp: cmd_register_seq_def bind_eq_Some_conv)
    show ?thesis by (rule answered_byI [OF keeps_trans [OF k keeps_run_threads [OF keeps_seq_thread s5(1)]] s5(3)]) (simp_all add: s5(2))
  qed
qed

lemma answered_set_ready: "cmd_set_ready e p m se s = Some (se', s') \<Longrightarrow> answered_by m se se' s s'"
proof -
  assume a: "cmd_set_ready e p m se s = Some (se', s')"
  then obtain cp where cp: "sv_heap s p = Some cp" by (auto simp: cmd_set_ready_def bind_eq_Some_conv)
  show ?thesis
  proof (cases "unregistered cp")
    case True
    then show ?thesis using a cp by (auto simp: cmd_set_ready_def intro!: answered_byI [OF keeps_refl refl])
  next
    case False
    define s1 where "s1 = (if cp_active cp \<noteq> 0 then upd_cp p (\<lambda>cp. cp\<lparr>cp_active := 1\<rparr>) s else s)"
    obtain s2 s3 s4 where s: "timing_wait s1 = Some s2" "run_threads (ready_thread p) (ev_order e) s2 = Some s3"
      "coordination_handler (ev_sched e) p s3 = Some s4" "se' = se" "s' = answer se [] m 0 s4"
      using a cp False by (auto simp: cmd_set_ready_def bind_eq_Some_conv s1_def [symmetric])
    have "keeps s s1" unfolding s1_def using cp by (auto simp: same_shape_def fft_fine_def intro!: keeps_upd_cp)
    also have "keeps s1 s2" by (rule keeps_request [OF s(1) [unfolded timing_wait_def]])
    also have "keeps s2 s3" by (rule keeps_run_threads [OF keeps_ready_thread s(2)])
    also have "keeps s3 s4" by (rule keeps_coordination [OF s(3)])
    finally show ?thesis by (rule answered_byI [OF _ s(5)]) (simp_all add: s(4))
  qed
qed

lemma answered_clear_freq_search: "cmd_clear_freq_search e p m se s = Some (se', s') \<Longrightarrow> answered_by m se se' s s'"
proof -
  assume a: "cmd_clear_freq_search e p m se s = Some (se', s')"
  then obtain c s1 cp where s: "ev_usleep_file e" "recv_client rx_clr se s = Some (c, s1)" "sv_heap s1 p = Some cp"
    by (auto simp: cmd_clear_freq_search_def bind_eq_Some_conv split: if_splits)
  define s2 where "s2 = upd_cp p (\<lambda>cp. cp\<lparr>cp_clrfreqsearch := c\<rparr>) s1"
  have "keeps s1 s2" unfolding s2_def by (rule keeps_upd_cp) (simp add: same_shape_def fft_fine_def)
  then have k: "keeps s s2" by (rule keeps_trans [OF keeps_recv_client [OF s(2)]])
  show ?thesis
  proof (cases "unregistered cp")
    case True
    then show ?thesis using a s by (auto simp: cmd_clear_freq_search_def s2_def [symmetric] intro!: answered_byI [OF k refl])
  next
    case False
    then obtain s3 s4 s5 status where d: "DIO_clrfreq (Some p) s2 = Some s3" "receiver_clrfreq (ev_elapsed e) p s3 = Some s4"
      "DIO_rxfe_reset s4 = Some s5" "se' = se" "s' = answer se [] m status s5"
      using a s by (auto simp: cmd_clear_freq_search_def bind_eq_Some_conv s2_def [symmetric])
    note k
    also have "keeps s2 s3" by (rule keeps_dio_clrfreq [OF d(1)])
    also have "keeps s3 s4" by (rule keeps_clrfreq [OF d(2)])
    also have "keeps s4 s5" by (rule keeps_request [OF d(3) [unfolded DIO_rxfe_reset_def]])
    finally show ?thesis by (rule answered_byI [OF _ d(5)]) (simp_all add: d(4))
  qed
qed

lemma answered_assigned_freq: "cmd_assigned_freq e p m se s = Some (se', s') \<Longrightarrow> answered_by m se se' s s'"
proof -
  assume a: "cmd_assigned_freq e p m se s = Some (se', s')"
  then obtain cp where cp: "sv_heap s p = Some cp" by (auto simp: cmd_assigned_freq_def bind_eq_Some_conv)
  show ?thesis
  proof (cases "unregistered cp")
    case True
    then obtain s1 x y where s: "upd_state p (\<lambda>st. st\<lparr>st_current_assigned_freq := 0, st_current_assigned_noise := 0\<rparr>) s = Some s1"
      "se' = se" "s' = answer se [W_int x, W_float y] m (-1) s1"
      using a cp by (auto simp: cmd_assigned_freq_def bind_eq_Some_conv)
    have "keeps s s1" by (rule keeps_upd_state [OF s(1)]) simp_all
    then show ?thesis by (rule answered_byI [OF _ s(3)]) (simp_all add: s(2))
  next
    case False
    then obtain s1 x y status where s: "receiver_assign_frequency (ev_qsort e) (ev_verbose e) p s = Some s1" "se' = se"
      "s' = answer se [W_int x, W_float y] m status s1"
      using a cp by (auto simp: cmd_assigned_freq_def bind_eq_Some_conv)
    show ?thesis by (rule answered_byI [OF keeps_assign_frequency [OF s(1)] s(3)]) (simp_all add: s(2))
  qed
qed

text \<open>Registration changes nothing outside the table and the programs.\<close>

lemma unregister_loop_frame:
  "unregister_loop p is n s = Some (n', s') \<Longrightarrow> sv_out s' = sv_out s \<and> sv_threads s' = sv_threads s"
  by (induction "is" arbitrary: n s) (auto simp: bind_eq_Some_conv upd_parameters_def split: if_splits option.splits)

lemma register_loop_frame:
  "register_loop p is radar channel s = Some (st, s') \<Longrightarrow> sv_out s' = sv_out s \<and> sv_threads s' = sv_threads s"
  by (induction "is" arbitrary: radar channel)
    (auto simp: Let_def take_slot_def bind_eq_Some_conv upd_parameters_def split: if_splits option.splits)

lemma register_frame:
  "register_radar_channel p radar channel s = Some (st, s') \<Longrightarrow> sv_out s' = sv_out s \<and> sv_threads s' = sv_threads s"
  unfolding register_radar_channel_def unregister_radar_channel_def
  by (auto simp: bind_eq_Some_conv dest!: unregister_loop_frame register_loop_frame)

lemma set_radar_chan_Some:
  assumes "cmd_set_radar_chan e p m se s = Some (se', s')"
  obtains radar channel s2 status s3 where "keeps s s2" "sv_heap s2 = sv_heap s" "sv_out s2 = sv_out s" "register_radar_channel p radar channel s2 = Some (status, s3)"
    "se' = se\<lparr>se_status := status\<rparr>" "s' = answer se [] m status s3"
proof -
  obtain radar s1 channel s2 status s3 where s: "recv_client rx_int se s = Some (radar, s1)" "recv_client rx_int se s1 = Some (channel, s2)"
    "register_radar_channel p radar channel s2 = Some (status, s3)" "se' = se\<lparr>se_status := status\<rparr>" "s' = answer se [] m status s3"
    using assms by (auto simp: cmd_set_radar_chan_def bind_eq_Some_conv)
  have "keeps s s2" by (rule keeps_trans [OF keeps_recv_client [OF s(1)] keeps_recv_client [OF s(2)]])
  moreover have "sv_heap s2 = sv_heap s" "sv_out s2 = sv_out s" using s(1,2) by (auto simp: recv_client_def recv_from_Some)
  ultimately show thesis using that s(3-5) by blast
qed

lemmas answered_all = answered_simple answered_set_active answered_query_ini answered_ifmode answered_link answered_get_parameters
  answered_get_data answered_set_parameters answered_register_seq answered_set_ready answered_clear_freq_search answered_assigned_freq

lemma client_switch_answered:
  assumes "client_switch c e p m se s = Some (se', s')" "c \<noteq> CHR ''R''"
  shows "answered_by m se se' s s'"
  using assms by (auto simp: client_switch_def dest: answered_all split: if_splits)

lemma answer_out: "sv_out (answer se ws m st s) = sv_out s @ map (Pair (Client (se_socket se))) (ws @ [W_ROSMsg (m\<lparr>rm_status := st\<rparr>)])"
  by (simp add: answer_def send_client_def)

lemma client_switch_out:
  assumes "client_switch c e p m se s = Some (se', s')"
  shows "\<exists>ds ws status. sv_out s' = sv_out s @ ds @ map (Pair (Client (se_socket se))) (ws @ [W_ROSMsg (m\<lparr>rm_status := status\<rparr>)]) \<and>
    list_all to_driver ds \<and> no_ros ws"
proof (cases "c = CHR ''R''")
  case True
  then have "cmd_set_radar_chan e p m se s = Some (se', s')" using assms by (simp add: client_switch_def)
  then obtain radar channel s2 status s3 where s: "sv_out s2 = sv_out s" "register_radar_channel p radar channel s2 = Some (status, s3)" "s' = answer se [] m status s3"
    by (rule set_radar_chan_Some)
  then have "sv_out s' = sv_out s @ [] @ map (Pair (Client (se_socket se))) ([] @ [W_ROSMsg (m\<lparr>rm_status := status\<rparr>)])"
    using register_frame by (simp add: answer_out)
  then show ?thesis by (intro exI [of _ "[]"] exI [of _ status] conjI) simp_all
next
  case False
  from client_switch_answered [OF assms False] obtain s1 ws status where s: "keeps s s1" "s' = answer se ws m status s1" "no_ros ws"
    by (auto simp: answered_by_def)
  then obtain ds where "sv_out s1 = sv_out s @ ds" "list_all to_driver ds" by (auto simp: keeps_def)
  then show ?thesis using s(2,3) by (intro exI [of _ ds] exI [of _ ws] exI [of _ status]) (simp add: answer_out)
qed

lemma client_command_Some:
  assumes "client_command e p se s = Some (go, se', s')"
  obtains cp m s3 where "sv_heap s p = Some cp" "rx_ros (sv_in s (Client (se_socket se))) \<noteq> None"
    "map_option fst (rx_ros (sv_in s (Client (se_socket se)))) = Some m" "keeps s s3" "sv_out s3 = sv_out s"
    "client_switch (rm_type m) e p m se s3 = Some (se', s')" "go = (rm_type m \<noteq> CHR ''.'')"
proof -
  obtain cp s1 m s2 s3 where s: "sv_heap s p = Some cp"
    "(if unregistered cp then upd_data p (\<lambda>d. d\<lparr>da_status := -1\<rparr>) s else Some s) = Some s1" "recv_client rx_ros se s1 = Some (m, s2)"
    "touch_thread (ev_now e) p s2 = Some s3" "client_switch (rm_type m) e p m se s3 = Some (se', s')" "go = (rm_type m \<noteq> CHR ''.'')"
    using assms by (simp add: client_command_def bind_eq_Some_conv split del: if_split) blast
  have k1: "keeps s s1" "sv_in s1 = sv_in s" "sv_out s1 = sv_out s"
    using s(2) keeps_upd_data by (auto simp: upd_data_def bind_eq_Some_conv split: if_splits)
  have k3: "keeps s s3" by (rule keeps_trans [OF k1(1) keeps_trans [OF keeps_recv_client [OF s(3)] keeps_touch [OF s(4)]]])
  have "sv_out s3 = sv_out s" using s(3,4) k1(3) by (auto simp: recv_client_def recv_from_Some touch_thread_def bind_eq_Some_conv split: if_splits)
  then show thesis using that [OF s(1) _ _ k3 _ s(5,6)] s(3) k1(2) by (auto simp: recv_client_def recv_from_Some)
qed

section \<open>Properties\<close>

text \<open>
  C25: every command is answered. One turn of the client loop that returns has sent items to
  drivers only, followed by items to its own client, the last of which is the one
  \<^verbatim>\<open>struct ROSMsg\<close> of the answer: it repeats the type of the request.
\<close>

theorem client_command_answered:
  assumes "client_command e p se s = Some (go, se', s')"
  shows "\<exists>ds ws m status. map_option fst (rx_ros (sv_in s (Client (se_socket se)))) = Some m \<and>
    sv_out s' = sv_out s @ ds @ map (Pair (Client (se_socket se))) (ws @ [W_ROSMsg (m\<lparr>rm_status := status\<rparr>)]) \<and>
    list_all to_driver ds \<and> no_ros ws \<and> (go \<longleftrightarrow> rm_type m \<noteq> CHR ''.'')"
proof -
  obtain cp m s3 where c: "map_option fst (rx_ros (sv_in s (Client (se_socket se)))) = Some m" "sv_out s3 = sv_out s"
    "client_switch (rm_type m) e p m se s3 = Some (se', s')" "go = (rm_type m \<noteq> CHR ''.'')"
    by (rule client_command_Some [OF assms])
  from client_switch_out [OF c(3)] show ?thesis unfolding c(2) using c(1,4) by blast
qed

lemma recv_client_frame: "recv_client rx se s = Some (x, s') \<Longrightarrow> sv_heap s' = sv_heap s \<and> sv_out s' = sv_out s"
  by (auto simp: recv_client_def recv_from_Some)

lemma answer_client_only:
  "sv_out s1 = sv_out s \<Longrightarrow> \<exists>ws. sv_out (answer se vs m st s1) = sv_out s @ map (Pair (Client (se_socket se))) ws"
  by (rule exI [of _ "vs @ [W_ROSMsg (m\<lparr>rm_status := st\<rparr>)]"]) (simp add: answer_out)

lemma unregistered_switch_out:
  assumes "client_switch c e p m se s = Some (se', s')" "sv_heap s p = Some cp" "unregistered cp" "c \<noteq> CHR ''R''"
  shows "\<exists>ws. sv_out s' = sv_out s @ map (Pair (Client (se_socket se))) ws"
proof -
  have u: "upd_state p f s1 = Some s2 \<Longrightarrow> sv_out s2 = sv_out s1" "upd_parameters p g s1 = Some s2 \<Longrightarrow> sv_out s2 = sv_out s1"
    "upd_data p h s1 = Some s2 \<Longrightarrow> sv_out s2 = sv_out s1" for f g h s1 s2
    by (auto simp: upd_state_def upd_parameters_def upd_data_def bind_eq_Some_conv split: option.splits)
  have st: "sv_out s2 = sv_out s1 \<and> (\<exists>cp'. sv_heap s2 p = Some cp' \<and> cp_radarinfo cp' = cp_radarinfo cp1)"
    if "store_seq t rep code p s1 = Some s2" "sv_heap s1 p = Some cp1" for t rep code s1 s2 cp1
    using that by (auto simp: store_seq_def bind_eq_Some_conv upd_state_def upd_parameters_def state_of_def parameters_of_def split: option.splits)
  have seq: "\<exists>ws. sv_out s' = sv_out s @ map (Pair (Client (se_socket se))) ws" if a: "cmd_register_seq e p m se s = Some (se', s')"
  proof -
    obtain t s1 rep s2 code s3 s4 cp' where s: "recv_client rx_seqprm se s = Some (t, s1)" "recv_client (rx_bytes (sq_len t)) se s1 = Some (rep, s2)"
      "recv_client (rx_bytes (sq_len t)) se s2 = Some (code, s3)" "store_seq t rep code p s3 = Some s4" "sv_heap s4 p = Some cp'"
      using a by (auto simp: cmd_register_seq_def bind_eq_Some_conv)
    have h: "sv_heap s3 p = Some cp" "sv_out s3 = sv_out s" using recv_client_frame [OF s(1)] recv_client_frame [OF s(2)] recv_client_frame [OF s(3)] assms(2) by auto
    have "unregistered cp'" "sv_out s4 = sv_out s" using st [OF s(4) h(1)] s(5) h(2) assms(3) by (auto simp: unregistered_def)
    then have "s' = answer se [] m (-1) s4" using a s by (auto simp: cmd_register_seq_def)
    then show ?thesis using answer_client_only [OF \<open>sv_out s4 = sv_out s\<close>] by simp
  qed
  have clr: "\<exists>ws. sv_out s' = sv_out s @ map (Pair (Client (se_socket se))) ws" if a: "cmd_clear_freq_search e p m se s = Some (se', s')"
  proof -
    obtain c s1 where s: "ev_usleep_file e" "recv_client rx_clr se s = Some (c, s1)"
      using a by (auto simp: cmd_clear_freq_search_def bind_eq_Some_conv split: if_splits)
    then have "s' = answer se [] m (-1) (upd_cp p (\<lambda>cp. cp\<lparr>cp_clrfreqsearch := c\<rparr>) s1)" "sv_out s1 = sv_out s"
      using a assms(2,3) recv_client_frame [OF s(2)] by (auto simp: cmd_clear_freq_search_def)
    then show ?thesis using answer_client_only [of "upd_cp p (\<lambda>cp. cp\<lparr>cp_clrfreqsearch := c\<rparr>) s1" s] by simp
  qed
  show ?thesis
    using assms seq clr
    by (auto simp: client_switch_def cmd_ping_def cmd_quit_def cmd_other_def cmd_get_site_settings_def cmd_set_active_def cmd_query_ini_def
        cmd_set_site_ifmode_def cmd_link_radar_chan_def cmd_get_parameters_def cmd_get_data_def cmd_set_parameters_def
        cmd_set_ready_def cmd_assigned_freq_def Let_def bind_eq_Some_conv
        dest!: recv_client_frame u split: if_splits intro!: answer_client_only)
qed

text \<open>
  C27: a client that holds no radar channel moves no driver. Whatever it sends, apart from the
  request for a channel itself, the turn adds items for its own client only.
\<close>

theorem unregistered_moves_no_driver:
  assumes "client_command e p se s = Some (go, se', s')" "sv_heap s p = Some cp" "unregistered cp"
    "map_option fst (rx_ros (sv_in s (Client (se_socket se)))) = Some m" "rm_type m \<noteq> CHR ''R''"
  shows "\<exists>ws. sv_out s' = sv_out s @ map (Pair (Client (se_socket se))) ws"
proof -
  obtain cp0 m0 s3 where c: "map_option fst (rx_ros (sv_in s (Client (se_socket se)))) = Some m0" "keeps s s3" "sv_out s3 = sv_out s"
    "client_switch (rm_type m0) e p m0 se s3 = Some (se', s')"
    by (rule client_command_Some [OF assms(1)])
  have "rel_option same_shape (sv_heap s p) (sv_heap s3 p)" using c(2) by (simp add: keeps_def)
  then obtain cp3 where cp3: "sv_heap s3 p = Some cp3" "unregistered cp3"
    using assms(2,3) by (auto simp: option_rel_Some1 same_shape_def unregistered_def)
  show ?thesis
    using unregistered_switch_out [OF c(4) cp3] c(1,3) assms(4,5) by simp
qed

section \<open>Examples\<close>

text \<open>A connected client that has sent a ping.\<close>

definition quiet_env :: env where
  "quiet_env = \<lparr>ev_now = 30, ev_sched = [RECV, DDS, DIO, TIMING], ev_order = [TIMING, DDS, DIO, RECV], ev_qsort = sort_key ff_apwr,
     ev_verbose = 0, ev_timed_out = False, ev_shm = (\<lambda>_ _ _ _ n. replicate (nat n) 0), ev_elapsed = 0, ev_stack = idle_prm, ev_usleep_file = True\<rparr>"

definition fresh_session :: "int \<Rightarrow> session" where
  "fresh_session k = \<lparr>se_socket = k, se_status = 0, se_prm = idle_prm, se_entry = replicate ENTRY_NAME_SIZE (CHR 0x00)\<rparr>"

definition client_cp :: ControlProgram where
  "client_cp = new_cp\<lparr>cp_state := Some (idle_state\<lparr>st_thread := Some 1, st_socket := 5\<rparr>)\<rparr>"

definition ping_server :: server where
  "ping_server = idle_server\<lparr>sv_heap := [7 \<mapsto> client_cp], sv_threads := [(1, 11, 60, 0, 7)],
     sv_in := (\<lambda>d. if d = Client 5 then [W_ROSMsg \<lparr>rm_status = 0, rm_type = CHR ''=''\<rparr>] else [])\<rparr>"

lemma client_cp_simps:
  "cp_state client_cp = Some (idle_state\<lparr>st_thread := Some 1, st_socket := 5\<rparr>)" "unregistered client_cp" "cp_data client_cp = Some idle_data"
  by (simp_all add: client_cp_def unregistered_def new_cp_def control_init_def)

lemma ping_runs: "\<exists>s'. client_command quiet_env 7 (fresh_session 5) ping_server = Some (True, fresh_session 5, s')"
  by (simp add: client_command_def ping_server_def client_cp_simps upd_data_def recv_client_def recv_from_def fresh_session_def
      touch_thread_def state_of_def client_switch_def cmd_ping_def)

theorem client_command_answered_witness:
  "\<exists>s' ds ws status. client_command quiet_env 7 (fresh_session 5) ping_server = Some (True, fresh_session 5, s') \<and>
    sv_out s' = ds @ map (Pair (Client 5)) (ws @ [W_ROSMsg \<lparr>rm_status = status, rm_type = CHR ''=''\<rparr>])"
proof -
  obtain s' where s': "client_command quiet_env 7 (fresh_session 5) ping_server = Some (True, fresh_session 5, s')" using ping_runs by blast
  from client_command_answered [OF this] obtain ds ws m status where
    m: "map_option fst (rx_ros (sv_in ping_server (Client (se_socket (fresh_session 5))))) = Some m"
    and o: "sv_out s' = sv_out ping_server @ ds @ map (Pair (Client (se_socket (fresh_session 5)))) (ws @ [W_ROSMsg (m\<lparr>rm_status := status\<rparr>)])"
    by blast
  have "m = \<lparr>rm_status = 0, rm_type = CHR ''=''\<rparr>" "sv_out ping_server = []" "se_socket (fresh_session 5) = 5"
    using m by (auto simp: ping_server_def fresh_session_def idle_server_def)
  then show ?thesis using s' o by auto
qed

theorem unregistered_moves_no_driver_witness:
  "\<exists>s' ws. client_command quiet_env 7 (fresh_session 5) ping_server = Some (True, fresh_session 5, s') \<and> sv_out s' = map (Pair (Client 5)) ws"
proof -
  obtain s' where s': "client_command quiet_env 7 (fresh_session 5) ping_server = Some (True, fresh_session 5, s')" using ping_runs by blast
  have "sv_heap ping_server 7 = Some client_cp" "se_socket (fresh_session 5) = 5" "sv_out ping_server = []"
    "map_option fst (rx_ros (sv_in ping_server (Client 5))) = Some \<lparr>rm_status = 0, rm_type = CHR ''=''\<rparr>"
    by (simp_all add: ping_server_def fresh_session_def idle_server_def)
  then show ?thesis using unregistered_moves_no_driver [OF s' _ client_cp_simps(2)] s' by auto
qed

end
