(* ===== verification/Server_Runs.thy ===== *)
theory Server_Runs
  imports Client_Handler
begin

text \<open>
  Runs of the server: clients connect (the accept loop of \<^verbatim>\<open>server/main.c\<close>), send commands, leave or
  lose their connection (\<^verbatim>\<open>server/client_handler.c\<close>), and are swept away when they have not been heard
  of (\<^verbatim>\<open>server/timeout_handler.c\<close>). The step relation \<open>ros_step\<close> has one rule for each. The invariant
  \<open>ros_inv\<close> of all reachable states ties the thread list, the heap of control programs and the table
  of radar channels together; from it follow the facts other components take as hypotheses, such
  as the bound on the number of programs.
\<close>

section \<open>Model\<close>

text \<open>The server, the main loop's count of threads, and the threads of the clients.\<close>

record ros =
  rs_server :: server
  rs_num_threads :: int
  rs_sessions :: "cpid \<Rightarrow> session option"

text \<open>
  A new client on socket \<open>k\<close>: \<open>p\<close> and \<open>a\<close> are the addresses \<^verbatim>\<open>malloc\<close> returns for the program and
  for the list item, \<open>tid\<close> the new thread, \<open>g\<close> the program \<^verbatim>\<open>control_init\<close> returns.
\<close>

definition connect :: "nat \<Rightarrow> cpid \<Rightarrow> nat \<Rightarrow> int \<Rightarrow> int \<Rightarrow> ControlProgram \<Rightarrow> session \<Rightarrow> ros \<Rightarrow> ros option" where
  "connect a p tid k now g se r =
    (case cp_state g of
       None \<Rightarrow> None
     | Some st \<Rightarrow>
        (let s = rs_server r;
             s1 = s\<lparr>sv_heap := (sv_heap s)(p \<mapsto> g\<lparr>cp_state := Some (st\<lparr>st_socket := k, st_thread := Some a\<rparr>)\<rparr>),
                    sv_threads := (a, tid, 60, now, p) # sv_threads s\<rparr>
         in Some (r\<lparr>rs_server := s1, rs_num_threads := int (length (sv_threads s1)),
                    rs_sessions := (rs_sessions r)(p \<mapsto> se\<lparr>se_socket := k\<rparr>)\<rparr>)))"

text \<open>
  The sweep over the thread list. An expired thread whose program is still alive is cancelled, which
  runs \<^verbatim>\<open>controlprogram_exit\<close> as its cleanup handler; then the item and the program are freed.
\<close>

definition entry_expired :: "int \<Rightarrow> thread_entry \<Rightarrow> bool" where
  "entry_expired now x = (case x of (a, tid, tmo, seen, q) \<Rightarrow> (of_int (now - seen) :: u64) > of_int tmo)"

definition cancel_thread :: "env \<Rightarrow> cpid \<Rightarrow> server \<Rightarrow> server option" where
  "cancel_thread e q s = do {
     cp \<leftarrow> sv_heap s q;
     case cp_state cp of
       None \<Rightarrow> Some s
     | Some st \<Rightarrow> if st_cancelled st = 0 then controlprogram_exit e q s else Some s
   }"

definition drop_thread :: "thread_entry \<Rightarrow> server \<Rightarrow> server" where
  "drop_thread x s = s\<lparr>sv_threads := filter (\<lambda>y. fst y \<noteq> fst x) (sv_threads s), sv_heap := (sv_heap s)(thread_cp x := None)\<rparr>"

fun sweep_threads :: "env \<Rightarrow> thread_entry list \<Rightarrow> server \<Rightarrow> server option" where
  "sweep_threads e [] s = Some s"
| "sweep_threads e (x # xs) s =
    (if entry_expired (ev_now e) x
     then Option.bind (cancel_thread e (thread_cp x) s) (\<lambda>s1. sweep_threads e xs (drop_thread x s1))
     else sweep_threads e xs s)"

text \<open>One step. A connection is accepted while fewer than \<^verbatim>\<open>Max_Control_THREADS\<close> were counted.\<close>

inductive ros_step :: "ros \<Rightarrow> ros \<Rightarrow> bool" where
  connect: "rs_num_threads r < int Max_Control_THREADS \<Longrightarrow> sv_heap (rs_server r) p = None \<Longrightarrow> p \<notin> set (programs (rs_server r)) \<Longrightarrow>
    a \<notin> fst ` set (sv_threads (rs_server r)) \<Longrightarrow> connect a p tid k now (control_init gp gs gd gc) se r = Some r' \<Longrightarrow> ros_step r r'"
| command: "rs_sessions r p = Some se \<Longrightarrow> client_command e p se (rs_server r) = Some (True, se', s') \<Longrightarrow>
    ros_step r (r\<lparr>rs_server := s', rs_sessions := (rs_sessions r)(p \<mapsto> se')\<rparr>)"
| quit: "rs_sessions r p = Some se \<Longrightarrow> client_command e p se (rs_server r) = Some (False, se', s1) \<Longrightarrow>
    controlprogram_exit e' p s1 = Some s' \<Longrightarrow> ros_step r (r\<lparr>rs_server := s', rs_sessions := (rs_sessions r)(p := None)\<rparr>)"
| lost: "rs_sessions r p = Some se \<Longrightarrow> controlprogram_exit e p (rs_server r) = Some s' \<Longrightarrow>
    ros_step r (r\<lparr>rs_server := s', rs_sessions := (rs_sessions r)(p := None)\<rparr>)"
| sweep: "sweep_threads e (sv_threads (rs_server r)) (rs_server r) = Some s' \<Longrightarrow>
    ros_step r (r\<lparr>rs_server := s', rs_sessions := (\<lambda>p. if p \<in> set (programs s') then rs_sessions r p else None)\<rparr>)"

inductive ros_reach :: "ros \<Rightarrow> ros \<Rightarrow> bool" for r0 where
  start: "ros_reach r0 r0"
| step: "ros_reach r0 r \<Longrightarrow> ros_step r r' \<Longrightarrow> ros_reach r0 r'"

section \<open>The invariant\<close>

text \<open>A program on the list under the item \<open>a\<close>: alive with all its parts, or freed and inactive.\<close>

definition prog_inv :: "nat \<Rightarrow> ControlProgram \<Rightarrow> bool" where
  "prog_inv a cp \<longleftrightarrow> fft_fine cp \<and>
     (case cp_state cp of
        None \<Rightarrow> cp_active cp = 0 \<and> cp_parameters cp = None \<and> cp_data cp = None
      | Some st \<Rightarrow> st_thread st = Some a \<and> cp_parameters cp \<noteq> None \<and> cp_data cp \<noteq> None)"

definition ros_inv :: "server \<Rightarrow> bool" where
  "ros_inv s \<longleftrightarrow> chan_inv s \<and> distinct (map fst (thread_keys s)) \<and> distinct (map snd (thread_keys s)) \<and>
     (\<forall>(a, q) \<in> set (thread_keys s). \<exists>cp. sv_heap s q = Some cp \<and> prog_inv a cp) \<and>
     (\<forall>i < nslots. \<forall>q. sv_channels s ! i = Some q \<longrightarrow> q \<in> snd ` set (thread_keys s))"

definition alive :: "server \<Rightarrow> cpid \<Rightarrow> bool" where
  "alive s p \<longleftrightarrow> p \<in> snd ` set (thread_keys s) \<and> state_of s p \<noteq> None"

text \<open>A program is marked as cancelled only while it leaves.\<close>

definition none_cancelled :: "server \<Rightarrow> bool" where
  "none_cancelled s \<longleftrightarrow> (\<forall>p st. p \<in> snd ` set (thread_keys s) \<longrightarrow> state_of s p = Some st \<longrightarrow> st_cancelled st = 0)"

definition runs_inv :: "ros \<Rightarrow> bool" where
  "runs_inv r \<longleftrightarrow> ros_inv (rs_server r) \<and> none_cancelled (rs_server r) \<and> (\<forall>p. rs_sessions r p \<noteq> None \<longrightarrow> alive (rs_server r) p) \<and>
     int (length (sv_threads (rs_server r))) \<le> rs_num_threads r \<and> rs_num_threads r \<le> int Max_Control_THREADS"

lemma programs_keys: "programs s = map snd (thread_keys s)"
  by (simp add: programs_def thread_keys_def)

lemma prog_inv_shape:
  assumes "prog_inv a cp" "same_shape cp cp'"
  shows "prog_inv a cp'"
  using assms by (cases "cp_state cp"; cases "cp_state cp'") (auto simp: prog_inv_def same_shape_def)

lemma keeps_heap:
  assumes "keeps s s'" "sv_heap s q = Some cp"
  obtains cp' where "sv_heap s' q = Some cp'" "same_shape cp cp'"
proof -
  have "rel_option same_shape (sv_heap s q) (sv_heap s' q)" using assms(1) by (simp add: keeps_def)
  then show thesis using assms(2) that by (auto simp: option_rel_Some1)
qed

lemma keeps_chan_inv:
  assumes "keeps s s'" "chan_inv s"
  shows "chan_inv s'"
proof -
  have ch: "sv_channels s' = sv_channels s" using assms(1) by (simp add: keeps_def)
  have "\<exists>cp. sv_heap s' q = Some cp \<and> cp_parameters cp \<noteq> None \<and>
          ri_radar (cp_radarinfo cp) = slot_radar i \<and> ri_channel (cp_radarinfo cp) = slot_channel i"
    if i: "i < nslots" "sv_channels s ! i = Some q" for i q
  proof -
    obtain cp where cp: "sv_heap s q = Some cp" "cp_parameters cp \<noteq> None" "ri_radar (cp_radarinfo cp) = slot_radar i" "ri_channel (cp_radarinfo cp) = slot_channel i"
      using chan_invD [OF assms(2) i] by blast
    obtain cp' where "sv_heap s' q = Some cp'" "same_shape cp cp'" by (rule keeps_heap [OF assms(1) cp(1)])
    then show ?thesis using cp(2-4) by (simp add: same_shape_def)
  qed
  then show ?thesis using assms(2) by (simp add: chan_inv_def ch)
qed

lemma ros_inv_keeps:
  assumes "keeps s s'" "ros_inv s"
  shows "ros_inv s'"
proof -
  have "chan_inv s'" using assms keeps_chan_inv by (auto simp: ros_inv_def)
  moreover have "\<exists>cp. sv_heap s' q = Some cp \<and> prog_inv a cp" if "(a, q) \<in> set (thread_keys s)" for a q
  proof -
    obtain cp where cp: "sv_heap s q = Some cp" "prog_inv a cp" using assms(2) \<open>(a, q) \<in> _\<close> by (auto simp: ros_inv_def)
    obtain cp' where "sv_heap s' q = Some cp'" "same_shape cp cp'" by (rule keeps_heap [OF assms(1) cp(1)])
    then show ?thesis using prog_inv_shape [OF cp(2)] by blast
  qed
  moreover have "thread_keys s' = thread_keys s" "sv_channels s' = sv_channels s" using assms(1) by (simp_all add: keeps_def)
  ultimately show ?thesis using assms(2) by (auto simp: ros_inv_def)
qed

lemma alive_keeps:
  assumes "keeps s s'" "alive s p"
  shows "alive s' p"
proof -
  obtain cp st where cp: "sv_heap s p = Some cp" "cp_state cp = Some st" using assms(2) by (auto simp: alive_def state_of_def bind_eq_Some_conv)
  obtain cp' where "sv_heap s' p = Some cp'" "same_shape cp cp'" by (rule keeps_heap [OF assms(1) cp(1)])
  then show ?thesis using assms cp(2) by (auto simp: alive_def state_of_def keeps_def same_shape_def)
qed

lemma aliveD:
  assumes "ros_inv s" "alive s p"
  obtains a cp st prm d where "(a, p) \<in> set (thread_keys s)" "sv_heap s p = Some cp" "cp_state cp = Some st" "st_thread st = Some a"
    "cp_parameters cp = Some prm" "cp_data cp = Some d" "fft_fine cp"
proof -
  obtain a where a: "(a, p) \<in> set (thread_keys s)" using assms(2) by (auto simp: alive_def)
  then obtain cp where cp: "sv_heap s p = Some cp" "prog_inv a cp" using assms(1) by (auto simp: ros_inv_def)
  moreover obtain st where "cp_state cp = Some st" using assms(2) cp(1) by (auto simp: alive_def state_of_def)
  ultimately show thesis using that [OF a] by (auto simp: prog_inv_def)
qed

lemma same_shape_state:
  assumes "same_shape cp cp'" "cp_state cp' = Some st'"
  obtains st where "cp_state cp = Some st" "st_thread st = st_thread st'" "st_cancelled st = st_cancelled st'"
  using assms by (cases "cp_state cp") (auto simp: same_shape_def)

lemma shape_cancelled:
  assumes "rel_option same_shape (sv_heap s p) (sv_heap s' p)" "none_cancelled s" "p \<in> snd ` set (thread_keys s)"
    "sv_heap s' p = Some cp'" "cp_state cp' = Some st'"
  shows "st_cancelled st' = 0"
proof -
  obtain cp where cp: "sv_heap s p = Some cp" "same_shape cp cp'" using assms(1,4) by (auto simp: option_rel_Some2)
  obtain st where "cp_state cp = Some st" "st_cancelled st = st_cancelled st'" by (rule same_shape_state [OF cp(2) assms(5)])
  then show ?thesis using assms(2,3) cp(1) by (auto simp: none_cancelled_def state_of_def)
qed

lemma none_cancelled_keeps:
  assumes "keeps s s'" "none_cancelled s"
  shows "none_cancelled s'"
  unfolding none_cancelled_def
proof (intro allI impI)
  fix p st' assume p: "p \<in> snd ` set (thread_keys s')" "state_of s' p = Some st'"
  then obtain cp' where cp': "sv_heap s' p = Some cp'" "cp_state cp' = Some st'" by (auto simp: state_of_def bind_eq_Some_conv)
  have "rel_option same_shape (sv_heap s p) (sv_heap s' p)" "thread_keys s' = thread_keys s" using assms(1) by (simp_all add: keeps_def)
  then show "st_cancelled st' = 0" using shape_cancelled [OF _ assms(2) _ cp'] p(1) by simp
qed

lemma keeps_keys: "keeps s s' \<Longrightarrow> thread_keys s' = thread_keys s"
  by (simp add: keeps_def)

text \<open>A client request for a channel.\<close>

lemma ros_inv_register:
  assumes "ros_inv s" "alive s p" "register_radar_channel p radar channel s = Some (st, s')"
  shows "ros_inv s'" "alive s' q \<longleftrightarrow> alive s q" "thread_keys s' = thread_keys s" "none_cancelled s \<Longrightarrow> none_cancelled s'"
proof -
  obtain a cp st0 prm d where p: "(a, p) \<in> set (thread_keys s)" "sv_heap s p = Some cp" "cp_state cp = Some st0" "st_thread st0 = Some a"
    "cp_parameters cp = Some prm" "cp_data cp = Some d" "fft_fine cp"
    by (rule aliveD [OF assms(1,2)])
  have inv: "chan_inv s" using assms(1) by (simp add: ros_inv_def)
  let ?t = "register_target (vacate p (sv_channels s)) radar channel"
  obtain s1 prm' where c: "register_radar_channel p radar channel s = Some (case ?t of None \<Rightarrow> -1 | Some j \<Rightarrow> 1, s1)"
    "sv_channels s1 = (case ?t of None \<Rightarrow> vacate p (sv_channels s) | Some j \<Rightarrow> (vacate p (sv_channels s))[j := Some p])"
    "sv_heap s1 = (sv_heap s)(p \<mapsto> cp\<lparr>cp_parameters := Some prm', cp_radarinfo :=
       (case ?t of None \<Rightarrow> cp_radarinfo cp | Some j \<Rightarrow> (cp_radarinfo cp)\<lparr>ri_radar := slot_radar j, ri_channel := slot_channel j\<rparr>)\<rparr>)"
    by (rule register_cases [OF inv p(2,5)])
  then have s1: "s1 = s'" using assms(3) by simp
  show k: "thread_keys s' = thread_keys s" using register_frame [OF assms(3)] by (simp add: thread_keys_def)
  show "alive s' q \<longleftrightarrow> alive s q" using c(3) p(2,3) unfolding s1 by (auto simp: alive_def k state_of_def)
  show "none_cancelled s \<Longrightarrow> none_cancelled s'" using c(3) p(2,3) unfolding s1 by (auto simp: none_cancelled_def k state_of_def split: if_splits)
  have "\<exists>cp'. sv_heap s' q = Some cp' \<and> prog_inv b cp'" if "(b, q) \<in> set (thread_keys s)" for b q
  proof -
    have "\<exists>cp'. sv_heap s q = Some cp' \<and> prog_inv b cp'" using assms(1) that by (auto simp: ros_inv_def)
    then show ?thesis using c(3) p(2,3) unfolding s1 by (auto simp: prog_inv_def fft_fine_def)
  qed
  moreover have "q \<in> snd ` set (thread_keys s)" if "i < nslots" "sv_channels s' ! i = Some q" for i q
  proof (cases "q = p")
    case True
    then show ?thesis using p(1) by force
  next
    case False
    then have "sv_channels s ! i = Some q"
      using that c(2) inv unfolding s1 by (cases ?t; cases "?t = Some i") (auto simp: chan_inv_def vacate_nth nth_list_update split: if_splits)
    then show ?thesis using assms(1) that(1) by (simp add: ros_inv_def)
  qed
  ultimately show "ros_inv s'" using assms(1) register_inv [OF inv p(2,5) assms(3)] by (auto simp: ros_inv_def k)
qed

lemma keeps_answer_inv:
  "none_cancelled (answer se ws m st s) = none_cancelled s" "ros_inv (answer se ws m st s) = ros_inv s" "alive (answer se ws m st s) p = alive s p" "thread_keys (answer se ws m st s) = thread_keys s"
  by (simp_all add: answer_def send_client_def ros_inv_def chan_inv_def thread_keys_def alive_def none_cancelled_def state_of_def)

lemma client_command_inv:
  assumes "client_command e p se s = Some (go, se', s')" "ros_inv s" "alive s p"
  shows "ros_inv s' \<and> thread_keys s' = thread_keys s \<and> (\<forall>q. alive s q \<longrightarrow> alive s' q) \<and> (none_cancelled s \<longrightarrow> none_cancelled s')"
proof -
  obtain cp m s3 where c: "keeps s s3" "client_switch (rm_type m) e p m se s3 = Some (se', s')"
    by (rule client_command_Some [OF assms(1)])
  have i3: "ros_inv s3" "alive s3 p" "thread_keys s3 = thread_keys s" using ros_inv_keeps [OF c(1) assms(2)] alive_keeps [OF c(1) assms(3)] keeps_keys [OF c(1)] by simp_all
  show ?thesis
  proof (cases "rm_type m = CHR ''R''")
    case True
    then have "cmd_set_radar_chan e p m se s3 = Some (se', s')" using c(2) by (simp add: client_switch_def)
    then obtain radar channel s4 status s5 where r: "keeps s3 s4" "register_radar_channel p radar channel s4 = Some (status, s5)" "s' = answer se [] m status s5"
      by (rule set_radar_chan_Some)
    have i4: "ros_inv s4" "alive s4 p" "thread_keys s4 = thread_keys s" using ros_inv_keeps [OF r(1) i3(1)] alive_keeps [OF r(1) i3(2)] keeps_keys [OF r(1)] i3(3) by simp_all
    show ?thesis
      using ros_inv_register [OF i4(1,2) r(2)] i4(3) alive_keeps [OF keeps_trans [OF c(1) r(1)]] none_cancelled_keeps [OF keeps_trans [OF c(1) r(1)]] unfolding r(3) by (simp add: keeps_answer_inv)
  next
    case False
    from client_switch_answered [OF c(2) False] obtain s4 ws status where k: "keeps s3 s4" "s' = answer se ws m status s4"
      by (auto simp: answered_by_def)
    then have "keeps s s4" using keeps_trans [OF c(1)] by simp
    then show ?thesis using ros_inv_keeps assms(2) alive_keeps keeps_keys none_cancelled_keeps unfolding k(2) by (simp add: keeps_answer_inv)
  qed
qed

text \<open>Leaving.\<close>

lemma unregister_any:
  assumes "chan_inv s" "sv_heap s p = Some cp" "unregister_radar_channel (Some p) s = Some (n, s')"
  shows "sv_channels s' = vacate p (sv_channels s)" "\<And>q. q \<noteq> p \<Longrightarrow> sv_heap s' q = sv_heap s q" "sv_heap s' p \<noteq> None"
proof -
  have len: "length (sv_channels s) = nslots" using assms(1) unfolding chan_inv_def by blast
  have "sv_channels s' = vacate p (sv_channels s) \<and> (\<forall>q. q \<noteq> p \<longrightarrow> sv_heap s' q = sv_heap s q) \<and> sv_heap s' p \<noteq> None"
  proof (cases "cp_parameters cp")
    case (Some prm)
    obtain n' s'' prm' where "unregister_radar_channel (Some p) s = Some (n', s'')"
      "sv_channels s'' = vacate p (sv_channels s)" "sv_heap s'' = (sv_heap s)(p \<mapsto> cp\<lparr>cp_parameters := Some prm'\<rparr>)"
      by (rule unregister_ok [OF assms(2) Some len])
    then show ?thesis using assms(3) by auto
  next
    case None
    then have no: "sv_channels s ! i \<noteq> Some p" if "i < nslots" for i using chan_invD [OF assms(1) that] assms(2) by fastforce
    have l: "unregister_loop p is n0 s = Some (n0, s)" if "\<forall>i \<in> set is. i < nslots" for "is" n0
      using that no by (induction "is") auto
    have "s' = s" using l [of "[0..<nslots]" 0] assms(3) by (auto simp: unregister_radar_channel_def)
    moreover have "vacate p (sv_channels s) = sv_channels s"
      by (rule nth_equalityI) (use no len in \<open>auto simp: vacate_nth\<close>)
    ultimately show ?thesis using assms(2) by simp
  qed
  then show "sv_channels s' = vacate p (sv_channels s)" "\<And>q. q \<noteq> p \<Longrightarrow> sv_heap s' q = sv_heap s q" "sv_heap s' p \<noteq> None" by auto
qed

lemma controlprogram_exit_stages:
  assumes "controlprogram_exit e p s = Some s'"
  obtains s1 s4 n s5 cp where "upd_state p (\<lambda>st. st\<lparr>st_cancelled := 1\<rparr>) s = Some s1" "keeps s1 s4" "sv_heap s4 p = Some cp" "unregister_radar_channel (Some p) s4 = Some (n, s5)" "s' = upd_cp p freed s5"
proof -
  obtain s1 s2 s3 s4 n s5 where st: "upd_state p (\<lambda>st. st\<lparr>st_cancelled := 1\<rparr>) s = Some s1"
    "coordination_handler (ev_sched e) p (upd_cp p (\<lambda>cp. cp\<lparr>cp_active := 0\<rparr>) s1) = Some s2" "timing_wait s2 = Some s3"
    "run_threads end_thread (ev_order e) s3 = Some s4" "unregister_radar_channel (Some p) s4 = Some (n, s5)" "s' = upd_cp p freed s5"
    using assms by (auto simp: controlprogram_exit_def bind_eq_Some_conv)
  have "keeps s1 (upd_cp p (\<lambda>cp. cp\<lparr>cp_active := 0\<rparr>) s1)" by (rule keeps_upd_cp) (simp add: same_shape_def fft_fine_def)
  also have "keeps \<dots> s2" by (rule keeps_coordination [OF st(2)])
  also have "keeps s2 s3" by (rule keeps_request [OF st(3) [unfolded timing_wait_def]])
  also have "keeps s3 s4" by (rule keeps_run_threads [OF keeps_end_thread st(4)])
  finally have k4: "keeps s1 s4" .
  obtain cp where "sv_heap s1 p = Some cp" using st(1) by (auto simp: upd_state_def state_of_def bind_eq_Some_conv split: option.splits)
  then obtain cp4 where "sv_heap s4 p = Some cp4" by (rule keeps_heap [OF k4])
  then show thesis using that st(1) k4 st(5,6) by blast
qed

lemma mark_cancelled:
  assumes "upd_state p (\<lambda>st. st\<lparr>st_cancelled := 1\<rparr>) s = Some s1"
  shows "ros_inv s \<Longrightarrow> ros_inv s1" "alive s q \<Longrightarrow> alive s1 q" "thread_keys s1 = thread_keys s" "sv_out s1 = sv_out s"
    "q \<noteq> p \<Longrightarrow> sv_heap s1 q = sv_heap s q"
proof -
  obtain cp st where p: "sv_heap s p = Some cp" "cp_state cp = Some st" and s1: "s1 = s\<lparr>sv_heap := (sv_heap s)(p \<mapsto> cp\<lparr>cp_state := Some (st\<lparr>st_cancelled := 1\<rparr>)\<rparr>)\<rparr>"
    by (rule upd_state_Some [OF assms])
  show k: "thread_keys s1 = thread_keys s" and "sv_out s1 = sv_out s" "q \<noteq> p \<Longrightarrow> sv_heap s1 q = sv_heap s q" by (simp_all add: s1 thread_keys_def)
  show "alive s q \<Longrightarrow> alive s1 q" using p unfolding alive_def k by (auto simp: state_of_def s1)
  assume i: "ros_inv s"
  have pi: "prog_inv a (cp\<lparr>cp_state := Some (st\<lparr>st_cancelled := 1\<rparr>)\<rparr>) = prog_inv a cp" for a using p(2) by (simp add: prog_inv_def fft_fine_def)
  have "chan_inv s1" using i p(1) by (auto simp: ros_inv_def chan_inv_def s1)
  moreover have "\<exists>c. sv_heap s1 q = Some c \<and> prog_inv a c" if "(a, q) \<in> set (thread_keys s)" for a q
  proof -
    have "\<exists>c. sv_heap s q = Some c \<and> prog_inv a c" using i that by (auto simp: ros_inv_def)
    then show ?thesis using p(1) pi by (cases "q = p") (simp_all add: s1)
  qed
  moreover have "sv_channels s1 = sv_channels s" by (simp add: s1)
  ultimately show "ros_inv s1" using i by (auto simp: ros_inv_def k)
qed

lemma controlprogram_exit_Some:
  assumes "controlprogram_exit e p s = Some s'" "ros_inv s"
  shows "ros_inv s'" "thread_keys s' = thread_keys s" "\<And>i. i < nslots \<Longrightarrow> sv_channels s' ! i \<noteq> Some p"
    "\<And>q. q \<noteq> p \<Longrightarrow> alive s q \<Longrightarrow> alive s' q" "\<exists>ds. sv_out s' = sv_out s @ ds \<and> list_all to_driver ds"
    "none_cancelled s \<Longrightarrow> none_cancelled s'"
proof -
  obtain s1 s4 n s5 cp4 where s1: "upd_state p (\<lambda>st. st\<lparr>st_cancelled := 1\<rparr>) s = Some s1" and st: "keeps s1 s4" "sv_heap s4 p = Some cp4"
    "unregister_radar_channel (Some p) s4 = Some (n, s5)" "s' = upd_cp p freed s5"
    by (rule controlprogram_exit_stages [OF assms(1)])
  note c = mark_cancelled [OF s1]
  have i4: "ros_inv s4" using ros_inv_keeps [OF st(1) c(1) [OF assms(2)]] .
  then have inv4: "chan_inv s4" and len: "length (sv_channels s4) = nslots" unfolding ros_inv_def chan_inv_def by blast+
  note u = unregister_any [OF inv4 st(2,3)]
  have s5: "sv_out s5 = sv_out s4" "sv_threads s5 = sv_threads s4"
    using unregister_loop_frame st(3) by (auto simp: unregister_radar_channel_def)
  have k4: "thread_keys s' = thread_keys s4" using s5 by (simp add: st(4) thread_keys_def)
  show keys: "thread_keys s' = thread_keys s" using k4 keeps_keys [OF st(1)] c(3) by simp
  show "\<exists>ds. sv_out s' = sv_out s @ ds \<and> list_all to_driver ds" using s5 st(1) c(4) by (auto simp: st(4) keeps_def)
  have ch: "sv_channels s' = vacate p (sv_channels s4)" "\<And>q. q \<noteq> p \<Longrightarrow> sv_heap s' q = sv_heap s4 q" using u(1,2) by (simp_all add: st(4))
  obtain cp5 where fr: "sv_heap s' p = Some (freed cp5)" using u(3) by (auto simp: st(4))
  show gone: "sv_channels s' ! i \<noteq> Some p" if "i < nslots" for i using len that by (auto simp: ch(1) vacate_nth)
  have other: "sv_channels s4 ! i = Some q" "q \<noteq> p" if "i < nslots" "sv_channels s' ! i = Some q" for i q
    using that gone [OF that(1)] len by (auto simp: ch(1) vacate_nth split: if_splits)
  have "\<exists>cp. sv_heap s' q = Some cp \<and> cp_parameters cp \<noteq> None \<and> ri_radar (cp_radarinfo cp) = slot_radar i \<and> ri_channel (cp_radarinfo cp) = slot_channel i"
    if "i < nslots" "sv_channels s' ! i = Some q" for i q
    using chan_invD [OF inv4 that(1) other(1) [OF that]] ch(2) [OF other(2) [OF that]] by auto
  then have "chan_inv s'" using len by (simp add: chan_inv_def ch(1))
  moreover have "\<exists>cp'. sv_heap s' q = Some cp' \<and> prog_inv b cp'" if "(b, q) \<in> set (thread_keys s4)" for b q
    using fr i4 that ch(2) by (cases "q = p") (auto simp: ros_inv_def prog_inv_def freed_def fft_fine_def)
  ultimately show "ros_inv s'" using i4 other unfolding ros_inv_def k4 by blast
  show "alive s' q" if "q \<noteq> p" "alive s q" for q
    using alive_keeps [OF st(1) c(2) [OF that(2)]] ch(2) [OF that(1)] k4 by (simp add: alive_def state_of_def)
  show "none_cancelled s'" if nc: "none_cancelled s"
    unfolding none_cancelled_def
  proof (intro allI impI)
    fix q t assume q: "q \<in> snd ` set (thread_keys s')" "state_of s' q = Some t"
    then have "q \<noteq> p" using fr by (auto simp: state_of_def freed_def)
    then obtain cp4 where "sv_heap s4 q = Some cp4" "cp_state cp4 = Some t" using q(2) ch(2) by (auto simp: state_of_def bind_eq_Some_conv)
    moreover have "rel_option same_shape (sv_heap s q) (sv_heap s4 q)" using st(1) c(5) [OF \<open>q \<noteq> p\<close>] by (metis keeps_def)
    ultimately show "st_cancelled t = 0" using shape_cancelled [OF _ nc] q(1) keys by metis
  qed
qed


text \<open>The sweep. A thread that is dropped has been cancelled, so its program holds no channel.\<close>

lemma thread_keys_drop: "thread_keys (drop_thread x s) = filter (\<lambda>y. fst y \<noteq> fst x) (thread_keys s)"
  by (simp add: thread_keys_def drop_thread_def filter_map o_def)

lemma cancel_thread_inv:
  assumes "cancel_thread e p s = Some s'" "ros_inv s" "p \<in> snd ` set (thread_keys s)" "none_cancelled s"
  shows "ros_inv s'" "thread_keys s' = thread_keys s" "\<And>i. i < nslots \<Longrightarrow> sv_channels s' ! i \<noteq> Some p"
    "\<And>q. q \<noteq> p \<Longrightarrow> alive s q \<Longrightarrow> alive s' q" "none_cancelled s'"
proof -
  obtain a cp where cp: "(a, p) \<in> set (thread_keys s)" "sv_heap s p = Some cp" "prog_inv a cp" using assms(2,3) by (fastforce simp: ros_inv_def)
  have "ros_inv s' \<and> thread_keys s' = thread_keys s \<and> (\<forall>i < nslots. sv_channels s' ! i \<noteq> Some p) \<and> (\<forall>q. q \<noteq> p \<longrightarrow> alive s q \<longrightarrow> alive s' q) \<and> none_cancelled s'"
  proof (cases "cp_state cp")
    case None
    then have "s' = s" using assms(1) cp(2) by (simp add: cancel_thread_def)
    moreover have "sv_channels s ! i \<noteq> Some p" if "i < nslots" for i
      using chan_invD [OF _ that, of s p] assms(2) cp(2,3) None by (fastforce simp: ros_inv_def prog_inv_def)
    ultimately show ?thesis using assms(2,4) by blast
  next
    case (Some st)
    then have "st_cancelled st = 0" using assms(3,4) cp(2) by (auto simp: none_cancelled_def state_of_def)
    then have "controlprogram_exit e p s = Some s'" using assms(1) cp(2) Some by (simp add: cancel_thread_def)
    from controlprogram_exit_Some [OF this assms(2)] show ?thesis using assms(4) by blast
  qed
  then show "ros_inv s'" "thread_keys s' = thread_keys s" "\<And>i. i < nslots \<Longrightarrow> sv_channels s' ! i \<noteq> Some p"
    "\<And>q. q \<noteq> p \<Longrightarrow> alive s q \<Longrightarrow> alive s' q" "none_cancelled s'" by blast+
qed

lemma drop_thread_inv:
  assumes "ros_inv s" "(fst x, thread_cp x) \<in> set (thread_keys s)" "\<forall>i < nslots. sv_channels s ! i \<noteq> Some (thread_cp x)"
  shows "ros_inv (drop_thread x s)" "\<And>q. q \<noteq> thread_cp x \<Longrightarrow> alive s q \<Longrightarrow> alive (drop_thread x s) q" "none_cancelled s \<Longrightarrow> none_cancelled (drop_thread x s)"
proof -
  let ?s = "drop_thread x s" and ?p = "thread_cp x"
  have d: "distinct (map fst (thread_keys s))" "distinct (map snd (thread_keys s))" "chan_inv s" using assms(1) by (simp_all add: ros_inv_def)
  have keep: "(a, q) \<in> set (thread_keys ?s) \<longleftrightarrow> (a, q) \<in> set (thread_keys s) \<and> q \<noteq> ?p" for a q
  proof -
    have "a = fst x \<longleftrightarrow> q = ?p" if "(a, q) \<in> set (thread_keys s)"
      using d(1,2) assms(2) that by (metis distinct_map fst_conv inj_onD prod.inject snd_conv)
    then show ?thesis unfolding thread_keys_drop by auto
  qed
  have h: "sv_heap ?s q = (if q = ?p then None else sv_heap s q)" "sv_channels ?s = sv_channels s" for q by (simp_all add: drop_thread_def)
  have "\<exists>cp. sv_heap ?s q = Some cp \<and> cp_parameters cp \<noteq> None \<and> ri_radar (cp_radarinfo cp) = slot_radar i \<and> ri_channel (cp_radarinfo cp) = slot_channel i"
    if "i < nslots" "sv_channels s ! i = Some q" for i q
    using chan_invD [OF d(3) that] assms(3) that by (auto simp: h)
  then have "chan_inv ?s" using d(3) by (simp add: chan_inv_def h)
  moreover have "q \<in> snd ` set (thread_keys ?s)" if "i < nslots" "sv_channels s ! i = Some q" for i q
  proof -
    have "q \<in> snd ` set (thread_keys s)" using assms(1) that unfolding ros_inv_def by blast
    then obtain a where "(a, q) \<in> set (thread_keys s)" by auto
    moreover have "q \<noteq> ?p" using assms(3) that by auto
    ultimately have "(a, q) \<in> set (thread_keys ?s)" using keep by blast
    then show ?thesis by force
  qed
  moreover have "\<exists>cp. sv_heap ?s q = Some cp \<and> prog_inv a cp" if "(a, q) \<in> set (thread_keys ?s)" for a q
    using assms(1) that keep by (auto simp: ros_inv_def h)
  moreover have "distinct (map fst (thread_keys ?s))" "distinct (map snd (thread_keys ?s))"
    unfolding thread_keys_drop using d(1,2) by (simp_all add: distinct_map_filter)
  ultimately show "ros_inv ?s" using h(2) by (auto simp: ros_inv_def)
  show "alive ?s q" if "q \<noteq> ?p" "alive s q" for q
    using that keep by (fastforce simp: alive_def state_of_def h)
  show "none_cancelled ?s" if "none_cancelled s"
    using that keep by (fastforce simp: none_cancelled_def state_of_def h)
qed



lemma sweep_threads_inv:
  assumes "sweep_threads e xs s = Some s'" "ros_inv s" "none_cancelled s" "\<forall>x \<in> set xs. (fst x, thread_cp x) \<in> set (thread_keys s)"
    "distinct (map fst xs)"
  shows "ros_inv s' \<and> none_cancelled s' \<and> (\<forall>q. alive s q \<longrightarrow> q \<in> snd ` set (thread_keys s') \<longrightarrow> alive s' q) \<and>
    (\<exists>P. thread_keys s' = filter P (thread_keys s))"
  using assms
proof (induction xs arbitrary: s)
  case Nil
  then show ?case using filter_True [of "thread_keys s" "\<lambda>_. True"] by (auto intro!: exI [of _ "\<lambda>_. True"])
next
  case (Cons x xs)
  show ?case
  proof (cases "entry_expired (ev_now e) x")
    case True
    then obtain s1 where s1: "cancel_thread e (thread_cp x) s = Some s1" "sweep_threads e xs (drop_thread x s1) = Some s'"
      using Cons.prems(1) by (auto simp: bind_eq_Some_conv)
    have x: "thread_cp x \<in> snd ` set (thread_keys s)" using Cons.prems(4) by force
    note c = cancel_thread_inv [OF s1(1) Cons.prems(2) x Cons.prems(3)]
    have xk: "(fst x, thread_cp x) \<in> set (thread_keys s1)" using c(2) Cons.prems(4) by simp
    have gone: "\<forall>i < nslots. sv_channels s1 ! i \<noteq> Some (thread_cp x)" using c(3) by blast
    note d = drop_thread_inv [OF c(1) xk gone]
    have rest: "\<forall>y \<in> set xs. (fst y, thread_cp y) \<in> set (thread_keys (drop_thread x s1))"
    proof
      fix y assume y: "y \<in> set xs"
      then have "fst y \<noteq> fst x" using Cons.prems(5) by (metis distinct.simps(2) imageI list.map(2) set_map)
      then show "(fst y, thread_cp y) \<in> set (thread_keys (drop_thread x s1))" using Cons.prems(4) y c(2) by (simp add: thread_keys_drop)
    qed
    from Cons.IH [OF s1(2) d(1) d(3) [OF c(5)] rest] Cons.prems(5)
    obtain P where ih: "ros_inv s'" "none_cancelled s'" "\<And>q. alive (drop_thread x s1) q \<Longrightarrow> q \<in> snd ` set (thread_keys s') \<Longrightarrow> alive s' q"
      "thread_keys s' = filter P (thread_keys (drop_thread x s1))" by auto
    have "alive s' q" if q: "alive s q" "q \<in> snd ` set (thread_keys s')" for q
    proof -
      have "q \<noteq> thread_cp x"
      proof
        assume "q = thread_cp x"
        then obtain b where b: "(b, thread_cp x) \<in> set (thread_keys s1)" "b \<noteq> fst x" using q(2) ih(4) by (auto simp: thread_keys_drop)
        moreover have "distinct (map snd (thread_keys s1))" using c(1) by (simp add: ros_inv_def)
        ultimately show False using xk by (metis distinct_map inj_onD prod.inject snd_conv)
      qed
      then show ?thesis using ih(3) d(2) c(4) q by blast
    qed
    moreover have "thread_keys s' = filter (\<lambda>y. P y \<and> fst y \<noteq> fst x) (thread_keys s)"
      by (simp add: ih(4) thread_keys_drop c(2) conj_commute)
    ultimately show ?thesis using ih(1,2) by blast
  next
    case False
    then show ?thesis using Cons.IH [of s] Cons.prems by simp
  qed
qed

text \<open>A new client.\<close>

lemma connect_inv:
  assumes "connect a p tid k now g se r = Some r'" "g = control_init gp gs gd gc" "ros_inv (rs_server r)" "none_cancelled (rs_server r)"
    "sv_heap (rs_server r) p = None" "p \<notin> set (programs (rs_server r))" "a \<notin> fst ` set (sv_threads (rs_server r))"
  shows "ros_inv (rs_server r')" "none_cancelled (rs_server r')" "alive (rs_server r') p" "\<And>q. alive (rs_server r) q \<Longrightarrow> alive (rs_server r') q"
proof -
  let ?s = "rs_server r" and ?s' = "rs_server r'"
  obtain st where g: "cp_state g = Some st" "cp_parameters g \<noteq> None" "cp_data g \<noteq> None" "st_cancelled st = 0" "st_fft_array st = None"
    by (simp add: assms(2) control_init_def)
  let ?g = "g\<lparr>cp_state := Some (st\<lparr>st_socket := k, st_thread := Some a\<rparr>)\<rparr>"
  have s': "?s' = ?s\<lparr>sv_heap := (sv_heap ?s)(p \<mapsto> ?g), sv_threads := (a, tid, 60, now, p) # sv_threads ?s\<rparr>"
    using assms(1) g(1) by (auto simp: connect_def Let_def)
  have k: "thread_keys ?s' = (a, p) # thread_keys ?s" by (simp add: s' thread_keys_def)
  have new: "p \<notin> snd ` set (thread_keys ?s)" "a \<notin> fst ` set (thread_keys ?s)"
    using assms(6,7) by (simp_all add: programs_keys) (simp add: thread_keys_def image_image)
  have h: "sv_heap ?s' q = (if q = p then Some ?g else sv_heap ?s q)" "sv_channels ?s' = sv_channels ?s" for q by (simp_all add: s')
  have "chan_inv ?s'" using assms(3,5) by (auto simp: ros_inv_def chan_inv_def s')
  moreover have "\<exists>cp. sv_heap ?s' q = Some cp \<and> prog_inv b cp" if "(b, q) \<in> set (thread_keys ?s')" for b q
  proof (cases "(b, q) = (a, p)")
    case True
    then show ?thesis using g by (simp add: h prog_inv_def fft_fine_def)
  next
    case False
    then have "(b, q) \<in> set (thread_keys ?s)" "q \<noteq> p" using that new(1) by (force simp: k)+
    then show ?thesis using assms(3) by (auto simp: h ros_inv_def)
  qed
  ultimately show "ros_inv ?s'" using assms(3) new h(2) by (auto simp: ros_inv_def k)
  show "none_cancelled ?s'" using assms(4) g(4) unfolding none_cancelled_def k by (auto simp: state_of_def h)
  show "alive ?s' p" by (simp add: alive_def k state_of_def h)
  show "alive ?s' q" if "alive ?s q" for q using that new(1) by (auto simp: alive_def k state_of_def h)
qed


lemma runs_inv_step:
  assumes "ros_step r r'" "runs_inv r"
  shows "runs_inv r'"
  using assms
proof (cases rule: ros_step.cases)
  case (connect p a tid k now gp gs gd gc se)
  note i = assms(2) [unfolded runs_inv_def]
  have r': "rs_num_threads r' = int (length (sv_threads (rs_server r'))) \<and> length (sv_threads (rs_server r')) = Suc (length (sv_threads (rs_server r))) \<and>
    (\<forall>q. rs_sessions r' q \<noteq> None \<longrightarrow> q = p \<or> rs_sessions r q \<noteq> None)"
    using connect(5) by (auto simp: connect_def Let_def split: option.splits)
  have "ros_inv (rs_server r')" "none_cancelled (rs_server r')" "alive (rs_server r') p" "\<And>q. alive (rs_server r) q \<Longrightarrow> alive (rs_server r') q"
    using connect_inv [OF connect(5) refl _ _ connect(2-4)] i by blast+
  then show ?thesis using i r' connect(1) unfolding runs_inv_def by auto
next
  case (command p se e se' s')
  note i = assms(2) [unfolded runs_inv_def]
  have "alive (rs_server r) p" using i command(2) by simp
  then have c: "ros_inv s'" "thread_keys s' = thread_keys (rs_server r)" "\<forall>q. alive (rs_server r) q \<longrightarrow> alive s' q" "none_cancelled s'"
    using client_command_inv [OF command(3)] i by blast+
  have "length (sv_threads s') = length (sv_threads (rs_server r))" using arg_cong [OF c(2), of length] by (simp add: thread_keys_def)
  then show ?thesis using i c command(2) by (auto simp: runs_inv_def command(1))
next
  case (quit p se e se' s1 e' s')
  note i = assms(2) [unfolded runs_inv_def]
  have "alive (rs_server r) p" using i quit(2) by simp
  then have c: "ros_inv s1" "thread_keys s1 = thread_keys (rs_server r)" "\<forall>q. alive (rs_server r) q \<longrightarrow> alive s1 q" "none_cancelled s1"
    using client_command_inv [OF quit(3)] i by blast+
  note x = controlprogram_exit_Some [OF quit(4) c(1)]
  have "thread_keys s' = thread_keys (rs_server r)" using x(2) c(2) by simp
  from arg_cong [OF this, of length] have "length (sv_threads s') = length (sv_threads (rs_server r))" by (simp add: thread_keys_def)
  then show ?thesis using i x(1) x(6) [OF c(4)] x(4) c(3) by (auto simp: runs_inv_def quit(1))
next
  case (lost p se e s')
  note i = assms(2) [unfolded runs_inv_def]
  have i0: "ros_inv (rs_server r)" using i by blast
  note x = controlprogram_exit_Some [OF lost(3) i0]
  from arg_cong [OF x(2), of length] have "length (sv_threads s') = length (sv_threads (rs_server r))" by (simp add: thread_keys_def)
  then show ?thesis using i x(1,4,6) by (auto simp: runs_inv_def lost(1))
next
  case (sweep e s')
  note i = assms(2) [unfolded runs_inv_def]
  have k: "\<forall>x \<in> set (sv_threads (rs_server r)). (fst x, thread_cp x) \<in> set (thread_keys (rs_server r))" by (auto simp: thread_keys_def)
  have d: "distinct (map fst (sv_threads (rs_server r)))" using i by (simp add: ros_inv_def thread_keys_def o_def)
  obtain P where c: "ros_inv s'" "none_cancelled s'" "\<And>q. alive (rs_server r) q \<Longrightarrow> q \<in> snd ` set (thread_keys s') \<Longrightarrow> alive s' q"
    "thread_keys s' = filter P (thread_keys (rs_server r))"
    using sweep_threads_inv [OF sweep(2) _ _ k d] i by blast
  from arg_cong [OF c(4), of length] have "length (sv_threads s') \<le> length (sv_threads (rs_server r))"
    by (simp add: thread_keys_def)
  then show ?thesis using i c(1-3) by (auto simp: runs_inv_def sweep(1) programs_keys)
qed

lemma runs_inv_reach: "ros_reach r0 r \<Longrightarrow> runs_inv r0 \<Longrightarrow> runs_inv r"
  by (induction rule: ros_reach.induct) (auto intro: runs_inv_step)

text \<open>An invariant server without clients.\<close>

definition ros_start :: "server \<Rightarrow> ros" where
  "ros_start s = \<lparr>rs_server = s, rs_num_threads = 0, rs_sessions = (\<lambda>_. None)\<rparr>"

lemma runs_inv_start:
  assumes "sv_threads s = []" "sv_channels s = replicate nslots None"
  shows "runs_inv (ros_start s)"
  using assms by (simp add: runs_inv_def ros_start_def ros_inv_def chan_inv_def thread_keys_def none_cancelled_def)

lemma assign_frequency_out:
  assumes "receiver_assign_frequency qs v p s = Some s'"
  shows "sv_out s' = sv_out s"
proof -
  obtain cp st where cp: "sv_heap s p = Some cp" "cp_state cp = Some st" using assms by (auto simp: receiver_assign_frequency_def bind_eq_Some_conv)
  show ?thesis
  proof (cases "st_fft_array st")
    case None
    then show ?thesis using assms cp by (auto simp: receiver_assign_frequency_def split: if_splits)
  next
    case (Some arr)
    obtain w good where "upd_state p (assign_state w good) s = Some s'"
      using assms cp Some by (auto simp: receiver_assign_frequency_def bind_eq_Some_conv)
    then show ?thesis by (auto simp: upd_state_def split: option.splits)
  qed
qed

lemma fill_blacklist_returns:
  "(\<And>q. q \<in> set ps \<Longrightarrow> \<exists>cp. sv_heap s q = Some cp \<and> (cp_active cp \<noteq> 0 \<longrightarrow> cp_state cp \<noteq> None)) \<Longrightarrow> verbose \<le> 1 \<Longrightarrow>
   fill_blacklist verbose s p n ps bl \<noteq> None"
proof (induction ps arbitrary: bl)
  case (Cons q ps)
  obtain cp where cp: "sv_heap s q = Some cp" "cp_active cp \<noteq> 0 \<longrightarrow> cp_state cp \<noteq> None" using Cons.prems(1) [of q] by auto
  have ih: "fill_blacklist verbose s p n ps bl' \<noteq> None" for bl' using Cons by simp
  show ?case using cp ih Cons.prems(2) by auto
qed simp

lemma assign_returns:
  assumes "ros_inv s" "alive s p" "sv_heap s p = Some cp" "cp_state cp = Some st" "st_fft_array st = Some arr" "arr \<noteq> []"
    "cl_start (cp_clrfreqsearch cp) < cl_end (cp_clrfreqsearch cp)" "verbose \<le> 1"
    "iniparser_getboolean (sv_site_ini s) ''site_settings:use_clr_detrend'' 0 = Some 0"
  shows "\<exists>s'. receiver_assign_frequency qs verbose p s = Some s'"
proof -
  obtain prm where prm: "cp_parameters cp = Some prm" "fft_fine cp" using assms(1-3) by (elim aliveD) auto
  then have n: "st_N st = int (length arr)" using assms(4,5) by (auto simp: fft_fine_def)
  have "\<exists>c. sv_heap s q = Some c \<and> (cp_active c \<noteq> 0 \<longrightarrow> cp_state c \<noteq> None)" if "q \<in> set (programs s)" for q
    using assms(1) that by (fastforce simp: programs_keys ros_inv_def prog_inv_def split: option.splits)
  then have "fill_blacklist verbose s p (Max_Control_THREADS + length (sv_blacklist s)) (programs s) (sv_blacklist s) \<noteq> None"
    by (rule fill_blacklist_returns [OF _ assms(8)])
  then obtain bl where "fill_blacklist verbose s p (Max_Control_THREADS + length (sv_blacklist s)) (programs s) (sv_blacklist s) = Some bl" by auto
  then obtain good where "candidates verbose p cp prm (map (\<lambda>f. f\<lparr>ff_detrend := 0\<rparr>) arr) s = Some good"
    using assms(7) by (simp add: candidates_def band_fill_cases)
  then show ?thesis
    using assms(3-6,9) prm(1) n by (simp add: receiver_assign_frequency_def prepare_fft_def upd_state_def state_of_def)
qed

section \<open>Properties\<close>

text \<open>
  C3: the server keeps its books. From a start without clients, after any sequence of
  connections, commands, departures and timeout sweeps: every occupied radar channel belongs to a
  program on the thread list that is registered under exactly that radar and channel, every
  program on the list exists and is either complete or freed and inactive, no program is on the
  list twice, a client thread always has a live program, and at most \<^verbatim>\<open>Max_Control_THREADS\<close> are listed.
\<close>

theorem server_keeps_books:
  assumes "ros_reach (ros_start s0) r" "sv_threads s0 = []" "sv_channels s0 = replicate nslots None"
  shows "chan_inv (rs_server r) \<and> distinct (programs (rs_server r)) \<and> length (programs (rs_server r)) \<le> Max_Control_THREADS \<and>
    (\<forall>i < nslots. \<forall>q. sv_channels (rs_server r) ! i = Some q \<longrightarrow> q \<in> set (programs (rs_server r))) \<and>
    (\<forall>q \<in> set (programs (rs_server r)). \<exists>cp a. sv_heap (rs_server r) q = Some cp \<and> prog_inv a cp) \<and>
    (\<forall>q. rs_sessions r q \<noteq> None \<longrightarrow> alive (rs_server r) q)"
proof -
  have i: "runs_inv r" by (rule runs_inv_reach [OF assms(1) runs_inv_start [OF assms(2,3)]])
  have "length (programs (rs_server r)) \<le> Max_Control_THREADS" using i by (simp add: runs_inv_def programs_def)
  moreover have "\<forall>q \<in> set (programs (rs_server r)). \<exists>cp a. sv_heap (rs_server r) q = Some cp \<and> prog_inv a cp"
    using i by (fastforce simp: runs_inv_def ros_inv_def programs_keys)
  ultimately show ?thesis using i by (auto simp: runs_inv_def ros_inv_def programs_keys)
qed


text \<open>
  C36: a client that pings stays connected. In a reachable state the ping of a client is answered with
  status 1 and its item of the thread list carries the present time, from which the next timeout counts.
\<close>

theorem ping_keeps_alive:
  assumes "ros_reach (ros_start s0) r" "sv_threads s0 = []" "sv_channels s0 = replicate nslots None" "s = rs_server r"
    "rs_sessions r p = Some se" "sv_in s (Client (se_socket se)) = W_ROSMsg m # rest" "rm_type m = CHR ''=''"
  shows "\<exists>s'. client_command e p se s = Some (True, se, s') \<and> sv_in s' (Client (se_socket se)) = rest \<and>
    sv_out s' = sv_out s @ [(Client (se_socket se), W_ROSMsg (m\<lparr>rm_status := 1\<rparr>))] \<and>
    (\<exists>a tid tmo. (a, tid, tmo, ev_now e, p) \<in> set (sv_threads s'))"
proof -
  have "runs_inv r" by (rule runs_inv_reach [OF assms(1) runs_inv_start [OF assms(2,3)]])
  then have i: "ros_inv s" "alive s p" using assms(4,5) by (auto simp: runs_inv_def)
  obtain a cp st prm d where p: "(a, p) \<in> set (thread_keys s)" "sv_heap s p = Some cp" "cp_state cp = Some st" "st_thread st = Some a" "cp_data cp = Some d"
    by (rule aliveD [OF i])
  obtain tid tmo seen where t: "(a, tid, tmo, seen, p) \<in> set (sv_threads s)" using p(1) by (auto simp: thread_keys_def)
  let ?th = "map (\<lambda>(b, t, tmo, seen, q). (b, t, tmo, if b = a then ev_now e else seen, q)) (sv_threads s)"
  have a: "a \<in> fst ` set (sv_threads s)" using t by force
  have th: "\<exists>a tid tmo. (a, tid, tmo, ev_now e, p) \<in> set ?th" using t by force
  show ?thesis
    using assms(6,7) p(2-5) a th
    by (cases "unregistered cp") (simp_all add: client_command_def upd_data_def recv_client_def recv_from_def touch_thread_def state_of_def
        client_switch_def cmd_ping_def answer_def send_client_def upd_cp_def)
qed


section \<open>Examples\<close>

text \<open>A client connects to a server without clients.\<close>

definition joined_cp :: ControlProgram where
  "joined_cp = new_cp\<lparr>cp_state := map_option (\<lambda>st. st\<lparr>st_socket := 5, st_thread := Some 1\<rparr>) (cp_state new_cp)\<rparr>"

definition joined :: "server \<Rightarrow> ros" where
  "joined s = \<lparr>rs_server = s\<lparr>sv_heap := (sv_heap s)(7 \<mapsto> joined_cp), sv_threads := [(1, 11, 60, 0, 7)]\<rparr>,
     rs_num_threads = 1, rs_sessions = [7 \<mapsto> fresh_session 5]\<rparr>"

lemma joined_reach:
  assumes "sv_threads s = []" "sv_heap s 7 = None"
  shows "ros_reach (ros_start s) (joined s)"
proof -
  have "connect 1 7 11 5 0 (control_init idle_prm idle_state idle_data idle_clr) (fresh_session 5) (ros_start s) = Some (joined s)"
    using assms by (simp add: connect_def ros_start_def joined_def joined_cp_def new_cp_def control_init_def fresh_session_def)
  then have "ros_step (ros_start s) (joined s)"
    by (rule ros_step.connect [rotated 4]) (use assms in \<open>simp_all add: ros_start_def programs_def site_consts\<close>)
  then show ?thesis by (rule ros_reach.step [OF ros_reach.start])
qed

lemma idle_start: "sv_threads idle_server = []" "sv_channels idle_server = replicate nslots None" "sv_heap idle_server 7 = None"
  by (simp_all add: idle_server_def)

theorem server_keeps_books_witness:
  "\<exists>r. ros_reach (ros_start idle_server) r \<and> programs (rs_server r) = [7] \<and> chan_inv (rs_server r) \<and> alive (rs_server r) 7"
proof -
  have r: "ros_reach (ros_start idle_server) (joined idle_server)" by (rule joined_reach) (simp_all add: idle_start)
  have "programs (rs_server (joined idle_server)) = [7]" "rs_sessions (joined idle_server) 7 \<noteq> None" by (simp_all add: joined_def programs_def)
  then show ?thesis using server_keeps_books [OF r idle_start(1,2)] r by blast
qed

definition ping_start :: server where
  "ping_start = idle_server\<lparr>sv_in := (\<lambda>d. if d = Client 5 then [W_ROSMsg \<lparr>rm_status = 0, rm_type = CHR ''=''\<rparr>] else [])\<rparr>"

theorem ping_keeps_alive_witness:
  "\<exists>r s'. ros_reach (ros_start ping_start) r \<and> client_command quiet_env 7 (fresh_session 5) (rs_server r) = Some (True, fresh_session 5, s') \<and>
    sv_out s' = [(Client 5, W_ROSMsg \<lparr>rm_status = 1, rm_type = CHR ''=''\<rparr>)]"
proof -
  have s: "sv_threads ping_start = []" "sv_channels ping_start = replicate nslots None" "sv_heap ping_start 7 = None"
    by (simp_all add: ping_start_def idle_server_def)
  have r: "ros_reach (ros_start ping_start) (joined ping_start)" by (rule joined_reach) (simp_all add: s)
  have "sv_in (rs_server (joined ping_start)) (Client (se_socket (fresh_session 5))) = [W_ROSMsg \<lparr>rm_status = 0, rm_type = CHR ''=''\<rparr>]"
    "rs_sessions (joined ping_start) 7 = Some (fresh_session 5)" "sv_out (rs_server (joined ping_start)) = []" "se_socket (fresh_session 5) = 5"
    by (simp_all add: joined_def fresh_session_def ping_start_def idle_server_def)
  then show ?thesis using ping_keeps_alive [OF r s(1,2) refl, of 7 "fresh_session 5" _ "[]" quiet_env] r by fastforce
qed

text \<open>A client that has connected, taken a channel and searched a band of 4 kHz.\<close>

definition band :: CLRFreqPRM where
  "band = \<lparr>cl_start = 10000, cl_end = 10004, cl_filter_bandwidth = 0, cl_pwr_threshold = 0, cl_nave = 1\<rparr>"

definition ok_answer :: wire where
  "ok_answer = drv_msg CHR ''0'' 1"

definition asked :: "char \<Rightarrow> ROSMsg" where
  "asked c = \<lparr>rm_status = 0, rm_type = c\<rparr>"

definition search_start :: server where
  "search_start = idle_server\<lparr>sv_clr_pwr := [replicate (nat max_freqs) 0, replicate (nat max_freqs) 0], sv_in := (\<lambda>d. case d of
       Client k \<Rightarrow> [W_ROSMsg (asked CHR ''R''), W_int 1, W_int 1, W_ROSMsg (asked CHR ''<''), W_CLRFreqPRM band]
     | Driver v \<Rightarrow> if v = RECV then [W_CLRFreqPRM band, W_int 5, W_doubles [1, 2, 3, 4, 5], ok_answer] else [ok_answer, ok_answer])\<rparr>"

lemma register_first:
  assumes "sv_channels s = replicate nslots None" "sv_heap s p = Some cp" "cp_parameters cp = Some prm"
  shows "register_radar_channel p 1 1 s = Some (1, s\<lparr>sv_heap := (sv_heap s)(p \<mapsto> cp\<lparr>cp_parameters := Some (prm\<lparr>pr_radar := 1, pr_channel := 1\<rparr>),
      cp_radarinfo := (cp_radarinfo cp)\<lparr>ri_radar := 1, ri_channel := 1\<rparr>\<rparr>), sv_channels := (sv_channels s)[0 := Some p]\<rparr>)"
proof -
  have "unregister_radar_channel (Some p) s = Some (0, s)" using assms(1) unfolding unregister_radar_channel_def slots_expand by simp
  then show ?thesis using assms unfolding register_radar_channel_def slots_expand
    by (simp add: site_consts slot_radar_def slot_channel_def take_slot_def upd_parameters_def parameters_of_def upd_cp_def)
qed

lemma set_radar_chan_runs:
  assumes "sv_channels s = replicate nslots None" "sv_heap s p = Some cp" "cp_parameters cp = Some prm" "cp_data cp = Some d"
    "cp_state cp = Some st" "st_thread st = Some a" "a \<in> fst ` set (sv_threads s)"
    "sv_in s (Client (se_socket se)) = W_ROSMsg (asked CHR ''R'') # W_int 1 # W_int 1 # rest"
  obtains s' cp' prm' where "client_command e p se s = Some (True, se\<lparr>se_status := 1\<rparr>, s')" "sv_heap s' p = Some cp'"
    "cp_parameters cp' = Some prm'" "pr_radar prm' = 1" "\<not> unregistered cp'" "sv_in s' = (sv_in s)(Client (se_socket se) := rest)"
    "sv_clr_pwr s' = sv_clr_pwr s" "sv_site_ini s' = sv_site_ini s" "cp_state cp' = cp_state cp" "fst ` set (sv_threads s') = fst ` set (sv_threads s)"
proof -
  define s1 where "s1 = (if unregistered cp then upd_cp p (\<lambda>cp. cp\<lparr>cp_data := Some (d\<lparr>da_status := -1\<rparr>)\<rparr>) s else s)"
  define cp1 where "cp1 = (if unregistered cp then cp\<lparr>cp_data := Some (d\<lparr>da_status := -1\<rparr>)\<rparr> else cp)"
  define s2 where "s2 = s1\<lparr>sv_threads := map (\<lambda>(b, t, tmo, seen, q). (b, t, tmo, if b = a then ev_now e else seen, q)) (sv_threads s),
      sv_in := (sv_in s)(Client (se_socket se) := rest)\<rparr>"
  have s2: "sv_channels s2 = replicate nslots None" "sv_heap s2 p = Some cp1" "cp_parameters cp1 = Some prm"
    "sv_in s2 = (sv_in s)(Client (se_socket se) := rest)" "sv_clr_pwr s2 = sv_clr_pwr s" "sv_site_ini s2 = sv_site_ini s"
    "cp_state cp1 = cp_state cp" "fst ` set (sv_threads s2) = fst ` set (sv_threads s)"
    using assms(1-4) by (auto simp: s2_def s1_def cp1_def upd_cp_def image_image intro: rev_image_eqI)
  obtain s' prm' ri where r: "register_radar_channel p 1 1 s2 = Some (1, s')" "sv_in s' = sv_in s2" "sv_clr_pwr s' = sv_clr_pwr s2" "sv_site_ini s' = sv_site_ini s2" "sv_threads s' = sv_threads s2"
    "sv_heap s' p = Some (cp1\<lparr>cp_parameters := Some prm', cp_radarinfo := ri\<rparr>)" "pr_radar prm' = 1" "ri_radar ri = 1" "ri_channel ri = 1"
    using register_first [OF s2(1-3)] by force
  have "client_command e p se s = Some (True, se\<lparr>se_status := 1\<rparr>, answer se [] (asked CHR ''R'') 1 s')"
    using assms(2-8) r(1) unfolding s2_def s1_def
    by (cases "unregistered cp") (simp_all add: client_command_def upd_data_def upd_cp_def recv_client_def recv_from_def touch_thread_def state_of_def client_switch_def 
        cmd_set_radar_chan_def asked_def)
  then show thesis
    by (rule that [where cp' = "cp1\<lparr>cp_parameters := Some prm', cp_radarinfo := ri\<rparr>"])
      (use r(2-9) s2 in \<open>simp_all add: unregistered_def answer_def send_client_def send_all_def\<close>)
qed

lemma request_runs:
  assumes "sv_in s (Driver d) = drv_msg c st # rest"
  obtains s' where "request d ws s = Some s'" "sv_heap s' = sv_heap s" "sv_in s' = (sv_in s)(Driver d := rest)" "sv_site_ini s' = sv_site_ini s"
    "sv_clr_pwr s' = sv_clr_pwr s"
  using assms by (simp add: request_def recv_from_def send_all_def)

lemma clear_freq_search_runs:
  assumes "sv_heap s p = Some cp" "cp_parameters cp = Some prm" "pr_radar prm = 1" "\<not> unregistered cp" "cp_state cp = Some st" "st_thread st = Some a"
    "a \<in> fst ` set (sv_threads s)" "sv_in s (Client (se_socket se)) = [W_ROSMsg (asked CHR ''<''), W_CLRFreqPRM band]"
    "sv_in s (Driver RECV) = [W_CLRFreqPRM band, W_int 5, W_doubles [1, 2, 3, 4, 5], ok_answer]" "sv_in s (Driver DIO) = [ok_answer, ok_answer]"
    "sv_clr_pwr s = [replicate (nat max_freqs) 0, replicate (nat max_freqs) 0]" "ev_usleep_file e"
  obtains s' cp' st' arr where "client_command e p se s = Some (True, se, s')" "sv_heap s' p = Some cp'" "cp_state cp' = Some st'"
    "st_fft_array st' = Some arr" "arr \<noteq> []" "cl_start (cp_clrfreqsearch cp') < cl_end (cp_clrfreqsearch cp')" "\<not> unregistered cp'"
    "sv_site_ini s' = sv_site_ini s"
proof -
  let ?th = "map (\<lambda>(b, t, tmo, seen, q). (b, t, tmo, if b = a then ev_now e else seen, q)) (sv_threads s)"
  let ?cp = "cp\<lparr>cp_clrfreqsearch := band\<rparr>"
  define s2 where "s2 = upd_cp p (\<lambda>cp. cp\<lparr>cp_clrfreqsearch := band\<rparr>) (s\<lparr>sv_threads := ?th, sv_in := (sv_in s)(Client (se_socket se) := [])\<rparr>)"
  have s2: "sv_heap s2 p = Some ?cp" "sv_in s2 (Driver DIO) = drv_msg CHR ''0'' 1 # [ok_answer]" "sv_in s2 (Driver RECV) = sv_in s (Driver RECV)"
    "sv_clr_pwr s2 = sv_clr_pwr s" "sv_site_ini s2 = sv_site_ini s"
    using assms(1,10) by (simp_all add: s2_def upd_cp_def ok_answer_def)
  obtain s3 where s3: "request DIO [drv_msg CLRFREQ_code 1, W_ControlPRM prm] s2 = Some s3" "sv_heap s3 = sv_heap s2"
    "sv_in s3 = (sv_in s2)(Driver DIO := [ok_answer])" "sv_site_ini s3 = sv_site_ini s2" "sv_clr_pwr s3 = sv_clr_pwr s2"
    by (rule request_runs [OF s2(2)])
  obtain m where m: "ok_answer = W_DriverMsg m" by (simp add: ok_answer_def)
  have h3: "sv_heap s3 p = Some ?cp" "cp_parameters ?cp = Some prm" "cp_state ?cp = Some st" using s2(1) s3(2) assms(2,5) by simp_all
  have in3: "sv_in s3 (Driver RECV) = W_CLRFreqPRM band # W_int 5 # W_doubles [1, 2, 3, 4, 5] # W_DriverMsg m # []"
    using s2(3) s3(3) assms(9) m by simp
  have clr: "int (length [1, 2, 3, 4, 5 :: real]) = 5" "1 \<le> pr_radar prm" "pr_radar prm \<le> int (length (sv_clr_pwr s3))"
    "\<forall>row \<in> set (sv_clr_pwr s3). int (length row) = max_freqs" "cdiv (cl_end band + cl_start band) 2 = Some 10002" "cdiv 5 2 = Some 2"
    using assms(3,11) s2(4) s3(5) by (simp_all add: band_def max_freqs_def full_clr_start_def full_clr_end_def)
  obtain s4 arr where s4: "receiver_clrfreq (ev_elapsed e) p s3 = Some s4"
    "sv_heap s4 p = Some (?cp\<lparr>cp_clrfreqsearch := band, cp_state := Some (st\<lparr>st_N := 5, st_fft_array := Some arr\<rparr>)\<rparr>)"
    "sv_in s4 = (sv_in s3)(Driver RECV := [])" "sv_site_ini s4 = sv_site_ini s3" "int (length arr) = 5"
    using clrfreq_result [where wait_elapsed = "ev_elapsed e", OF h3 in3 clr] by blast
  have "sv_in s4 (Driver DIO) = drv_msg CHR ''0'' 1 # []" using s4(3) s3(3) by (simp add: ok_answer_def)
  then obtain s5 where s5: "request DIO [drv_msg RXFE_RESET_code 1] s4 = Some s5" "sv_heap s5 = sv_heap s4" "sv_site_ini s5 = sv_site_ini s4"
    by (rule request_runs)
  define cp' where "cp' = ?cp\<lparr>cp_clrfreqsearch := band, cp_state := Some (st\<lparr>st_N := 5, st_fft_array := Some arr\<rparr>)\<rparr>"
  have h5: "sv_heap s5 p = Some cp'" using s4(2) s5(2) by (simp add: cp'_def)
  let ?s' = "answer se [] (asked CHR ''<'') (st_freq_change_needed st) s5"
  have "cmd_clear_freq_search e p (asked CHR ''<'') se (s\<lparr>sv_in := (sv_in s)(Client (se_socket se) := [W_CLRFreqPRM band]), sv_threads := ?th\<rparr>) = Some (se, ?s')"
    using assms(1,2,4,5,12) s3(1) s4(1) s5(1) h5 h3 s2(1) unfolding s2_def
    by (simp add: cmd_clear_freq_search_def recv_client_def recv_from_def DIO_clrfreq_def DIO_rxfe_reset_def state_of_def cp'_def)
  then have "client_command e p se s = Some (True, se, ?s')"
    using assms(1,4-8) by (simp add: client_command_def recv_client_def recv_from_def touch_thread_def state_of_def client_switch_def asked_def)
  moreover have "sv_heap ?s' p = Some cp'" "sv_site_ini ?s' = sv_site_ini s"
    using h5 s5(3) s4(4) s3(4) s2(5) by (simp_all add: answer_def send_client_def send_all_def)
  moreover have "arr \<noteq> []" using s4(5) by auto
  ultimately show thesis
    using assms(4) by (intro that [of ?s' cp' "st\<lparr>st_N := 5, st_fft_array := Some arr\<rparr>" arr]) (simp_all add: cp'_def band_def unregistered_def)
qed


end
