(* ===== verification/Driver_Common.thy ===== *)
theory Driver_Common
  imports ROS_Types
begin

text \<open>
  What the timing, digital I/O and synthesiser drivers have in common: arrays indexed by radar and
  channel, and the table of the control programs that have announced themselves as ready for the next trigger
  (\<^verbatim>\<open>clients\<close>, \<^verbatim>\<open>numclients\<close>, \<^verbatim>\<open>ready_index\<close> in the three \<^verbatim>\<open>main.c\<close>). The refinement lemma relates the table to
  the list of the ready programs, latest parameters first seen first.
\<close>

section \<open>Arrays by radar and channel\<close>

definition maxclients :: nat where "maxclients = MAX_RADARS * MAX_CHANNELS"

text \<open>The cell of \<^verbatim>\<open>[r][c]\<close>; the indices come from the message and are not checked by the drivers.\<close>

definition cell :: "int \<Rightarrow> int \<Rightarrow> nat option" where
  "cell r c = (if 0 \<le> r \<and> r < int MAX_RADARS \<and> 0 \<le> c \<and> c < int MAX_CHANNELS then Some (nat r * MAX_CHANNELS + nat c) else None)"

definition prm_cell :: "ControlPRM \<Rightarrow> nat option" where
  "prm_cell q = cell (pr_radar q - 1) (pr_channel q - 1)"

lemma maxclients_eq [simp]: "maxclients = 8"
  by (simp add: maxclients_def site_consts)

lemma cell_less: "cell r c = Some k \<Longrightarrow> k < maxclients"
proof -
  assume a: "cell r c = Some k"
  then have "nat r \<le> 1" "nat c \<le> 3" "k = nat r * 4 + nat c" by (auto simp: cell_def site_consts split: if_splits)
  then show ?thesis by simp
qed

lemma cell_inj:
  assumes "cell r c = Some k" "cell r' c' = Some k"
  shows "r = r'" "c = c'"
proof -
  have k: "nat r * 4 + nat c = nat r' * 4 + nat c'" and b: "nat c < 4" "nat c' < 4" "0 \<le> r" "0 \<le> c" "0 \<le> r'" "0 \<le> c'"
    using assms by (auto simp: cell_def site_consts split: if_splits)
  have "a = a' \<and> d = d'" if "a * 4 + d = a' * 4 + d'" "d < 4" "d' < 4" for a d a' d' :: nat using that by presburger
  from this [OF k b(1,2)] have "nat r = nat r' \<and> nat c = nat c'" .
  then show "r = r'" "c = c'" using b(3-6) by auto
qed

section \<open>The ready clients\<close>

record ready_table =
  rt_clients :: "ControlPRM list"
  rt_num :: int
  rt_index :: "int list"

text \<open>A client that is ready again replaces its entry; a new one is appended.\<close>

definition add_ready :: "ControlPRM \<Rightarrow> ready_table \<Rightarrow> ready_table option" where
  "add_ready q t = do {
     k \<leftarrow> prm_cell q;
     i \<leftarrow> aref (rt_index t) (int k);
     if 0 \<le> i \<and> i < int maxclients then do {
       cl \<leftarrow> aset (rt_clients t) i q;
       Some (t\<lparr>rt_clients := cl\<rparr>)
     } else do {
       cl \<leftarrow> aset (rt_clients t) (rt_num t) q;
       ix \<leftarrow> aset (rt_index t) (int k) (rt_num t);
       Some (t\<lparr>rt_clients := cl, rt_index := ix, rt_num := rt_num t + 1\<rparr>)
     }
   }"

text \<open>\<^verbatim>\<open>numclients=numclients % maxclients\<close>\<close>

definition wrap_ready :: "ready_table \<Rightarrow> ready_table" where
  "wrap_ready t = t\<lparr>rt_num := rt_num t mod int maxclients\<rparr>"

definition clear_ready :: "ready_table \<Rightarrow> ready_table" where
  "clear_ready t = t\<lparr>rt_num := 0, rt_index := replicate maxclients (-1)\<rparr>"

definition ready_clients :: "ready_table \<Rightarrow> ControlPRM list" where
  "ready_clients t = take (nat (rt_num t)) (rt_clients t)"

fun ready_all :: "ControlPRM list \<Rightarrow> ready_table \<Rightarrow> ready_table option" where
  "ready_all [] t = Some t"
| "ready_all (q # qs) t = Option.bind (add_ready q t) (\<lambda>t. ready_all qs (wrap_ready t))"

section \<open>Refinement\<close>

text \<open>The intended list: the entry of the same radar and channel is replaced in place, a new one goes to the end.\<close>

fun put_ready :: "ControlPRM \<Rightarrow> ControlPRM list \<Rightarrow> ControlPRM list" where
  "put_ready q [] = [q]"
| "put_ready q (x # xs) = (if prm_cell x = prm_cell q then q # xs else x # put_ready q xs)"

definition listed :: "ControlPRM list \<Rightarrow> ControlPRM list" where
  "listed qs = foldl (\<lambda>xs q. put_ready q xs) [] qs"

definition holds_list :: "ready_table \<Rightarrow> ControlPRM list \<Rightarrow> bool" where
  "holds_list t xs \<longleftrightarrow> length (rt_clients t) = maxclients \<and> length (rt_index t) = maxclients \<and> length xs \<le> maxclients \<and>
     take (length xs) (rt_clients t) = xs \<and> rt_num t = int (length xs) mod int maxclients \<and>
     distinct (map prm_cell xs) \<and> None \<notin> set (map prm_cell xs) \<and>
     (\<forall>k < maxclients. rt_index t ! k = (case find_index (\<lambda>x. prm_cell x = Some k) xs of None \<Rightarrow> -1 | Some i \<Rightarrow> int i))"

lemma find_index_append:
  "find_index P (xs @ ys) = (case find_index P xs of Some i \<Rightarrow> Some i | None \<Rightarrow> map_option (\<lambda>i. i + length xs) (find_index P ys))"
proof (induction xs)
  case Nil
  then show ?case by (cases "find_index P ys") (simp_all del: find_index_None)
next
  case (Cons x xs)
  then show ?case by (cases "find_index P xs"; cases "find_index P ys") (simp_all del: find_index_None)
qed

lemma find_index_update:
  "i < length xs \<Longrightarrow> P y = P (xs ! i) \<Longrightarrow> find_index P (xs[i := y]) = find_index P xs"
  by (rule find_index_cong2) (auto simp: nth_list_update)

lemma put_ready_find:
  "put_ready q xs = (case find_index (\<lambda>x. prm_cell x = prm_cell q) xs of None \<Rightarrow> xs @ [q] | Some i \<Rightarrow> xs[i := q])"
proof (induction xs)
  case (Cons x xs)
  then show ?case by (cases "find_index (\<lambda>x. prm_cell x = prm_cell q) xs") (simp_all del: find_index_None)
qed simp

lemma listed_snoc: "listed (qs @ [q]) = put_ready q (listed qs)"
  by (simp add: listed_def)

lemma prm_cell_less: "prm_cell q = Some k \<Longrightarrow> k < maxclients"
  by (auto simp: prm_cell_def dest: cell_less)

lemma cells_bound:
  assumes "distinct (map prm_cell xs)" "None \<notin> set (map prm_cell xs)" "k < maxclients" "\<forall>x \<in> set xs. prm_cell x \<noteq> Some k"
  shows "length xs < maxclients"
proof -
  let ?ks = "map (the \<circ> prm_cell) xs"
  have some: "prm_cell x = Some (the (prm_cell x))" if "x \<in> set xs" for x using assms(2) that by (cases "prm_cell x") force+
  have "inj_on (the \<circ> prm_cell) (set xs)" using assms(1) some by (auto simp: distinct_map inj_on_def) metis
  then have "distinct ?ks" using assms(1) by (simp add: distinct_map)
  moreover have "set ?ks \<subseteq> {..<maxclients} - {k}" using some assms(4) prm_cell_less by fastforce
  ultimately have "length xs \<le> card ({..<maxclients} - {k})" by (metis card_mono distinct_card finite_Diff finite_lessThan length_map)
  then show ?thesis using assms(3) by (simp add: card_Diff_singleton)
qed

lemma add_ready_refines:
  assumes "holds_list t xs" "prm_cell q = Some k"
  shows "\<exists>t'. add_ready q t = Some t' \<and> holds_list (wrap_ready t') (put_ready q xs)"
proof -
  have k: "k < maxclients" using prm_cell_less [OF assms(2)] .
  have h: "length (rt_clients t) = maxclients" "length (rt_index t) = maxclients" "length xs \<le> maxclients" "take (length xs) (rt_clients t) = xs"
    "rt_num t = int (length xs) mod int maxclients" "distinct (map prm_cell xs)" "None \<notin> set (map prm_cell xs)"
    and ix: "\<And>j. j < maxclients \<Longrightarrow> rt_index t ! j = (case find_index (\<lambda>x. prm_cell x = Some j) xs of None \<Rightarrow> -1 | Some i \<Rightarrow> int i)"
    using assms(1) unfolding holds_list_def by blast+
  show ?thesis
  proof (cases "find_index (\<lambda>x. prm_cell x = Some k) xs")
    case (Some i)
    have i: "i < length xs" "prm_cell (xs ! i) = Some k" using find_index_SomeD [OF Some] by auto
    let ?t = "t\<lparr>rt_clients := (rt_clients t)[i := q]\<rparr>"
    have "add_ready q t = Some ?t" using assms(2) k h(1-3) i(1) ix [OF k] Some by (simp add: add_ready_def del: find_index_None)
    moreover have "put_ready q xs = xs[i := q]" using Some assms(2) by (simp add: put_ready_find)
    moreover have "map prm_cell (xs[i := q]) = map prm_cell xs" using i assms(2) by (metis list_update_id map_update nth_map)
    moreover have "find_index (\<lambda>x. prm_cell x = Some j) (xs[i := q]) = find_index (\<lambda>x. prm_cell x = Some j) xs" for j
      by (rule find_index_update [OF i(1)]) (simp add: i(2) assms(2))
    moreover have "take (length xs) ((rt_clients t)[i := q]) = xs[i := q]" using h(4) by (simp add: take_update_swap)
    ultimately show ?thesis using h ix by (simp add: holds_list_def wrap_ready_def del: maxclients_eq)
  next
    case None
    then have new: "\<forall>x \<in> set xs. prm_cell x \<noteq> Some k" by simp
    have len: "length xs < maxclients" by (rule cells_bound [OF h(6,7) k new])
    then have num: "rt_num t = int (length xs)" using h(5) by simp
    let ?t = "t\<lparr>rt_clients := (rt_clients t)[length xs := q], rt_index := (rt_index t)[k := int (length xs)], rt_num := int (length xs) + 1\<rparr>"
    have "add_ready q t = Some ?t" using assms(2) k h(1-3) ix [OF k] None num len by (simp add: add_ready_def)
    moreover have "put_ready q xs = xs @ [q]" using None assms(2) by (simp add: put_ready_find del: find_index_None)
    moreover have "take (Suc (length xs)) ((rt_clients t)[length xs := q]) = xs @ [q]" using h(1,4) len by (simp add: take_Suc_conv_app_nth)
    moreover have "distinct (map prm_cell (xs @ [q]))" "None \<notin> set (map prm_cell (xs @ [q]))" using h(6,7) new assms(2) by force+
    moreover have "(rt_index t)[k := int (length xs)] ! j = (case find_index (\<lambda>x. prm_cell x = Some j) (xs @ [q]) of None \<Rightarrow> -1 | Some i \<Rightarrow> int i)"
      if "j < maxclients" for j
      using ix [OF that] None h(2) k assms(2) that
      by (cases "j = k"; cases "find_index (\<lambda>x. prm_cell x = Some j) xs") (simp_all add: find_index_append del: find_index_None maxclients_eq)
    ultimately show ?thesis using h len by (simp add: holds_list_def wrap_ready_def add.commute del: maxclients_eq)
  qed
qed

lemma clear_holds: "length (rt_clients t) = maxclients \<Longrightarrow> holds_list (clear_ready t) []"
  by (simp add: holds_list_def clear_ready_def)

lemma ready_all_holds:
  "holds_list t xs \<Longrightarrow> \<forall>q \<in> set qs. prm_cell q \<noteq> None \<Longrightarrow>
   \<exists>t'. ready_all qs t = Some t' \<and> holds_list t' (foldl (\<lambda>xs q. put_ready q xs) xs qs)"
proof (induction qs arbitrary: t xs)
  case (Cons q qs)
  obtain k where "prm_cell q = Some k" using Cons.prems(2) by auto
  then obtain t1 where "add_ready q t = Some t1" "holds_list (wrap_ready t1) (put_ready q xs)" using add_ready_refines [OF Cons.prems(1)] by blast
  then show ?case using Cons.IH [of "wrap_ready t1" "put_ready q xs"] Cons.prems(2) by simp
qed simp

lemma holds_clients: "holds_list t xs \<Longrightarrow> ready_clients t = (if length xs = maxclients then [] else xs)"
  by (auto simp: holds_list_def ready_clients_def)

lemma add_ready_cell: "add_ready q t = Some t' \<Longrightarrow> \<exists>k. prm_cell q = Some k"
  by (auto simp: add_ready_def bind_eq_Some_conv)

lemma add_ready_keeps: "\<exists>qs. holds_list t qs \<Longrightarrow> add_ready q t = Some t' \<Longrightarrow> \<exists>qs. holds_list (wrap_ready t') qs"
  using add_ready_cell [of q t t'] add_ready_refines [of t _ q] by fastforce

lemma clear_ready_keeps: "\<exists>qs. holds_list t qs \<Longrightarrow> \<exists>qs. holds_list (clear_ready t) qs"
  by (rule exI [of _ "[]"], rule clear_holds) (auto simp: holds_list_def)

lemma ready_clients_cells:
  assumes "holds_list t xs"
  shows "distinct (map prm_cell (ready_clients t))" "None \<notin> prm_cell ` set (ready_clients t)"
  using assms holds_clients [OF assms] by (auto simp: holds_list_def)

lemma prm_cell_Some:
  assumes "prm_cell q = Some k"
  shows "pr_radar q = int (k div MAX_CHANNELS) + 1" "pr_channel q = int (k mod MAX_CHANNELS) + 1"
proof -
  have "k = nat (pr_radar q - 1) * 4 + nat (pr_channel q - 1)" and b: "nat (pr_channel q - 1) < 4" "1 \<le> pr_radar q" "1 \<le> pr_channel q"
    using assms by (auto simp: prm_cell_def cell_def site_consts split: if_splits)
  then have "k div 4 = nat (pr_radar q - 1)" "k mod 4 = nat (pr_channel q - 1)" by simp_all
  then show "pr_radar q = int (k div MAX_CHANNELS) + 1" "pr_channel q = int (k mod MAX_CHANNELS) + 1" using b by (simp_all add: site_consts)
qed

section \<open>Property\<close>

text \<open>
  C29: the table of ready clients keeps the latest parameters of every channel that has announced itself since the table
  was cleared, in the order of their first announcement, unless all eight channels have: then
  \<^verbatim>\<open>numclients % maxclients\<close> is 0 and the table is empty.
\<close>

theorem ready_table_refines:
  assumes "length (rt_clients t) = maxclients" "\<forall>q \<in> set qs. prm_cell q \<noteq> None"
  shows "\<exists>t'. ready_all qs (clear_ready t) = Some t' \<and> ready_clients t' = (if length (listed qs) = maxclients then [] else listed qs)"
  using ready_all_holds [OF clear_holds [OF assms(1)] assms(2)] holds_clients by (auto simp: listed_def)

section \<open>Examples\<close>

definition plain_prm :: "int \<Rightarrow> int \<Rightarrow> int \<Rightarrow> ControlPRM" where
  "plain_prm radar channel index = \<lparr>pr_radar = radar, pr_channel = channel, pr_local = 0, pr_priority = 0, pr_current_pulseseq_index = index,
     pr_tbeam = 0, pr_tbeamcode = 0, pr_tbeamazm = 0, pr_tbeamwidth = 0, pr_tfreq = 10000, pr_trise = 0, pr_number_of_samples = 0, pr_buffer_index = 0,
     pr_baseband_samplerate = 0, pr_filter_bandwidth = 0, pr_match_filter = 0, pr_rfreq = 10000, pr_rbeam = 0, pr_rbeamcode = 0, pr_rbeamazm = 0,
     pr_rbeamwidth = 0, pr_status = 0, pr_name = [], pr_description = []\<rparr>"

lemma plain_cell: "prm_cell (plain_prm 1 1 0) = Some 0"
  by (simp add: prm_cell_def plain_prm_def cell_def site_consts)

lemma one_ready: "holds_list \<lparr>rt_clients = replicate 8 (plain_prm 1 1 0), rt_num = 1, rt_index = 0 # replicate 7 (-1)\<rparr> [plain_prm 1 1 0]"
  by (auto simp: holds_list_def plain_cell nth_Cons split: nat.splits)

theorem ready_table_refines_witness:
  "\<exists>t'. ready_all [plain_prm 1 1 0, plain_prm 1 2 0, plain_prm 1 1 3] (clear_ready \<lparr>rt_clients = replicate 8 (plain_prm 1 1 0), rt_num = 0, rt_index = []\<rparr>) = Some t' \<and>
    ready_clients t' = [plain_prm 1 1 3, plain_prm 1 2 0]"
proof -
  have "prm_cell (plain_prm 1 1 0) = Some 0" "prm_cell (plain_prm 1 1 3) = Some 0" "prm_cell (plain_prm 1 2 0) = Some 1"
    by (simp_all add: prm_cell_def plain_prm_def cell_def site_consts)
  then show ?thesis
    using ready_table_refines [of "\<lparr>rt_clients = replicate 8 (plain_prm 1 1 0), rt_num = 0, rt_index = []\<rparr>" "[plain_prm 1 1 0, plain_prm 1 2 0, plain_prm 1 1 3]"]
    by (simp add: listed_def)
qed

end
