(* ===== verification/TSG.thy ===== *)
theory TSG
  imports ROS_Types
begin

text \<open>
  The timing sequence generator of \<^verbatim>\<open>tsg/maketsg.c\<close>: the table of states, the run-length writer
  \<^verbatim>\<open>TSGWrBuf\<close>, the parameter checks and adjustments of \<^verbatim>\<open>TSGMake\<close>, its main loop and its end.
  Times are in clock periods of 10 microseconds. Signed integers are unbounded; the bytes of the
  sequence are 8-bit words. The output arrays grow as they are written, so the sizes passed to
  \<^verbatim>\<open>malloc\<close> are not modelled; whether each \<^verbatim>\<open>malloc\<close> succeeds is the parameter \<open>mem\<close>. The
  development shows that a sequence is always produced for usable parameters, that it holds
  exactly the promised number of sample pulses, and that the transmit gate only ever opens behind
  the attenuator and receiver guards.
\<close>

section \<open>Constants and the state table\<close>

abbreviation (input) S_bit :: u8 where "S_bit \<equiv> 0x01"
abbreviation (input) R_bit :: u8 where "R_bit \<equiv> 0x02"
abbreviation (input) X_bit :: u8 where "X_bit \<equiv> 0x04"
abbreviation (input) A_bit :: u8 where "A_bit \<equiv> 0x08"
abbreviation (input) P_bit :: u8 where "P_bit \<equiv> 0x10"

abbreviation (input) CLOCK_PERIOD :: int where "CLOCK_PERIOD \<equiv> 10"
abbreviation (input) END_DELAY :: int where "END_DELAY \<equiv> 1000"
abbreviation (input) R_to_X_min :: int where "R_to_X_min \<equiv> 6"
abbreviation (input) A_to_R_min :: int where "A_to_R_min \<equiv> 1"

abbreviation (input) TSG_OK :: int where "TSG_OK \<equiv> 0"
abbreviation (input) TSG_INV_RSEP :: int where "TSG_INV_RSEP \<equiv> 1"
abbreviation (input) TSG_NO_SMSEP :: int where "TSG_NO_SMSEP \<equiv> 2"
abbreviation (input) TSG_INV_MPPUL_SMSEP :: int where "TSG_INV_MPPUL_SMSEP \<equiv> 3"
abbreviation (input) TSG_INV_PAT :: int where "TSG_INV_PAT \<equiv> 4"
abbreviation (input) TSG_INV_MPINC_SMSEP :: int where "TSG_INV_MPINC_SMSEP \<equiv> 5"
abbreviation (input) TSG_INV_LAGFR_SMSEP :: int where "TSG_INV_LAGFR_SMSEP \<equiv> 6"
abbreviation (input) TSG_INV_DUTY_CYCLE :: int where "TSG_INV_DUTY_CYCLE \<equiv> 7"
abbreviation (input) TSG_INV_ODD_SMSEP :: int where "TSG_INV_ODD_SMSEP \<equiv> 8"
abbreviation (input) TSG_INV_TXPL_BAUD :: int where "TSG_INV_TXPL_BAUD \<equiv> 9"
abbreviation (input) TSG_INV_MEMORY :: int where "TSG_INV_MEMORY \<equiv> 10"
abbreviation (input) TSG_INV_PHASE_DELAY :: int where "TSG_INV_PHASE_DELAY \<equiv> 11"

datatype TSGstates =
  Null | S_state | A1 | AS1 | AR1 | ARS1 | ARX | ARXS | AR2 | ARS2 | A2 | AS2 | END_state

fun rfvect :: "TSGstates \<Rightarrow> u8" where
  "rfvect Null = 0"
| "rfvect S_state = S_bit"
| "rfvect A1 = A_bit"
| "rfvect AS1 = A_bit OR S_bit"
| "rfvect AR1 = A_bit OR R_bit"
| "rfvect ARS1 = A_bit OR R_bit OR S_bit"
| "rfvect ARX = A_bit OR R_bit OR X_bit"
| "rfvect ARXS = A_bit OR R_bit OR X_bit OR S_bit"
| "rfvect AR2 = A_bit OR R_bit"
| "rfvect ARS2 = A_bit OR R_bit OR S_bit"
| "rfvect A2 = A_bit"
| "rfvect AS2 = A_bit OR S_bit"
| "rfvect END_state = 0"

text \<open>The three columns of \<^verbatim>\<open>next_state\<close>: a sample event, both events at once, a pulse event.\<close>

fun next_state :: "TSGstates \<Rightarrow> TSGstates \<times> TSGstates \<times> TSGstates" where
  "next_state Null = (S_state, AS1, A1)"
| "next_state S_state = (Null, A1, AS1)"
| "next_state A1 = (AS1, ARS1, AR1)"
| "next_state AS1 = (A1, AR1, ARS1)"
| "next_state AR1 = (ARS1, ARXS, ARX)"
| "next_state ARS1 = (AR1, ARX, ARXS)"
| "next_state ARX = (ARXS, ARS2, AR2)"
| "next_state ARXS = (ARX, AR2, ARS2)"
| "next_state AR2 = (ARS2, AS2, A2)"
| "next_state ARS2 = (AR2, A2, AS2)"
| "next_state A2 = (AS2, S_state, Null)"
| "next_state AS2 = (A2, Null, S_state)"
| "next_state END_state = (Null, Null, Null)"

section \<open>The run-length writer\<close>

record TSGcnt =
  cnt_last :: u8
  cnt_n_smp :: int

text \<open>
  The buffer being written: the two byte arrays; \<^verbatim>\<open>tsg->len\<close> is their common length. The loop
  that splits a delay into runs of 255 comes first.
\<close>

type_synonym tsg_runs = "u8 list \<times> u8 list"

function wr_runs :: "tsg_runs \<Rightarrow> u8 \<Rightarrow> int \<Rightarrow> tsg_runs" where
  "wr_runs b code delay =
    (if delay > 255 then wr_runs (fst b @ [code], snd b @ [255]) code (delay - 255)
     else (fst b @ [code], snd b @ [of_int delay]))"
  by pat_completeness auto
termination by (relation "measure (\<lambda>(b, code, delay). nat delay)") auto

declare wr_runs.simps [simp del]

definition TSGWrBuf :: "tsg_runs \<Rightarrow> u8 \<Rightarrow> int \<Rightarrow> TSGcnt \<Rightarrow> tsg_runs \<times> TSGcnt" where
  "TSGWrBuf b code delay cnt =
    (wr_runs b code delay,
     \<lparr>cnt_last = code AND S_bit,
      cnt_n_smp = (if code AND S_bit \<noteq> 0 \<and> cnt_last cnt = 0 then cnt_n_smp cnt + 1 else cnt_n_smp cnt)\<rparr>)"

section \<open>Checks and adjustments\<close>

fun pat_increasing :: "int list \<Rightarrow> bool" where
  "pat_increasing (x # y # r) = (x < y \<and> pat_increasing (y # r))"
| "pat_increasing _ = True"

text \<open>
  The checks before the first allocation. The loop over the pulses that computes the unused
  \<^verbatim>\<open>maxpulse\<close> reads \<^verbatim>\<open>pat\<close> up to \<^verbatim>\<open>mppul\<close>.
\<close>

definition tsg_validate :: "TSGprm \<Rightarrow> int option" where
  "tsg_validate t =
    (if int (length (tp_pat t)) < tp_mppul t then None
     else if tp_frang t < 0 \<or> tp_rsep t \<le> 0 then Some TSG_INV_RSEP
     else if tp_txpl t \<le> 0 \<and> tp_smsep t \<le> 0 \<and> tp_rsep t \<le> 0 then Some TSG_NO_SMSEP
     else if tp_mppul t = 0 \<and> tp_smsep t = 0 \<and> tp_rsep t = 0 then Some TSG_INV_MPPUL_SMSEP
     else if tp_mppul t > 0 \<and> \<not> pat_increasing (take (nat (tp_mppul t)) (tp_pat t)) then Some TSG_INV_PAT
     else Some TSG_OK)"

text \<open>The copy of the parameters kept in \<^verbatim>\<open>buf->prm\<close>.\<close>

definition tsg_copy :: "TSGprm \<Rightarrow> TSGprm option" where
  "tsg_copy t =
    (if tp_nbaud t > 1 \<and> int (length (tp_code t)) < tp_nbaud t then None
     else Some (t\<lparr>tp_pat := (if tp_mppul t > 0 then take (nat (tp_mppul t)) (tp_pat t) else []),
                  tp_code := (if tp_nbaud t > 1 then take (nat (tp_nbaud t)) (tp_code t) else [])\<rparr>))"

text \<open>Baud count, lag to the first range, sample separation and maximum lag.\<close>

definition tsg_pulse_sep :: "TSGprm \<Rightarrow> TSGprm" where
  "tsg_pulse_sep t =
    (if tp_mppul t = 0 then t
     else if tp_txpl t \<noteq> 0 then t\<lparr>tp_smsep := tp_txpl t\<rparr>
     else if tp_smsep t = 0 then
       (let s = (tp_rsep t * 20) sdiv 3 in t\<lparr>tp_smsep := s, tp_txpl := s\<rparr>)
     else t\<lparr>tp_txpl := tp_smsep t\<rparr>)"

definition tsg_round_smsep :: "int \<Rightarrow> int" where
  "tsg_round_smsep s =
    (if s smod CLOCK_PERIOD \<noteq> 0 then
       (let s1 = (s sdiv CLOCK_PERIOD + 1) * CLOCK_PERIOD in
        if (s1 sdiv CLOCK_PERIOD) smod 2 \<noteq> 0 then s1 + CLOCK_PERIOD else s1)
     else s)"

definition tsg_adjust :: "TSGprm \<Rightarrow> TSGprm option" where
  "tsg_adjust t0 =
    (let t1 = t0\<lparr>tp_nbaud := (if tp_nbaud t0 < 1 then 1 else tp_nbaud t0),
                 tp_lagfr := (tp_frang t0 * 20) sdiv 3\<rparr>;
         t2 = tsg_pulse_sep t1
     in do {
       smsep \<leftarrow> cdiv (tp_smsep t2) (tp_nbaud t2);
       mlag \<leftarrow> (if tp_mppul t2 = 0 then Some 0 else aref (tp_pat t2) (tp_mppul t2 - 1));
       Some (t2\<lparr>tp_smsep := tsg_round_smsep smsep, tp_mlag := mlag\<rparr>)
     })"

definition tsg_check_pulses :: "TSGprm \<Rightarrow> int option" where
  "tsg_check_pulses t =
    (if tp_mppul t \<le> 0 then Some TSG_OK
     else if tp_mpinc t < tp_smsep t then Some TSG_INV_MPINC_SMSEP
     else do {
       r1 \<leftarrow> crem (tp_lagfr t) (tp_smsep t);
       if r1 \<noteq> 0 then Some TSG_INV_LAGFR_SMSEP else do {
       r2 \<leftarrow> crem (tp_mpinc t) (tp_smsep t);
       if r2 \<noteq> 0 then Some TSG_INV_MPINC_SMSEP else do {
       duty \<leftarrow> cdiv (20 * tp_mppul t * tp_txpl t)
                 (tp_mlag t * tp_mpinc t + tp_nrang t * tp_nbaud t * tp_smsep t + tp_lagfr t);
       if duty \<ge> 1 then Some TSG_INV_DUTY_CYCLE else Some TSG_OK }}})"

section \<open>The main loop\<close>

text \<open>What the loop reads and does not change.\<close>

record tsg_env =
  te_prm :: TSGprm
  te_N :: int
  te_smsp :: int
  te_mpnc :: int
  te_txp :: int
  te_t4 :: int
  te_phase_delay :: int

abbreviation te_t2 :: int where "te_t2 \<equiv> A_to_R_min"
abbreviation te_t3 :: int where "te_t3 \<equiv> R_to_X_min"
abbreviation te_t5 :: int where "te_t5 \<equiv> A_to_R_min + 3"

fun duration :: "tsg_env \<Rightarrow> TSGstates \<Rightarrow> int" where
  "duration e A1 = te_t2" | "duration e AS1 = te_t2"
| "duration e AR1 = te_t3" | "duration e ARS1 = te_t3"
| "duration e ARX = te_txp e" | "duration e ARXS = te_txp e"
| "duration e AR2 = te_t4 e" | "duration e ARS2 = te_t4 e"
| "duration e A2 = te_t5" | "duration e AS2 = te_t5"
| "duration e END_state = 1"
| "duration e Null = 0" | "duration e S_state = 0"

record tsg_st =
  ts_state :: TSGstates
  ts_i :: int
  ts_j :: int
  ts_s_time :: int
  ts_p_time :: int
  ts_f_time :: int
  ts_scope :: u8
  ts_buf :: tsg_runs
  ts_cnt :: TSGcnt

text \<open>The output code of an iteration and the time to the next phase change.\<close>

definition tsg_code :: "tsg_env \<Rightarrow> tsg_st \<Rightarrow> (u8 \<times> int \<times> u8) option" where
  "tsg_code e s =
    (let code = rfvect (ts_state s) OR ts_scope s;
         scope = (if tp_gort (te_prm e) = 1 \<and> code AND X_bit \<noteq> 0 then 0 else ts_scope s)
     in if code AND X_bit \<noteq> 0 \<and> tp_nbaud (te_prm e) > 1 then do {
          p_code \<leftarrow> aref (tp_code (te_prm e)) (tp_nbaud (te_prm e) * (ts_i s - 1) + ts_j s);
          Some (if p_code < 0 then code OR P_bit else code,
                if ts_f_time s > te_txp e then te_phase_delay e else ts_f_time s, scope)
        } else Some (code, 32767, scope))"

text \<open>The next state, the baud index and the phase time, for the event that comes first.\<close>

definition tsg_next :: "TSGstates \<Rightarrow> int \<Rightarrow> int \<Rightarrow> int \<Rightarrow> int \<Rightarrow> TSGstates \<times> int \<times> int" where
  "tsg_next st j f s p =
    (if f < s \<and> f < p then (st, j + 1, f)
     else if s < p then (fst (next_state st), if f = s then j + 1 else j, f)
     else if s = p then (fst (snd (next_state st)), 0, f)
     else (snd (snd (next_state st)), 0, 32767))"

text \<open>The time to the next pulse when the state has no duration of its own.\<close>

definition tsg_next_pulse :: "tsg_env \<Rightarrow> tsg_st \<Rightarrow> tsg_st option" where
  "tsg_next_pulse e s =
    (if ts_p_time s \<noteq> 0 then Some s
     else if ts_i s < tp_mppul (te_prm e) then do {
       a \<leftarrow> aref (tp_pat (te_prm e)) (ts_i s);
       b \<leftarrow> aref (tp_pat (te_prm e)) (ts_i s - 1);
       Some (s\<lparr>ts_p_time := (a - b) * te_mpnc e - (te_t2 + te_t3 + te_t4 e + te_t5 + te_txp e),
               ts_j := 0, ts_i := ts_i s + 1\<rparr>)
     } else Some (s\<lparr>ts_p_time := 32767\<rparr>))"

definition tsg_step :: "tsg_env \<Rightarrow> tsg_st \<Rightarrow> tsg_st option" where
  "tsg_step e s = do {
     (code, f, scope) \<leftarrow> tsg_code e s;
     let delay = min f (min (ts_s_time s) (ts_p_time s));
     let (buf, cnt) = TSGWrBuf (ts_buf s) code delay (ts_cnt s);
     let (st', j', f1) = tsg_next (ts_state s) (ts_j s) f (ts_s_time s) (ts_p_time s);
     let s' = ts_s_time s - delay;
     let p' = ts_p_time s - delay;
     let f' = f1 - delay;
     tsg_next_pulse e (s\<lparr>ts_state := st', ts_j := j', ts_scope := scope, ts_buf := buf, ts_cnt := cnt,
       ts_f_time := (if f' \<le> 0 then te_phase_delay e else f'),
       ts_s_time := (if s' \<le> 0 then te_smsp e else s'),
       ts_p_time := (if p' \<le> 0 then duration e st' else p')\<rparr>)
   }"

partial_function (option) tsg_loop :: "tsg_env \<Rightarrow> tsg_st \<Rightarrow> tsg_st option" where
  "tsg_loop e s =
    (if cnt_n_smp (ts_cnt s) < te_N e then Option.bind (tsg_step e s) (tsg_loop e) else Some s)"

declare tsg_loop.simps [code]

section \<open>The whole function\<close>

text \<open>The numbers of samples and clock ticks, and the start of the loop.\<close>

definition tsg_prepare :: "TSGprm \<Rightarrow> (TSGprm \<times> int \<times> tsg_env \<times> int) option" where
  "tsg_prepare t =
    (let smsp = tp_smsep t sdiv CLOCK_PERIOD;
         lgfr = tp_lagfr t sdiv CLOCK_PERIOD;
         mpnc = tp_mpinc t sdiv CLOCK_PERIOD;
         txp = tp_txpl t sdiv CLOCK_PERIOD;
         t4 = (if tp_rtoxmin t = 0 then te_t3 else tp_rtoxmin t sdiv CLOCK_PERIOD);
         e = \<lparr>te_prm = t, te_N = 0, te_smsp = smsp sdiv 2, te_mpnc = mpnc, te_txp = txp, te_t4 = t4,
              te_phase_delay = 0\<rparr>
     in if smsp smod 2 \<noteq> 0 then Some (t, TSG_INV_ODD_SMSEP, e, lgfr)
     else do {
       a \<leftarrow> cdiv (tp_mlag t * mpnc) smsp;
       b \<leftarrow> cdiv (tp_nrang t * (tp_rsep t * 20)) (3 * tp_smsep t);
       let t' = t\<lparr>tp_samples := a + b\<rparr>;
       let e' = e\<lparr>te_prm := t', te_N := a + b\<rparr>;
       if tp_mppul t \<noteq> 0 \<and> tp_nbaud t > 1 then
         (let e'' = e'\<lparr>te_phase_delay := txp sdiv tp_nbaud t\<rparr> in
          if txp smod tp_nbaud t \<noteq> 0 then Some (t', TSG_INV_TXPL_BAUD, e'', lgfr)
          else if txp sdiv tp_nbaud t = 0 then Some (t', TSG_INV_PHASE_DELAY, e'', lgfr)
          else Some (t', TSG_OK, e'', lgfr))
       else Some (t', TSG_OK, e', lgfr)
     })"

definition tsg_start :: "tsg_env \<Rightarrow> int \<Rightarrow> tsg_st option" where
  "tsg_start e lgfr = do {
     let t = te_prm e;
     (i, p, s) \<leftarrow>
       (if tp_mppul t = 0 then Some (0, 32767, 1)
        else do {
          p0 \<leftarrow> aref (tp_pat t) 0;
          Some (1, p0 * te_mpnc e + 1, p0 * te_mpnc e + 1 + lgfr + te_t2 + te_t3 + te_txp e sdiv 2)
        });
     let (b1, c1) = TSGWrBuf ([], []) 0x80 1 \<lparr>cnt_last = 0, cnt_n_smp = 0\<rparr>;
     let (b2, c2) = TSGWrBuf b1 (rfvect Null) (tp_stdelay t) c1;
     Some \<lparr>ts_state = Null, ts_i = i, ts_j = 0, ts_s_time = s, ts_p_time = p,
           ts_f_time = (if tp_mppul t = 0 then 0 else 32727), ts_scope = 0, ts_buf = b2, ts_cnt = c2\<rparr>
   }"

text \<open>The final delay, and the sample delay in units of the range separation.\<close>

definition tsg_smdelay_ticks :: "tsg_runs \<Rightarrow> int" where
  "tsg_smdelay_ticks b =
    sum_list (map (\<lambda>(c, r). uint r) (takeWhile (\<lambda>(c, r). c AND 1 = 0) (zip (fst b) (snd b))))"

definition tsg_finish :: "tsg_env \<Rightarrow> tsg_runs \<Rightarrow> TSGcnt \<Rightarrow> TSGprm \<times> tsg_runs" where
  "tsg_finish e b cnt =
    (let t = te_prm e;
         b' = fst (TSGWrBuf b 0 (if tp_mppul t = 0 \<or> END_DELAY \<le> 0 then 1 else END_DELAY) cnt);
         smdelay = tsg_smdelay_ticks b' * 10
     in (t\<lparr>tp_smdelay := \<lfloor>real_of_int smdelay / (real_of_int (tp_rsep t) / (3 / 10) * 2) + 1 / 2\<rfloor>\<rparr>, b'))"

text \<open>
  \<^verbatim>\<open>TSGMake\<close>: the parameters as it leaves them, the flag, and the buffer or a null pointer. The
  \<open>k\<close>-th call of \<^verbatim>\<open>malloc\<close> succeeds when \<open>mem k\<close>: 0 the buffer, 1 its parameters, 2 the pattern,
  3 the phase codes, 4 and 5 the two output arrays.
\<close>

definition TSGMake :: "(nat \<Rightarrow> bool) \<Rightarrow> TSGprm \<Rightarrow> int \<Rightarrow> (TSGprm \<times> int \<times> TSGbuf option) option" where
  "TSGMake mem tsg index = do {
     flg \<leftarrow> tsg_validate tsg;
     if flg \<noteq> TSG_OK then Some (tsg, flg, None)
     else if \<not> mem 0 \<or> \<not> mem 1 \<or> tp_mppul tsg > 0 \<and> \<not> mem 2 \<or> tp_nbaud tsg > 1 \<and> \<not> mem 3
     then Some (tsg, TSG_OK, None)
     else do {
       prm \<leftarrow> tsg_copy tsg;
       t \<leftarrow> tsg_adjust tsg;
       flg1 \<leftarrow> tsg_check_pulses t;
       if flg1 \<noteq> TSG_OK then Some (t, flg1, None)
       else do {
         (t', flg2, e, lgfr) \<leftarrow> tsg_prepare t;
         if flg2 \<noteq> TSG_OK then Some (t', flg2, None)
         else if \<not> mem 4 \<or> \<not> mem 5 then Some (t', TSG_INV_MEMORY, None)
         else do {
           s0 \<leftarrow> tsg_start e lgfr;
           s \<leftarrow> tsg_loop e s0;
           let (t'', b) = tsg_finish e (ts_buf s) (ts_cnt s);
           Some (t'', TSG_OK, Some \<lparr>tb_index = index, tb_len = int (length (fst b)), tb_step = CLOCK_PERIOD,
                  tb_code = fst b, tb_rep = snd b, tb_prm = Some prm\<rparr>)
         }
       }
     }
   }"

section \<open>What the writer appends\<close>

text \<open>The waveform a run-length buffer stands for, one byte per clock tick.\<close>

definition expand :: "tsg_runs \<Rightarrow> u8 list" where
  "expand b = concat (map (\<lambda>(c, r). replicate (unat r) c) (zip (fst b) (snd b)))"

definition balanced :: "tsg_runs \<Rightarrow> bool" where
  "balanced b \<longleftrightarrow> length (fst b) = length (snd b)"

lemma balanced_wr [simp]: "balanced b \<Longrightarrow> balanced (wr_runs b code delay)"
  by (induction b code delay rule: wr_runs.induct) (subst wr_runs.simps, simp add: balanced_def)

lemma expand_snoc: "balanced b \<Longrightarrow> expand (fst b @ [c], snd b @ [r]) = expand b @ replicate (unat r) c"
  by (simp add: expand_def balanced_def)

lemma unat_byte: "0 \<le> d \<Longrightarrow> d \<le> 255 \<Longrightarrow> unat (of_int d :: u8) = nat d"
  by (simp add: unat_eq_nat_uint uint_word_of_int_eq take_bit_int_eq_self)

lemma expand_wr:
  "balanced b \<Longrightarrow> 0 \<le> delay \<Longrightarrow> expand (wr_runs b code delay) = expand b @ replicate (nat delay) code"
proof (induction b code delay rule: wr_runs.induct)
  case (1 b code delay)
  show ?case
  proof (cases "delay > 255")
    case True
    then have "nat delay = 255 + nat (delay - 255)" by simp
    then have r: "replicate (nat delay) code = replicate 255 code @ replicate (nat (delay - 255)) code"
      using replicate_add by metis
    have "balanced (fst b @ [code], snd b @ [255])" using 1(2) by (simp add: balanced_def)
    with True have "expand (wr_runs b code delay) =
        expand (fst b @ [code], snd b @ [255]) @ replicate (nat (delay - 255)) code"
      using 1(1) by (subst wr_runs.simps) simp
    then show ?thesis using expand_snoc [OF 1(2), of code 255] r by simp
  next
    case False
    then show ?thesis
      using expand_snoc [OF 1(2), of code "of_int delay"] unat_byte [OF 1(3)] by (subst wr_runs.simps) simp
  qed
qed

text \<open>Whatever the delay, only copies of the code are appended, in the arrays and in the waveform.\<close>

lemma expand_wr_any:
  "balanced b \<Longrightarrow> \<exists>n. expand (wr_runs b code delay) = expand b @ replicate n code"
proof (cases "0 \<le> delay")
  case False
  then show "balanced b \<Longrightarrow> ?thesis" using expand_snoc [of b code "of_int delay"] by (subst wr_runs.simps) auto
qed (use expand_wr in blast)

lemma codes_wr: "\<exists>n. fst (wr_runs b code delay) = fst b @ replicate (Suc n) code"
proof (induction b code delay rule: wr_runs.induct)
  case (1 b code delay)
  show ?case
  proof (cases "delay > 255")
    case True
    with 1 obtain n where
      "fst (wr_runs (fst b @ [code], snd b @ [255]) code (delay - 255)) = fst b @ replicate (Suc (Suc n)) code"
      by auto
    with True have "fst (wr_runs b code delay) = fst b @ replicate (Suc (Suc n)) code"
      by (subst wr_runs.simps) simp
    then show ?thesis by blast
  next
    case False
    then have "fst (wr_runs b code delay) = fst b @ replicate (Suc 0) code"
      by (subst wr_runs.simps) simp
    then show ?thesis by blast
  qed
qed

text \<open>The number of times the sample bit goes from 0 to 1 in a list of codes.\<close>

fun s_rises :: "u8 \<Rightarrow> u8 list \<Rightarrow> nat" where
  "s_rises l [] = 0"
| "s_rises l (c # cs) = (if c AND S_bit \<noteq> 0 \<and> l = 0 then 1 else 0) + s_rises (c AND S_bit) cs"

definition last_s :: "u8 list \<Rightarrow> u8" where
  "last_s cs = (if cs = [] then 0 else last cs AND S_bit)"

lemma s_rises_append: "s_rises l (xs @ ys) = s_rises l xs + s_rises (if xs = [] then l else last_s xs) ys"
  by (induction xs arbitrary: l) (auto simp: last_s_def)

lemma s_rises_replicate: "s_rises (c AND S_bit) (replicate n c) = 0"
  by (induction n) auto

text \<open>The counter of the writer agrees with the codes in the buffer.\<close>

definition cnt_ok :: "tsg_runs \<Rightarrow> TSGcnt \<Rightarrow> bool" where
  "cnt_ok b c \<longleftrightarrow> balanced b \<and> cnt_last c = last_s (fst b) \<and> cnt_n_smp c = int (s_rises 0 (fst b))"

lemma cnt_ok_wr [ros_inv]:
  assumes "cnt_ok b c" "TSGWrBuf b code delay c = (b', c')"
  shows "cnt_ok b' c'"
proof -
  obtain n where n: "fst (wr_runs b code delay) = fst b @ code # replicate n code"
    using codes_wr [of b code delay] by auto
  have "last_s [] = 0" by (simp add: last_s_def)
  then show ?thesis
    using assms n by (auto simp: cnt_ok_def TSGWrBuf_def s_rises_append s_rises_replicate last_s_def)
qed

section \<open>The loop: invariant and termination\<close>

text \<open>The position in the pulse cycle, and whether the state takes a sample.\<close>

fun phase :: "TSGstates \<Rightarrow> nat" where
  "phase Null = 0" | "phase S_state = 0"
| "phase A1 = 1" | "phase AS1 = 1"
| "phase AR1 = 2" | "phase ARS1 = 2"
| "phase ARX = 3" | "phase ARXS = 3"
| "phase AR2 = 4" | "phase ARS2 = 4"
| "phase A2 = 5" | "phase AS2 = 5"
| "phase END_state = 6"

definition samples_in :: "TSGstates \<Rightarrow> bool" where
  "samples_in st \<longleftrightarrow> rfvect st AND S_bit \<noteq> 0"

lemma samples_in_simps [simp]:
  "\<not> samples_in Null" "samples_in S_state" "\<not> samples_in A1" "samples_in AS1" "\<not> samples_in AR1"
  "samples_in ARS1" "\<not> samples_in ARX" "samples_in ARXS" "\<not> samples_in AR2" "samples_in ARS2"
  "\<not> samples_in A2" "samples_in AS2" "\<not> samples_in END_state"
  by (simp_all add: samples_in_def)

lemma next_state_table:
  assumes "st \<noteq> END_state"
  shows "phase (fst (next_state st)) = phase st"
    "phase (fst (snd (next_state st))) = Suc (phase st) mod 6"
    "phase (snd (snd (next_state st))) = Suc (phase st) mod 6"
    "samples_in (fst (next_state st)) = (\<not> samples_in st)"
    "samples_in (fst (snd (next_state st))) = (\<not> samples_in st)"
    "samples_in (snd (snd (next_state st))) = samples_in st"
    "fst (next_state st) \<noteq> END_state" "fst (snd (next_state st)) \<noteq> END_state"
    "snd (snd (next_state st)) \<noteq> END_state"
  using assms by (cases st; simp)+

lemma phase_bounds: "st \<noteq> END_state \<Longrightarrow> phase st < 6"
  by (cases st) auto

lemma transmit_phase: "rfvect st AND X_bit \<noteq> 0 \<longleftrightarrow> phase st = 3"
  by (cases st) auto

lemma duration_phase: "st \<noteq> END_state \<Longrightarrow> duration e st =
    [0, te_t2, te_t3, te_txp e, te_t4 e, te_t5] ! phase st"
  by (cases st) auto

text \<open>What the loop relies on in the values computed before it.\<close>

definition env_ok :: "tsg_env \<Rightarrow> bool" where
  "env_ok e \<longleftrightarrow> 1 \<le> te_smsp e \<and> 1 \<le> te_txp e \<and> 1 \<le> te_t4 e \<and>
     0 \<le> tp_mppul (te_prm e) \<and> tp_mppul (te_prm e) \<le> int (length (tp_pat (te_prm e))) \<and>
     (tp_nbaud (te_prm e) > 1 \<longrightarrow> 0 < tp_mppul (te_prm e) \<and> 1 \<le> te_phase_delay e \<and>
        te_txp e = tp_nbaud (te_prm e) * te_phase_delay e \<and> te_txp e < 32761 \<and>
        tp_nbaud (te_prm e) * tp_mppul (te_prm e) \<le> int (length (tp_code (te_prm e))))"

definition pulse_ok :: "tsg_env \<Rightarrow> tsg_st \<Rightarrow> bool" where
  "pulse_ok e s \<longleftrightarrow> (phase (ts_state s) \<noteq> 0 \<longrightarrow> 1 \<le> ts_p_time s \<and> ts_p_time s \<le> duration e (ts_state s))"

text \<open>Within a phase coded pulse, the baud index and the phase time tell how far the pulse has come.\<close>

definition baud_at :: "tsg_env \<Rightarrow> int \<Rightarrow> int \<Rightarrow> int \<Rightarrow> bool" where
  "baud_at e j f p \<longleftrightarrow> 0 \<le> j \<and> 1 \<le> f \<and> f \<le> te_phase_delay e \<and>
     te_txp e - p = j * te_phase_delay e + (te_phase_delay e - f)"

definition baud_ok :: "tsg_env \<Rightarrow> tsg_st \<Rightarrow> bool" where
  "baud_ok e s \<longleftrightarrow> (tp_nbaud (te_prm e) > 1 \<and> phase (ts_state s) = 3 \<longrightarrow>
     te_txp e < ts_f_time s \<and> ts_j s = 0 \<and> ts_p_time s = te_txp e \<or>
     ts_f_time s \<le> te_txp e \<and> baud_at e (ts_j s) (ts_f_time s) (ts_p_time s))"

definition index_ok :: "tsg_env \<Rightarrow> int \<Rightarrow> bool" where
  "index_ok e i \<longleftrightarrow> (if tp_mppul (te_prm e) = 0 then i = 0 else 1 \<le> i \<and> i \<le> tp_mppul (te_prm e))"

definition loop_inv :: "tsg_env \<Rightarrow> tsg_st \<Rightarrow> bool" where
  "loop_inv e s \<longleftrightarrow> ts_state s \<noteq> END_state \<and> ts_scope s = 0 \<and> 1 \<le> ts_s_time s \<and>
     pulse_ok e s \<and> baud_ok e s \<and> index_ok e (ts_i s) \<and> cnt_ok (ts_buf s) (ts_cnt s)"

lemma baud_index_bound:
  assumes "baud_at e j f p" "1 \<le> p" "te_txp e = n * te_phase_delay e"
  shows "j < n"
proof -
  have "j * te_phase_delay e < n * te_phase_delay e" "0 < te_phase_delay e"
    using assms unfolding baud_at_def by linarith+
  then show ?thesis by (simp add: mult_less_cancel_right)
qed

text \<open>What the iteration's code tells about the phase.\<close>

definition code_spec :: "tsg_env \<Rightarrow> tsg_st \<Rightarrow> u8 \<Rightarrow> int \<Rightarrow> bool" where
  "code_spec e s code f \<longleftrightarrow> 1 \<le> f \<and> (code = rfvect (ts_state s) \<or> code = rfvect (ts_state s) OR P_bit) \<and>
     (if tp_nbaud (te_prm e) > 1 \<and> phase (ts_state s) = 3 then baud_at e (ts_j s) f (ts_p_time s) else f = 32767)"

text \<open>The code of an iteration is the state's code, perhaps with the phase bit.\<close>

lemma tsg_code_ok:
  assumes e: "env_ok e" and s: "loop_inv e s"
  obtains code f where "tsg_code e s = Some (code, f, 0)" "code_spec e s code f" "1 \<le> f"
proof (cases "tp_nbaud (te_prm e) > 1 \<and> phase (ts_state s) = 3")
  case False
  then show thesis using that [of "rfvect (ts_state s)" 32767] s
    by (auto simp: tsg_code_def code_spec_def loop_inv_def transmit_phase Let_def)
next
  case True
  let ?n = "tp_nbaud (te_prm e)" and ?m = "tp_mppul (te_prm e)"
  let ?f = "if ts_f_time s > te_txp e then te_phase_delay e else ts_f_time s"
  have pd: "1 \<le> te_phase_delay e" "te_txp e = ?n * te_phase_delay e" "0 < ?m"
    "?n * ?m \<le> int (length (tp_code (te_prm e)))" using e True by (auto simp: env_ok_def)
  have b: "baud_at e (ts_j s) ?f (ts_p_time s)"
    using s True pd(1) by (auto simp: loop_inv_def baud_ok_def baud_at_def)
  moreover have "1 \<le> ts_p_time s" using s True by (simp add: loop_inv_def pulse_ok_def)
  ultimately have j: "0 \<le> ts_j s" "ts_j s < ?n"
    using baud_index_bound pd(2) by (auto simp: baud_at_def)
  have i: "1 \<le> ts_i s" "ts_i s \<le> ?m" using s pd(3) by (auto simp: loop_inv_def index_ok_def)
  have "?n * (ts_i s - 1) + ts_j s < ?n * ts_i s" using j by (simp add: right_diff_distrib)
  also have "\<dots> \<le> ?n * ?m" using i True by (simp add: mult_left_mono)
  finally have "?n * (ts_i s - 1) + ts_j s < int (length (tp_code (te_prm e)))" using pd(4) by simp
  moreover have "0 \<le> ?n * (ts_i s - 1) + ts_j s" using i j True by simp
  ultimately obtain c where c: "aref (tp_code (te_prm e)) (?n * (ts_i s - 1) + ts_j s) = Some c"
    by (simp add: aref_def)
  have "tsg_code e s = Some (if c < 0 then rfvect (ts_state s) OR P_bit else rfvect (ts_state s), ?f, 0)"
    using s True c by (simp add: tsg_code_def loop_inv_def transmit_phase Let_def)
  then show thesis using that b True by (auto simp: code_spec_def baud_at_def split: if_splits)
qed

text \<open>The four kinds of iteration.\<close>

lemma tsg_events:
  fixes f s p :: int
  obtains (phase_change) "f < s" "f < p" "min f (min s p) = f" "tsg_next st j f s p = (st, j + 1, f)"
  | (sample) "s < p" "s \<le> f" "min f (min s p) = s"
      "tsg_next st j f s p = (fst (next_state st), if f = s then j + 1 else j, f)"
  | (both) "s = p" "p \<le> f" "min f (min s p) = p" "tsg_next st j f s p = (fst (snd (next_state st)), 0, f)"
  | (pulse) "p < s" "p \<le> f" "min f (min s p) = p" "tsg_next st j f s p = (snd (snd (next_state st)), 0, 32767)"
  by (cases "f < s \<and> f < p"; cases "s < p"; cases "s = p") (auto simp: tsg_next_def min_def)

lemma tsg_next_pulse_ok:
  assumes "env_ok e" "index_ok e (ts_i m)"
  obtains p i j where "tsg_next_pulse e m = Some (m\<lparr>ts_p_time := p, ts_i := i, ts_j := j\<rparr>)" "index_ok e i"
    "if ts_p_time m \<noteq> 0 then p = ts_p_time m \<and> i = ts_i m \<and> j = ts_j m
     else i = ts_i m + 1 \<or> i = ts_i m \<and> p = 32767"
proof (cases "ts_p_time m = 0 \<and> ts_i m < tp_mppul (te_prm e)")
  case True
  have i: "1 \<le> ts_i m" "tp_mppul (te_prm e) \<noteq> 0" using True assms(2) by (auto simp: index_ok_def split: if_splits)
  then obtain a b where "aref (tp_pat (te_prm e)) (ts_i m) = Some a" "aref (tp_pat (te_prm e)) (ts_i m - 1) = Some b"
    using True assms(1) by (auto simp: aref_def env_ok_def)
  then show thesis
    using that [of 0 "ts_i m + 1" "(a - b) * te_mpnc e - (te_t2 + te_t3 + te_t4 e + te_t5 + te_txp e)"] True i
    by (simp add: tsg_next_pulse_def index_ok_def)
next
  case False
  then show thesis
    using that [of "ts_j m" "ts_i m" "if ts_p_time m = 0 then 32767 else ts_p_time m"] assms(2)
    by (cases "ts_p_time m = 0") (simp_all add: tsg_next_pulse_def)
qed

text \<open>
  One iteration, described by its delay: the sample bit toggles when the delay uses up the sample
  time, and the pulse cycle advances when it uses up the pulse time.
\<close>

definition step_spec :: "tsg_env \<Rightarrow> tsg_st \<Rightarrow> u8 \<Rightarrow> int \<Rightarrow> int \<Rightarrow> tsg_st \<Rightarrow> bool" where
  "step_spec e s code f d s' \<longleftrightarrow>
     d = min f (min (ts_s_time s) (ts_p_time s)) \<and>
     TSGWrBuf (ts_buf s) code d (ts_cnt s) = (ts_buf s', ts_cnt s') \<and>
     ts_scope s' = 0 \<and> ts_state s' \<noteq> END_state \<and> index_ok e (ts_i s') \<and>
     ts_s_time s' = (if d = ts_s_time s then te_smsp e else ts_s_time s - d) \<and>
     samples_in (ts_state s') = (if d = ts_s_time s then \<not> samples_in (ts_state s) else samples_in (ts_state s)) \<and>
     (if d = ts_p_time s
      then phase (ts_state s') = Suc (phase (ts_state s)) mod 6 \<and>
        (if phase (ts_state s') \<noteq> 0 \<and> duration e (ts_state s') \<noteq> 0
         then ts_p_time s' = duration e (ts_state s') \<and> ts_i s' = ts_i s \<and> ts_j s' = 0 \<and>
              (f = 32767 \<and> d < 32767 \<longrightarrow> ts_f_time s' = 32767 - d)
         else ts_i s' = ts_i s + 1 \<or> ts_i s' = ts_i s \<and> ts_p_time s' = 32767)
      else phase (ts_state s') = phase (ts_state s) \<and> ts_i s' = ts_i s \<and> ts_p_time s' = ts_p_time s - d \<and>
        ts_j s' = (if f = d then ts_j s + 1 else ts_j s) \<and>
        ts_f_time s' = (if f = d then te_phase_delay e else f - d))"

lemma tsg_step_spec:
  assumes e: "env_ok e" and s: "loop_inv e s" and c: "tsg_code e s = Some (code, f, 0)" and f: "1 \<le> f"
  obtains s' where "tsg_step e s = Some s'" "step_spec e s code f (min f (min (ts_s_time s) (ts_p_time s))) s'"
proof -
  let ?d = "min f (min (ts_s_time s) (ts_p_time s))"
  obtain b n where w: "TSGWrBuf (ts_buf s) code ?d (ts_cnt s) = (b, n)" by fastforce
  obtain st' j' f1 where nx: "tsg_next (ts_state s) (ts_j s) f (ts_s_time s) (ts_p_time s) = (st', j', f1)"
    by (metis prod_cases3)
  let ?m = "s\<lparr>ts_state := st', ts_j := j', ts_scope := 0, ts_buf := b, ts_cnt := n,
       ts_f_time := (if f1 - ?d \<le> 0 then te_phase_delay e else f1 - ?d),
       ts_s_time := (if ts_s_time s - ?d \<le> 0 then te_smsp e else ts_s_time s - ?d),
       ts_p_time := (if ts_p_time s - ?d \<le> 0 then duration e st' else ts_p_time s - ?d)\<rparr>"
  have "index_ok e (ts_i ?m)" using s by (simp add: loop_inv_def)
  from tsg_next_pulse_ok [OF e this] obtain p i j where
    np: "tsg_next_pulse e ?m = Some (?m\<lparr>ts_p_time := p, ts_i := i, ts_j := j\<rparr>)" "index_ok e i"
    "if ts_p_time ?m \<noteq> 0 then p = ts_p_time ?m \<and> i = ts_i ?m \<and> j = ts_j ?m
     else i = ts_i ?m + 1 \<or> i = ts_i ?m \<and> p = 32767" by blast
  have step: "tsg_step e s = Some (?m\<lparr>ts_p_time := p, ts_i := i, ts_j := j\<rparr>)"
    using c w nx np(1) by (simp add: tsg_step_def Let_def)
  have st: "ts_state s \<noteq> END_state" "1 \<le> ts_s_time s" using s by (auto simp: loop_inv_def)
  note tab = next_state_table [OF st(1)]
  have "step_spec e s code f ?d (?m\<lparr>ts_p_time := p, ts_i := i, ts_j := j\<rparr>)"
  proof (cases rule: tsg_events [of f "ts_s_time s" "ts_p_time s" "ts_state s" "ts_j s"])
    case phase_change
    then show ?thesis using w nx np(2,3) st f by (simp add: step_spec_def)
  next
    case sample
    then show ?thesis using w nx np(2,3) st f tab by (auto simp: step_spec_def)
  next
    case both
    have z: "phase st' = 0 \<Longrightarrow> duration e st' = 0" using both(4) nx tab by (cases st') auto
    show ?thesis using both w nx np(2,3) st f tab z by (auto simp: step_spec_def)
  next
    case pulse
    have z: "phase st' = 0 \<Longrightarrow> duration e st' = 0" using pulse(4) nx tab by (cases st') auto
    show ?thesis using pulse w nx np(2,3) st f tab z by (auto simp: step_spec_def)
  qed
  with step that show thesis by blast
qed

lemma duration_pos:
  assumes "env_ok e" "st \<noteq> END_state" "phase st \<noteq> 0"
  shows "1 \<le> duration e st"
  using assms by (cases st) (auto simp: env_ok_def)

lemma duration_cong:
  "st \<noteq> END_state \<Longrightarrow> st' \<noteq> END_state \<Longrightarrow> phase st = phase st' \<Longrightarrow> duration e st = duration e st'"
  by (simp add: duration_phase)

text \<open>The parts of \<open>step_spec\<close>, one by one.\<close>

lemma step_delay:
  assumes "step_spec e s code f d s'"
  shows "d \<le> ts_p_time s" "d \<le> ts_s_time s" "d \<le> f" "d = f \<or> d = ts_s_time s \<or> d = ts_p_time s"
    "ts_state s' \<noteq> END_state" "index_ok e (ts_i s')" "ts_scope s' = 0"
  using assms by (auto simp: step_spec_def)

lemma step_buf: "step_spec e s code f d s' \<Longrightarrow> TSGWrBuf (ts_buf s) code d (ts_cnt s) = (ts_buf s', ts_cnt s')"
  unfolding step_spec_def by blast

lemma step_sample:
  assumes "step_spec e s code f d s'"
  shows "ts_s_time s' = (if d = ts_s_time s then te_smsp e else ts_s_time s - d)"
    "samples_in (ts_state s') = (if d = ts_s_time s then \<not> samples_in (ts_state s) else samples_in (ts_state s))"
  using assms by (simp_all add: step_spec_def)

lemma step_stay:
  assumes "step_spec e s code f d s'" "d \<noteq> ts_p_time s"
  shows "phase (ts_state s') = phase (ts_state s)" "ts_i s' = ts_i s" "ts_p_time s' = ts_p_time s - d"
    "ts_j s' = (if f = d then ts_j s + 1 else ts_j s)" "ts_f_time s' = (if f = d then te_phase_delay e else f - d)"
  using assms by (simp_all add: step_spec_def)

lemma step_move:
  assumes "step_spec e s code f d s'" "d = ts_p_time s"
  shows "phase (ts_state s') = Suc (phase (ts_state s)) mod 6"
    "ts_i s' = ts_i s \<or> ts_i s' = ts_i s + 1"
    "phase (ts_state s') = 0 \<Longrightarrow> ts_i s' = ts_i s \<Longrightarrow> ts_p_time s' = 32767"
  using assms by (auto simp: step_spec_def split: if_splits)

lemma step_enter:
  assumes "step_spec e s code f d s'" "d = ts_p_time s" "env_ok e" "phase (ts_state s') \<noteq> 0"
  shows "ts_p_time s' = duration e (ts_state s')" "1 \<le> duration e (ts_state s')" "ts_i s' = ts_i s" "ts_j s' = 0"
    "f = 32767 \<Longrightarrow> d < 32767 \<Longrightarrow> ts_f_time s' = 32767 - d"
  using assms duration_pos [OF assms(3), of "ts_state s'"] by (auto simp: step_spec_def)

lemma step_delay_pos:
  assumes "loop_inv e s" "1 \<le> f" "step_spec e s code f d s'" "1 \<le> ts_p_time s"
  shows "1 \<le> d"
  using assms step_delay(4) [OF assms(3)] by (auto simp: loop_inv_def)

lemma step_pulse_ok:
  assumes e: "env_ok e" and s: "loop_inv e s" and f: "1 \<le> f" and t: "step_spec e s code f d s'"
  shows "pulse_ok e s'"
proof (cases "d = ts_p_time s")
  case True
  then show ?thesis using step_enter [OF t True e] by (auto simp: pulse_ok_def)
next
  case False
  note st = step_stay [OF t False]
  have "duration e (ts_state s') = duration e (ts_state s)"
    using s st(1) step_delay(5) [OF t] by (intro duration_cong) (auto simp: loop_inv_def)
  moreover have "pulse_ok e s" using s by (simp add: loop_inv_def)
  ultimately show ?thesis
    using False st(1,3) step_delay(1) [OF t] step_delay_pos [OF s f t] by (auto simp: pulse_ok_def)
qed

lemma baud_at_advance:
  assumes "baud_at e j f p" "0 \<le> d" "d \<le> f" "1 \<le> te_phase_delay e"
  shows "baud_at e (if f = d then j + 1 else j) (if f = d then te_phase_delay e else f - d) (p - d)"
  using assms by (auto simp: baud_at_def algebra_simps)

lemma step_baud_ok:
  assumes e: "env_ok e" and s: "loop_inv e s" and c: "code_spec e s code f" and t: "step_spec e s code f d s'"
  shows "baud_ok e s'"
proof (cases "tp_nbaud (te_prm e) > 1 \<and> phase (ts_state s') = 3")
  case n: True
  have pd: "1 \<le> te_phase_delay e" "te_txp e < 32761" "te_txp e = tp_nbaud (te_prm e) * te_phase_delay e"
    using e n by (auto simp: env_ok_def)
  have st: "ts_state s \<noteq> END_state" "ts_state s' \<noteq> END_state" "phase (ts_state s) < 6"
    using s t phase_bounds by (auto simp: loop_inv_def step_spec_def)
  have dur: "duration e (ts_state s') = te_txp e" "te_txp e \<noteq> 0"
    using n st e by (auto simp: duration_phase env_ok_def)
  show ?thesis
  proof (cases "d = ts_p_time s")
    case True
    have "phase (ts_state s) = 2"
      using step_move(1) [OF t True] n st(3) by (cases "phase (ts_state s) = 5") auto
    moreover from this have "d \<le> te_t3"
      using True s st by (auto simp: loop_inv_def pulse_ok_def duration_phase)
    ultimately show ?thesis
      using step_enter [OF t True e] n c dur pd(2) by (simp add: code_spec_def baud_ok_def)
  next
    case False
    note stay = step_stay [OF t False]
    have p3: "phase (ts_state s) = 3" using n stay(1) by simp
    then have b: "baud_at e (ts_j s) f (ts_p_time s)" "1 \<le> f" using c n by (auto simp: code_spec_def)
    have "1 \<le> d" using step_delay_pos [OF s b(2) t] s p3 by (simp add: loop_inv_def pulse_ok_def)
    then have "baud_at e (ts_j s') (ts_f_time s') (ts_p_time s')"
      unfolding stay(3-5) using baud_at_advance [OF b(1) _ step_delay(3) [OF t] pd(1)] by simp
    moreover have "te_phase_delay e \<le> te_txp e" unfolding pd(3) using n pd(1) by simp
    ultimately show ?thesis by (auto simp: baud_ok_def baud_at_def)
  qed
qed (auto simp: baud_ok_def)

lemma tsg_step_ok:
  assumes e: "env_ok e" and s: "loop_inv e s"
  obtains code f d s' where "tsg_step e s = Some s'" "code_spec e s code f" "step_spec e s code f d s'"
    "loop_inv e s'"
proof -
  obtain code f where c: "tsg_code e s = Some (code, f, 0)" "code_spec e s code f" "1 \<le> f"
    using tsg_code_ok [OF e s] .
  obtain s' where t: "tsg_step e s = Some s'"
      "step_spec e s code f (min f (min (ts_s_time s) (ts_p_time s))) s'"
    using tsg_step_spec [OF e s c(1) c(3)] by blast
  have "1 \<le> ts_s_time s'"
    using step_sample(1) [OF t(2)] step_delay(2) [OF t(2)] e by (auto simp: env_ok_def)
  moreover have "cnt_ok (ts_buf s') (ts_cnt s')"
    using s cnt_ok_wr [OF _ step_buf [OF t(2)]] by (simp add: loop_inv_def)
  ultimately have "loop_inv e s'"
    using step_delay(5-7) [OF t(2)] step_pulse_ok [OF e s c(3) t(2)] step_baud_ok [OF e s c(2) t(2)]
    by (simp add: loop_inv_def)
  then show thesis using that t c(2) by blast
qed

text \<open>
  Termination: a sample is taken, or a pulse is started, or the time to the next pulse becomes
  positive, or the next rising edge of the sample bit comes closer.
\<close>

definition edge_rank :: "tsg_st \<Rightarrow> nat" where
  "edge_rank s = (if samples_in (ts_state s) then (if cnt_last (ts_cnt s) = 0 then 0 else 2) else 1)"

definition loop_measure :: "tsg_env \<Rightarrow> (tsg_st \<times> tsg_st) set" where
  "loop_measure e = measures
    [\<lambda>s. nat (te_N e - cnt_n_smp (ts_cnt s)), \<lambda>s. nat (tp_mppul (te_prm e) - ts_i s),
     \<lambda>s. if ts_p_time s \<le> 0 then 1 else 0, edge_rank, \<lambda>s. nat (ts_s_time s)]"

lemma code_sample_bit:
  "code = rfvect st \<or> code = rfvect st OR P_bit \<Longrightarrow> code AND S_bit = (if samples_in st then 1 else 0)"
  by (cases st) auto

lemma step_decreases:
  assumes e: "env_ok e" and s: "loop_inv e s" and more: "cnt_n_smp (ts_cnt s) < te_N e"
    and c: "code_spec e s code f" and t: "step_spec e s code f d s'"
  shows "(s', s) \<in> loop_measure e"
proof -
  have S: "code AND S_bit = (if samples_in (ts_state s) then 1 else 0)"
    using c code_sample_bit by (simp add: code_spec_def)
  have w: "cnt_last (ts_cnt s') = code AND S_bit" "cnt_n_smp (ts_cnt s') =
      (if code AND S_bit \<noteq> 0 \<and> cnt_last (ts_cnt s) = 0 then cnt_n_smp (ts_cnt s) + 1 else cnt_n_smp (ts_cnt s))"
    using arg_cong [OF step_buf [OF t], of "\<lambda>x. cnt_last (snd x)"]
      arg_cong [OF step_buf [OF t], of "\<lambda>x. cnt_n_smp (snd x)"] by (simp_all add: TSGWrBuf_def)
  have f: "1 \<le> f" "1 \<le> ts_s_time s" using c s by (auto simp: code_spec_def loop_inv_def)
  show ?thesis
  proof (cases "samples_in (ts_state s) \<and> cnt_last (ts_cnt s) = 0")
    case True
    then show ?thesis using w(2) S more by (simp add: loop_measure_def)
  next
    case False
    then have n: "cnt_n_smp (ts_cnt s') = cnt_n_smp (ts_cnt s)" using w(2) S by (auto split: if_splits)
    consider "ts_i s' = ts_i s + 1" | "ts_i s' = ts_i s" using step_move(2) [OF t] step_stay(2) [OF t] by blast
    then show ?thesis
    proof cases
      case 1
      then have "ts_i s < tp_mppul (te_prm e)"
        using step_delay(6) [OF t] s by (auto simp: index_ok_def loop_inv_def split: if_splits)
      then show ?thesis using n 1 by (simp add: loop_measure_def)
    next
      case 2
      have p': "0 < ts_p_time s'"
      proof (cases "d = ts_p_time s")
        case True
        then show ?thesis using step_enter(1,2) [OF t True e] step_move(3) [OF t True _ 2]
          by (cases "phase (ts_state s') = 0") auto
      next
        case False
        then show ?thesis using step_stay(3) [OF t False] step_delay(1) [OF t] by simp
      qed
      show ?thesis
      proof (cases "0 < ts_p_time s")
        case True
        have "1 \<le> d" using step_delay_pos [OF s f(1) t] True by simp
        then have "edge_rank s' < edge_rank s \<or> edge_rank s' = edge_rank s \<and> ts_s_time s' < ts_s_time s"
          unfolding edge_rank_def step_sample [OF t] w(1) S using False by auto
        then show ?thesis using n 2 p' True f(2) by (auto simp: loop_measure_def)
      qed (use n 2 p' in \<open>simp add: loop_measure_def\<close>)
    qed
  qed
qed

lemma loop_measure_wf: "wf (loop_measure e)"
  by (simp add: loop_measure_def)

text \<open>The rule for the whole loop: it returns, and whatever each iteration keeps holds at the end.\<close>

lemma tsg_loop_rule:
  assumes e: "env_ok e" and "loop_inv e s" "P s"
    and keep: "\<And>s code f d s'. loop_inv e s \<Longrightarrow> P s \<Longrightarrow> cnt_n_smp (ts_cnt s) < te_N e \<Longrightarrow> code_spec e s code f \<Longrightarrow>
      step_spec e s code f d s' \<Longrightarrow> loop_inv e s' \<Longrightarrow> P s'"
  shows "\<exists>s'. tsg_loop e s = Some s' \<and> loop_inv e s' \<and> P s' \<and> te_N e \<le> cnt_n_smp (ts_cnt s')"
  using loop_measure_wf [of e] assms(2,3)
proof (induction s rule: wf_induct_rule)
  case (less s)
  show ?case
  proof (cases "cnt_n_smp (ts_cnt s) < te_N e")
    case True
    obtain code f d s' where s': "tsg_step e s = Some s'" "code_spec e s code f" "step_spec e s code f d s'" "loop_inv e s'"
      using tsg_step_ok [OF e less(2)] .
    then have "(s', s) \<in> loop_measure e" "P s'"
      using step_decreases [OF e less(2) True] keep [OF less(2,3) True] by blast+
    then show ?thesis using s' less(1) True by (subst tsg_loop.simps) simp
  next
    case False
    then show ?thesis using less(2,3) by (subst tsg_loop.simps) simp
  qed
qed

lemma step_count:
  assumes "step_spec e s code f d s'"
  shows "cnt_n_smp (ts_cnt s') \<le> cnt_n_smp (ts_cnt s) + 1"
  using arg_cong [OF step_buf [OF assms], of "\<lambda>x. cnt_n_smp (snd x)"] by (simp add: TSGWrBuf_def split: if_splits)

section \<open>The transmit guard\<close>

text \<open>
  In a waveform the guard holds when every tick with the transmit bit either continues a
  transmission or comes after six ticks (60 microseconds) with the attenuator and the receiver
  gate on.
\<close>

definition gated :: "u8 \<Rightarrow> bool" where
  "gated c \<longleftrightarrow> c AND A_bit \<noteq> 0 \<and> c AND R_bit \<noteq> 0"

definition transmits :: "u8 \<Rightarrow> bool" where
  "transmits c \<longleftrightarrow> c AND X_bit \<noteq> 0"

definition guarded :: "u8 list \<Rightarrow> bool" where
  "guarded w \<longleftrightarrow> (\<forall>t < length w. transmits (w ! t) \<longrightarrow> gated (w ! t) \<and>
     (0 < t \<and> transmits (w ! (t - 1)) \<or> 6 \<le> t \<and> (\<forall>k \<in> {1..6}. gated (w ! (t - k)))))"

definition gate_open :: "nat \<Rightarrow> u8 list \<Rightarrow> bool" where
  "gate_open n w \<longleftrightarrow> n \<le> length w \<and> (\<forall>k \<in> {1..n}. gated (w ! (length w - k)))"

lemma guarded_snoc:
  assumes "guarded w" "transmits c \<Longrightarrow> gated c \<and> (w \<noteq> [] \<and> transmits (last w) \<or> gate_open 6 w)"
  shows "guarded (w @ [c])"
  unfolding guarded_def
proof (intro allI impI)
  fix t assume t: "t < length (w @ [c])" "transmits ((w @ [c]) ! t)"
  show "gated ((w @ [c]) ! t) \<and> (0 < t \<and> transmits ((w @ [c]) ! (t - 1)) \<or>
      6 \<le> t \<and> (\<forall>k \<in> {1..6}. gated ((w @ [c]) ! (t - k))))"
  proof (cases "t < length w")
    case True
    have "\<And>k. t - k < length w" using True by simp
    then show ?thesis using True t assms(1) by (simp add: guarded_def nth_append)
  next
    case False
    then have tl: "t = length w" using t(1) by simp
    then have c: "gated c" "w \<noteq> [] \<and> transmits (last w) \<or> gate_open 6 w" using t(2) assms(2) by auto
    from c(2) show ?thesis
    proof
      assume w: "w \<noteq> [] \<and> transmits (last w)"
      then have "transmits (w ! (length w - 1))" using last_conv_nth by metis
      with w show ?thesis using c(1) tl by (simp add: nth_append)
    next
      assume "gate_open 6 w"
      then show ?thesis using c(1) tl by (auto simp: gate_open_def nth_append)
    qed
  qed
qed

lemma guarded_replicate:
  assumes "guarded w" "transmits c \<Longrightarrow> gated c \<and> (w \<noteq> [] \<and> transmits (last w) \<or> gate_open 6 w)"
  shows "guarded (w @ replicate n c)"
proof (induction n)
  case 0
  then show ?case using assms(1) by simp
next
  case (Suc n)
  have "guarded ((w @ replicate n c) @ [c])"
  proof (rule guarded_snoc [OF Suc])
    assume "transmits c"
    then show "gated c \<and> (w @ replicate n c \<noteq> [] \<and> transmits (last (w @ replicate n c)) \<or>
        gate_open 6 (w @ replicate n c))"
      using assms(2) by (cases n) auto
  qed
  then show ?case by (simp add: replicate_append_same)
qed

lemma gate_open_replicate:
  assumes "gate_open n w" "gated c"
  shows "gate_open (n + m) (w @ replicate m c)"
  unfolding gate_open_def
proof (intro conjI ballI)
  show "n + m \<le> length (w @ replicate m c)" using assms(1) by (simp add: gate_open_def)
next
  fix k assume k: "k \<in> {1..n + m}"
  show "gated ((w @ replicate m c) ! (length (w @ replicate m c) - k))"
  proof (cases "k \<le> m")
    case True
    with k have i: "length w \<le> length w + m - k" "length w + m - k - length w < m" by auto
    then show ?thesis using assms(2) by (simp add: nth_append)
  next
    case False
    with k assms(1) obtain j where "k = j + m" "j \<in> {1..n}" "length w - j < length w"
      by (intro that [of "k - m"]) (auto simp: gate_open_def)
    then show ?thesis using assms(1) by (simp add: gate_open_def nth_append)
  qed
qed

text \<open>The state of the guard within a pulse: six ticks of the gate before the transmission starts.\<close>

definition guard_inv :: "tsg_env \<Rightarrow> tsg_st \<Rightarrow> bool" where
  "guard_inv e s \<longleftrightarrow> guarded (expand (ts_buf s)) \<and>
     (phase (ts_state s) = 2 \<longrightarrow> gate_open (nat (te_t3 - ts_p_time s)) (expand (ts_buf s))) \<and>
     (phase (ts_state s) = 3 \<longrightarrow>
        expand (ts_buf s) \<noteq> [] \<and> transmits (last (expand (ts_buf s))) \<or> gate_open 6 (expand (ts_buf s)))"

lemma code_gates:
  assumes "code_spec e s code f" "ts_state s \<noteq> END_state"
  shows "transmits code \<longleftrightarrow> phase (ts_state s) = 3"
    "phase (ts_state s) \<in> {2, 3, 4} \<Longrightarrow> gated code"
  using assms by (cases "ts_state s"; auto simp: code_spec_def transmits_def gated_def)+

lemma guard_inv_step:
  assumes e: "env_ok e" and s: "loop_inv e s" and g: "guard_inv e s" and c: "code_spec e s code f"
    and t: "step_spec e s code f d s'"
  shows "guard_inv e s'"
proof -
  let ?w = "expand (ts_buf s)" and ?w' = "expand (ts_buf s')" and ?ph = "phase (ts_state s)"
  have st: "ts_state s \<noteq> END_state" "balanced (ts_buf s)" "pulse_ok e s" using s by (auto simp: loop_inv_def cnt_ok_def)
  note cg = code_gates [OF c st(1)]
  have wr: "ts_buf s' = wr_runs (ts_buf s) code d" using step_buf [OF t] by (auto simp: TSGWrBuf_def)
  obtain n where n: "?w' = ?w @ replicate n code" "0 \<le> d \<Longrightarrow> n = nat d"
    using expand_wr_any [OF st(2), of code d] expand_wr [OF st(2), of d code] wr by (cases "0 \<le> d") auto
  have "guarded ?w'"
    unfolding n(1) by (rule guarded_replicate) (use g cg in \<open>auto simp: guard_inv_def\<close>)
  moreover have "gate_open (nat (te_t3 - ts_p_time s')) ?w'" if p: "phase (ts_state s') = 2"
  proof (cases "d = ts_p_time s")
    case True
    then have "ts_p_time s' = te_t3"
      using step_enter(1) [OF t True e] p step_delay(5) [OF t] by (simp add: duration_phase)
    then show ?thesis by (simp add: gate_open_def)
  next
    case False
    note stay = step_stay [OF t False]
    have ph: "?ph = 2" using p stay(1) by simp
    then have pt: "1 \<le> ts_p_time s" "ts_p_time s \<le> te_t3" using st by (auto simp: pulse_ok_def duration_phase)
    then have d: "1 \<le> d" using step_delay_pos [OF s _ t] c by (simp add: code_spec_def)
    then have "nat (te_t3 - ts_p_time s') = nat (te_t3 - ts_p_time s) + n" using n(2) stay(3) pt by simp
    then show ?thesis unfolding n(1) using gate_open_replicate g ph cg(2) by (simp add: guard_inv_def)
  qed
  moreover have "?w' \<noteq> [] \<and> transmits (last ?w') \<or> gate_open 6 ?w'" if p: "phase (ts_state s') = 3"
  proof (cases "d = ts_p_time s")
    case True
    have ph: "?ph = 2" using step_move(1) [OF t True] p phase_bounds [OF st(1)] by (cases "?ph = 5") auto
    then have pt: "1 \<le> ts_p_time s" "ts_p_time s \<le> te_t3" using st by (auto simp: pulse_ok_def duration_phase)
    then have "nat (te_t3 - ts_p_time s) + n = 6" using n(2) True by simp
    then have "gate_open 6 ?w'"
      using gate_open_replicate [of "nat (te_t3 - ts_p_time s)" ?w code n] g ph cg(2) n(1)
      by (simp add: guard_inv_def)
    then show ?thesis by simp
  next
    case False
    have ph: "?ph = 3" using step_stay(1) [OF t False] p by simp
    then have "1 \<le> d" using step_delay_pos [OF s _ t] c st(3) by (simp add: code_spec_def pulse_ok_def)
    then show ?thesis unfolding n(1) using n(2) cg(1) ph by simp
  qed
  ultimately show ?thesis by (simp add: guard_inv_def)
qed

section \<open>From the parameters to the loop\<close>

text \<open>
  Parameters for which every division is defined and every state of a pulse lasts at least one
  tick: this is what a control program is expected to ask for.
\<close>

definition tsg_usable :: "TSGprm \<Rightarrow> bool" where
  "tsg_usable t \<longleftrightarrow> 0 \<le> tp_mppul t \<and> tp_mppul t \<le> int (length (tp_pat t)) \<and> list_all (\<lambda>p. 0 \<le> p) (tp_pat t) \<and>
     1 \<le> tp_nrang t \<and> (tp_rtoxmin t = 0 \<or> 10 \<le> tp_rtoxmin t) \<and> 10 \<le> tp_txpl t \<and>
     (if tp_mppul t = 0 then tp_nbaud t \<le> 1 \<and> 1 \<le> tp_smsep t
      else tp_nbaud t \<le> tp_txpl t \<and> (tp_nbaud t > 1 \<longrightarrow> tp_txpl t < 327610 \<and>
        tp_nbaud t * tp_mppul t \<le> int (length (tp_code t))))"

lemma round_smsep: "1 \<le> s \<Longrightarrow> 10 \<le> tsg_round_smsep s"
  by (auto simp: tsg_round_smsep_def Let_def sdiv_nonneg smod_nonneg)

lemma adjust_ok:
  assumes u: "tsg_usable t" and "0 \<le> tp_frang t"
  obtains t1 where "tsg_adjust t = Some t1" "10 \<le> tp_smsep t1" "tp_txpl t1 = tp_txpl t"
    "tp_nbaud t1 = max 1 (tp_nbaud t)" "tp_mppul t1 = tp_mppul t" "tp_pat t1 = tp_pat t" "tp_code t1 = tp_code t"
    "tp_nrang t1 = tp_nrang t" "tp_rsep t1 = tp_rsep t" "tp_rtoxmin t1 = tp_rtoxmin t" "0 \<le> tp_lagfr t1" "0 \<le> tp_mlag t1"
proof -
  let ?n = "max 1 (tp_nbaud t)"
  define s where "s = (if tp_mppul t = 0 then tp_smsep t else tp_txpl t)"
  have n: "(if tp_nbaud t < 1 then 1 else tp_nbaud t) = ?n" by simp
  have s: "0 < ?n" "?n \<le> s" using u by (auto simp: tsg_usable_def s_def split: if_splits)
  then have "1 * ?n \<le> s" by simp
  then have d: "cdiv s ?n = Some (s div ?n)" "1 \<le> s div ?n"
    using s by (simp, metis s(1) zdiv_mono1 nonzero_mult_div_cancel_right less_irrefl)
  have pos: "0 \<le> x" if "x \<in> set (tp_pat t)" for x using u that by (auto simp: tsg_usable_def list_all_iff)
  obtain mlag where m: "(if tp_mppul t = 0 then Some 0 else aref (tp_pat t) (tp_mppul t - 1)) = Some mlag" "0 \<le> mlag"
    using u pos by (cases "tp_mppul t = 0") (auto simp: aref_def tsg_usable_def nth_mem)
  define t1 where "t1 = t\<lparr>tp_nbaud := ?n, tp_lagfr := (tp_frang t * 20) sdiv 3, tp_smsep := tsg_round_smsep (s div ?n), tp_mlag := mlag\<rparr>"
  have "tsg_adjust t = Some t1"
    using d(1) m(1) u by (cases "tp_mppul t = 0")
      (simp_all add: tsg_adjust_def tsg_pulse_sep_def Let_def n t1_def s_def tsg_usable_def)
  moreover have "10 \<le> tsg_round_smsep (s div ?n)" using round_smsep [OF d(2)] .
  ultimately show thesis using that [of t1] m(2) assms(2) by (simp add: t1_def sdiv_nonneg)
qed

lemma check_pulses_ok:
  assumes "10 \<le> tp_smsep t" "0 \<le> tp_lagfr t" "0 \<le> tp_mlag t" "1 \<le> tp_nrang t" "1 \<le> tp_nbaud t" "0 \<le> tp_txpl t"
  shows "tsg_check_pulses t = Some
    (if tp_mppul t \<le> 0 then TSG_OK
     else if tp_mpinc t < tp_smsep t then TSG_INV_MPINC_SMSEP
     else if tp_lagfr t mod tp_smsep t \<noteq> 0 then TSG_INV_LAGFR_SMSEP
     else if tp_mpinc t mod tp_smsep t \<noteq> 0 then TSG_INV_MPINC_SMSEP
     else if 1 \<le> 20 * tp_mppul t * tp_txpl t div
            (tp_mlag t * tp_mpinc t + tp_nrang t * tp_nbaud t * tp_smsep t + tp_lagfr t) then TSG_INV_DUTY_CYCLE
     else TSG_OK)"
proof (cases "0 < tp_mppul t \<and> tp_smsep t \<le> tp_mpinc t")
  case False
  then show ?thesis by (cases "0 < tp_mppul t") (simp_all add: tsg_check_pulses_def)
next
  case True
  let ?den = "tp_mlag t * tp_mpinc t + tp_nrang t * tp_nbaud t * tp_smsep t + tp_lagfr t"
  have "0 < tp_nrang t * tp_nbaud t * tp_smsep t" using assms by simp
  moreover have "0 \<le> tp_mlag t * tp_mpinc t" using assms True by simp
  ultimately have den: "0 < ?den" using assms(2) by linarith
  have r: "crem (tp_lagfr t) (tp_smsep t) = Some (tp_lagfr t mod tp_smsep t)"
    "crem (tp_mpinc t) (tp_smsep t) = Some (tp_mpinc t mod tp_smsep t)"
    "cdiv (20 * tp_mppul t * tp_txpl t) ?den = Some (20 * tp_mppul t * tp_txpl t div ?den)"
    using assms True den by simp_all
  show ?thesis using True by (simp add: tsg_check_pulses_def r)
qed

text \<open>What the preparation hands to the loop.\<close>

definition tsg_ready :: "tsg_env \<Rightarrow> int \<Rightarrow> bool" where
  "tsg_ready e lgfr \<longleftrightarrow> env_ok e \<and> 0 \<le> te_N e \<and> 0 \<le> lgfr \<and> list_all (\<lambda>p. 0 \<le> p) (tp_pat (te_prm e)) \<and>
     (0 < tp_mppul (te_prm e) \<longrightarrow> 0 \<le> te_mpnc e)"

text \<open>The number of samples, and the environment of the loop when every check has passed.\<close>

definition tsg_N :: "TSGprm \<Rightarrow> int" where
  "tsg_N t = tp_mlag t * (tp_mpinc t sdiv 10) div (tp_smsep t div 10) + tp_nrang t * (tp_rsep t * 20) div (3 * tp_smsep t)"

definition tsg_env_of :: "TSGprm \<Rightarrow> tsg_env" where
  "tsg_env_of t = \<lparr>te_prm = t\<lparr>tp_samples := tsg_N t\<rparr>, te_N = tsg_N t, te_smsp = tp_smsep t div 10 div 2,
     te_mpnc = tp_mpinc t sdiv 10, te_txp = tp_txpl t div 10,
     te_t4 = (if tp_rtoxmin t = 0 then te_t3 else tp_rtoxmin t div 10),
     te_phase_delay = (if tp_mppul t \<noteq> 0 \<and> tp_nbaud t > 1 then tp_txpl t div 10 div tp_nbaud t else 0)\<rparr>"

definition prepare_pre :: "TSGprm \<Rightarrow> bool" where
  "prepare_pre t \<longleftrightarrow> 10 \<le> tp_smsep t \<and> 0 \<le> tp_lagfr t \<and> 0 \<le> tp_mlag t \<and> 1 \<le> tp_nrang t \<and> 0 < tp_rsep t \<and>
     0 \<le> tp_mppul t \<and> tp_mppul t \<le> int (length (tp_pat t)) \<and> list_all (\<lambda>p. 0 \<le> p) (tp_pat t) \<and>
     (0 < tp_mppul t \<longrightarrow> tp_smsep t \<le> tp_mpinc t) \<and> (tp_mppul t = 0 \<longrightarrow> tp_mlag t = 0 \<and> tp_nbaud t \<le> 1) \<and>
     10 \<le> tp_txpl t \<and> (tp_rtoxmin t = 0 \<or> 10 \<le> tp_rtoxmin t) \<and>
     (tp_nbaud t > 1 \<longrightarrow> tp_txpl t < 327610 \<and> tp_nbaud t * tp_mppul t \<le> int (length (tp_code t)))"

lemma prepare_mlag: "prepare_pre t \<Longrightarrow> 0 \<le> tp_mlag t * (tp_mpinc t sdiv 10)"
  by (cases "tp_mppul t = 0") (auto simp: prepare_pre_def sdiv_nonneg)

lemma prepare_ready:
  assumes p: "prepare_pre t" and even: "(tp_smsep t div 10) mod 2 = 0"
    and b: "tp_nbaud t > 1 \<Longrightarrow> (tp_txpl t div 10) mod tp_nbaud t = 0 \<and> (tp_txpl t div 10) div tp_nbaud t \<noteq> 0"
  shows "tsg_ready (tsg_env_of t) (tp_lagfr t div 10)"
proof -
  have sm: "10 \<le> tp_smsep t" using p by (simp add: prepare_pre_def)
  then have "1 \<le> tp_smsep t div 10" by simp
  then have sp: "1 \<le> tp_smsep t div 10 div 2" using even by presburger
  have "0 \<le> tsg_N t"
    using prepare_mlag [OF p] sm p by (simp add: tsg_N_def pos_imp_zdiv_nonneg_iff prepare_pre_def)
  moreover have "1 \<le> (tp_txpl t div 10) div tp_nbaud t \<and> 0 < tp_mppul t" if n: "tp_nbaud t > 1"
  proof -
    have "0 \<le> (tp_txpl t div 10) div tp_nbaud t" using p n by (simp add: prepare_pre_def pos_imp_zdiv_nonneg_iff)
    moreover have "0 < tp_mppul t" using p n by (cases "tp_mppul t = 0") (auto simp: prepare_pre_def)
    ultimately show ?thesis using b [OF n] by linarith
  qed
  moreover have "(tp_txpl t div 10) = tp_nbaud t * (tp_txpl t div 10 div tp_nbaud t)" if "tp_nbaud t > 1"
    using b [OF that] by auto
  moreover have "tp_txpl t div 10 < 32761" if "tp_nbaud t > 1" using p that by (auto simp: prepare_pre_def)
  moreover have "1 \<le> tp_txpl t div 10" "tp_rtoxmin t \<noteq> 0 \<Longrightarrow> 1 \<le> tp_rtoxmin t div 10" "tp_mppul t = 0 \<Longrightarrow> \<not> 1 < tp_nbaud t"
    using p by (auto simp: prepare_pre_def)
  ultimately have "env_ok (tsg_env_of t)" "0 \<le> tsg_N t"
    using sp p by (simp_all add: env_ok_def tsg_env_of_def prepare_pre_def)
  then show ?thesis using p by (auto simp: tsg_ready_def tsg_env_of_def prepare_pre_def sdiv_nonneg)
qed

lemma prepare_value:
  assumes p: "prepare_pre t" and even: "(tp_smsep t div 10) mod 2 = 0"
  shows "tsg_prepare t = Some (t\<lparr>tp_samples := tsg_N t\<rparr>,
    if tp_mppul t \<noteq> 0 \<and> tp_nbaud t > 1
    then (if (tp_txpl t div 10) mod tp_nbaud t \<noteq> 0 then TSG_INV_TXPL_BAUD
          else if (tp_txpl t div 10) div tp_nbaud t = 0 then TSG_INV_PHASE_DELAY else TSG_OK)
    else TSG_OK, tsg_env_of t, tp_lagfr t div 10)"
proof -
  have sm: "10 \<le> tp_smsep t" "0 \<le> tp_lagfr t" "10 \<le> tp_txpl t" "0 \<le> tp_nrang t * (tp_rsep t * 20)"
    using p by (auto simp: prepare_pre_def)
  have sd: "tp_smsep t sdiv 10 = tp_smsep t div 10" "tp_txpl t sdiv 10 = tp_txpl t div 10"
    "tp_lagfr t sdiv 10 = tp_lagfr t div 10" "(tp_smsep t div 10) smod 2 = 0"
    "(tp_smsep t div 10) sdiv 2 = tp_smsep t div 10 div 2"
    using sm even by (simp_all add: sdiv_nonneg smod_nonneg)
  have rt: "(if tp_rtoxmin t = 0 then te_t3 else tp_rtoxmin t sdiv 10) = (if tp_rtoxmin t = 0 then te_t3 else tp_rtoxmin t div 10)"
    using p by (auto simp: prepare_pre_def sdiv_nonneg)
  have div: "cdiv (tp_mlag t * (tp_mpinc t sdiv 10)) (tp_smsep t div 10) = Some (tp_mlag t * (tp_mpinc t sdiv 10) div (tp_smsep t div 10))"
    "cdiv (tp_nrang t * (tp_rsep t * 20)) (3 * tp_smsep t) = Some (tp_nrang t * (tp_rsep t * 20) div (3 * tp_smsep t))"
    using sm prepare_mlag [OF p] by simp_all
  show ?thesis
  proof (cases "tp_mppul t \<noteq> 0 \<and> tp_nbaud t > 1")
    case True
    then have "(tp_txpl t div 10) sdiv tp_nbaud t = (tp_txpl t div 10) div tp_nbaud t"
      "(tp_txpl t div 10) smod tp_nbaud t = (tp_txpl t div 10) mod tp_nbaud t"
      using sm by (simp_all add: sdiv_nonneg smod_nonneg)
    with True show ?thesis unfolding tsg_prepare_def Let_def sd div rt by (simp add: tsg_env_of_def tsg_N_def)
  next
    case False
    then show ?thesis unfolding tsg_prepare_def Let_def sd div rt by (auto simp: tsg_env_of_def tsg_N_def)
  qed
qed

lemma prepare_ok:
  assumes p: "prepare_pre t"
  obtains t' flg e lgfr where "tsg_prepare t = Some (t', flg, e, lgfr)"
    "flg \<in> {TSG_OK, TSG_INV_ODD_SMSEP, TSG_INV_TXPL_BAUD, TSG_INV_PHASE_DELAY}"
    "flg = TSG_OK \<Longrightarrow> tsg_ready e lgfr \<and> te_N e = tp_samples (te_prm e)"
proof (cases "(tp_smsep t div 10) mod 2 = 0")
  case False
  have "0 \<le> tp_smsep t" using p by (simp add: prepare_pre_def)
  then have "tp_smsep t sdiv 10 = tp_smsep t div 10" "(tp_smsep t div 10) smod 2 = (tp_smsep t div 10) mod 2"
    by (simp_all add: sdiv_nonneg smod_nonneg)
  with False obtain e lgfr where "tsg_prepare t = Some (t, TSG_INV_ODD_SMSEP, e, lgfr)"
    by (simp add: tsg_prepare_def Let_def)
  then show thesis by (rule that) simp_all
next
  case True
  have "tp_mppul t \<noteq> 0" if "tp_nbaud t > 1" using p that by (auto simp: prepare_pre_def)
  then have mb: "tp_mppul t \<noteq> 0 \<and> tp_nbaud t > 1 \<longleftrightarrow> tp_nbaud t > 1" by auto
  have N: "te_N (tsg_env_of t) = tp_samples (te_prm (tsg_env_of t))" by (simp add: tsg_env_of_def)
  show thesis
  proof (rule that [OF prepare_value [OF p True]], goal_cases)
    case 2
    then have "tp_nbaud t > 1 \<Longrightarrow> (tp_txpl t div 10) mod tp_nbaud t = 0 \<and> (tp_txpl t div 10) div tp_nbaud t \<noteq> 0"
      unfolding mb by (simp split: if_splits)
    then show ?case using prepare_ready [OF p True] N by simp
  qed simp
qed

lemma start_ok:
  assumes "tsg_ready e lgfr"
  obtains s0 where "tsg_start e lgfr = Some s0" "loop_inv e s0" "guard_inv e s0" "cnt_n_smp (ts_cnt s0) = 0"
proof -
  let ?t = "te_prm e"
  have e: "env_ok e" "0 \<le> lgfr" "0 \<le> tp_mppul ?t" "1 \<le> te_txp e" using assms by (auto simp: tsg_ready_def env_ok_def)
  obtain i p s where ips: "(if tp_mppul ?t = 0 then Some (0, 32767, 1)
        else do { p0 \<leftarrow> aref (tp_pat ?t) 0;
          Some (1, p0 * te_mpnc e + 1, p0 * te_mpnc e + 1 + lgfr + te_t2 + te_t3 + te_txp e sdiv 2) }) = Some (i, p, s)"
    "1 \<le> s" "index_ok e i"
  proof (cases "tp_mppul ?t = 0")
    case False
    then have "tp_pat ?t \<noteq> []" "0 < tp_mppul ?t" using e(1,3) by (auto simp: env_ok_def)
    then obtain p0 r where p0: "tp_pat ?t = p0 # r" by (cases "tp_pat ?t") auto
    then have "0 \<le> p0 * te_mpnc e" using assms \<open>0 < tp_mppul ?t\<close> by (simp add: tsg_ready_def)
    then show thesis using that False p0 e by (auto simp: aref_def index_ok_def sdiv_nonneg)
  qed (auto simp: index_ok_def that)
  let ?b1 = "wr_runs ([], []) 0x80 1" and ?c0 = "\<lparr>cnt_last = 0, cnt_n_smp = 0\<rparr> :: TSGcnt"
  let ?b2 = "wr_runs ?b1 0 (tp_stdelay ?t)"
  let ?s0 = "\<lparr>ts_state = Null, ts_i = i, ts_j = 0, ts_s_time = s, ts_p_time = p,
      ts_f_time = (if tp_mppul ?t = 0 then 0 else 32727), ts_scope = 0, ts_buf = ?b2, ts_cnt = ?c0\<rparr>"
  have st: "tsg_start e lgfr = Some ?s0"
    unfolding tsg_start_def Let_def ips(1) by (simp add: TSGWrBuf_def)
  have "cnt_ok ([], []) ?c0" by (simp add: cnt_ok_def balanced_def last_s_def)
  then have "cnt_ok ?b1 ?c0" using cnt_ok_wr [of "([], [])" ?c0 "0x80" 1 ?b1 ?c0] by (simp add: TSGWrBuf_def)
  then have b2: "cnt_ok ?b2 ?c0" "balanced ?b1"
    using cnt_ok_wr [of ?b1 ?c0 0 "tp_stdelay ?t" ?b2 ?c0] by (simp_all add: TSGWrBuf_def cnt_ok_def)
  obtain n where "expand ?b2 = expand ?b1 @ replicate n 0" using expand_wr_any [OF b2(2)] by blast
  moreover have "guarded (expand ?b1)"
    using expand_wr [of "([], [])" 1 "0x80"] by (simp add: balanced_def expand_def guarded_def transmits_def)
  ultimately have "guarded (expand ?b2)"
    using guarded_replicate [of "expand ?b1" 0 n] by (simp add: transmits_def)
  then show thesis
    using that [OF st] ips(2,3) b2(1) by (simp add: loop_inv_def guard_inv_def pulse_ok_def baud_ok_def)
qed

lemma loop_ok:
  assumes "tsg_ready e lgfr"
  obtains s0 s where "tsg_start e lgfr = Some s0" "tsg_loop e s0 = Some s" "loop_inv e s" "guard_inv e s"
    "cnt_n_smp (ts_cnt s) = te_N e"
proof -
  obtain s0 where s0: "tsg_start e lgfr = Some s0" "loop_inv e s0" "guard_inv e s0" "cnt_n_smp (ts_cnt s0) = 0"
    using start_ok [OF assms] .
  have e: "env_ok e" "0 \<le> te_N e" using assms by (auto simp: tsg_ready_def)
  have "\<exists>s. tsg_loop e s0 = Some s \<and> loop_inv e s \<and> (guard_inv e s \<and> cnt_n_smp (ts_cnt s) \<le> te_N e) \<and>
      te_N e \<le> cnt_n_smp (ts_cnt s)"
  proof (rule tsg_loop_rule [OF e(1) s0(2)])
    fix s code f d s'
    assume "loop_inv e s" "guard_inv e s \<and> cnt_n_smp (ts_cnt s) \<le> te_N e" "cnt_n_smp (ts_cnt s) < te_N e"
      "code_spec e s code f" "step_spec e s code f d s'"
    then show "guard_inv e s' \<and> cnt_n_smp (ts_cnt s') \<le> te_N e"
      using guard_inv_step [OF e(1)] step_count by fastforce
  qed (use s0 e in simp)
  then show thesis using that s0(1) by force
qed

text \<open>
  The two ways the function ends: a null pointer with a flag, or the buffer that the finished loop
  has left.
\<close>

definition tsg_flags :: "int set" where
  "tsg_flags = {TSG_OK, TSG_INV_RSEP, TSG_INV_PAT, TSG_INV_MPINC_SMSEP, TSG_INV_LAGFR_SMSEP, TSG_INV_DUTY_CYCLE,
     TSG_INV_ODD_SMSEP, TSG_INV_TXPL_BAUD, TSG_INV_MEMORY, TSG_INV_PHASE_DELAY}"

definition tsg_success :: "TSGprm \<Rightarrow> int \<Rightarrow> TSGprm \<Rightarrow> TSGbuf \<Rightarrow> bool" where
  "tsg_success t index t' buf \<longleftrightarrow> (\<exists>e s. loop_inv e s \<and> guard_inv e s \<and> cnt_n_smp (ts_cnt s) = te_N e \<and>
     te_N e = tp_samples (te_prm e) \<and> t' = fst (tsg_finish e (ts_buf s) (ts_cnt s)) \<and> tb_index buf = index \<and>
     (tb_code buf, tb_rep buf) = snd (tsg_finish e (ts_buf s) (ts_cnt s)) \<and> tb_len buf = int (length (tb_code buf)))"

lemma validate_value:
  "tp_mppul t \<le> int (length (tp_pat t)) \<Longrightarrow> tsg_validate t = Some
    (if tp_frang t < 0 \<or> tp_rsep t \<le> 0 then TSG_INV_RSEP
     else if tp_mppul t > 0 \<and> \<not> pat_increasing (take (nat (tp_mppul t)) (tp_pat t)) then TSG_INV_PAT else TSG_OK)"
  by (auto simp: tsg_validate_def)

lemma copy_ok:
  assumes u: "tsg_usable t"
  shows "\<exists>prm. tsg_copy t = Some prm"
proof -
  have "tp_nbaud t \<le> int (length (tp_code t))" if "tp_nbaud t > 1"
  proof -
    have m: "0 < tp_mppul t" "tp_nbaud t * tp_mppul t \<le> int (length (tp_code t))"
      using u that by (auto simp: tsg_usable_def split: if_splits)
    have "tp_nbaud t * 1 \<le> tp_nbaud t * tp_mppul t" using m(1) that by (intro mult_left_mono) auto
    with m(2) show ?thesis by simp
  qed
  then show ?thesis by (cases "tp_nbaud t > 1") (simp_all add: tsg_copy_def)
qed

lemma adjust_facts:
  assumes "tsg_usable t" "0 \<le> tp_frang t" "tsg_adjust t = Some t1"
  shows "10 \<le> tp_smsep t1" "tp_txpl t1 = tp_txpl t" "tp_nbaud t1 = max 1 (tp_nbaud t)" "tp_mppul t1 = tp_mppul t"
      "tp_pat t1 = tp_pat t" "tp_code t1 = tp_code t" "tp_nrang t1 = tp_nrang t" "tp_rsep t1 = tp_rsep t"
      "tp_rtoxmin t1 = tp_rtoxmin t" "0 \<le> tp_lagfr t1" "0 \<le> tp_mlag t1"
proof -
  obtain t' where t': "tsg_adjust t = Some t'" "10 \<le> tp_smsep t'" "tp_txpl t' = tp_txpl t"
    "tp_nbaud t' = max 1 (tp_nbaud t)" "tp_mppul t' = tp_mppul t" "tp_pat t' = tp_pat t" "tp_code t' = tp_code t"
    "tp_nrang t' = tp_nrang t" "tp_rsep t' = tp_rsep t" "tp_rtoxmin t' = tp_rtoxmin t" "0 \<le> tp_lagfr t'" "0 \<le> tp_mlag t'"
    by (rule adjust_ok [OF assms(1,2)])
  have "t' = t1" using t'(1) assms(3) by simp
  with t' show "10 \<le> tp_smsep t1" "tp_txpl t1 = tp_txpl t" "tp_nbaud t1 = max 1 (tp_nbaud t)" "tp_mppul t1 = tp_mppul t"
      "tp_pat t1 = tp_pat t" "tp_code t1 = tp_code t" "tp_nrang t1 = tp_nrang t" "tp_rsep t1 = tp_rsep t"
      "tp_rtoxmin t1 = tp_rtoxmin t" "0 \<le> tp_lagfr t1" "0 \<le> tp_mlag t1" by simp_all
qed

text \<open>The second half, after the checks on the pulses have passed.\<close>

lemma TSGMake_tail:
  assumes u: "tsg_usable t" and fr: "0 \<le> tp_frang t" "0 < tp_rsep t" and a: "tsg_adjust t = Some t1"
    and c: "tsg_check_pulses t1 = Some TSG_OK"
  obtains t2 flg e lgfr where "tsg_prepare t1 = Some (t2, flg, e, lgfr)" "flg \<in> tsg_flags"
    "flg = TSG_OK \<Longrightarrow> tsg_ready e lgfr \<and> te_N e = tp_samples (te_prm e)"
proof -
  note t1 = adjust_facts [OF u fr(1) a]
  have mp: "tp_smsep t1 \<le> tp_mpinc t1" if "0 < tp_mppul t1"
    using c that check_pulses_ok [of t1] t1 u by (auto simp: tsg_usable_def split: if_splits)
  have ml: "tp_mlag t1 = 0" if "tp_mppul t1 = 0"
    using a that t1(4) u by (auto simp: tsg_adjust_def tsg_pulse_sep_def Let_def bind_eq_Some_conv tsg_usable_def split: if_splits)
  have baud: "tp_txpl t1 < 327610 \<and> tp_nbaud t1 * tp_mppul t1 \<le> int (length (tp_code t1))" if "tp_nbaud t1 > 1"
    using u t1 that by (auto simp: tsg_usable_def split: if_splits)
  have us: "0 \<le> tp_mppul t" "tp_mppul t \<le> int (length (tp_pat t))" "list_all (\<lambda>p. 0 \<le> p) (tp_pat t)" "1 \<le> tp_nrang t"
    "tp_rtoxmin t = 0 \<or> 10 \<le> tp_rtoxmin t" "10 \<le> tp_txpl t" "tp_mppul t = 0 \<Longrightarrow> tp_nbaud t \<le> 1"
    using u by (simp_all add: tsg_usable_def)
  have "prepare_pre t1" using t1 us fr ml mp baud by (simp add: prepare_pre_def)
  then obtain t2 flg e lgfr where "tsg_prepare t1 = Some (t2, flg, e, lgfr)"
    "flg \<in> {TSG_OK, TSG_INV_ODD_SMSEP, TSG_INV_TXPL_BAUD, TSG_INV_PHASE_DELAY}"
    "flg = TSG_OK \<Longrightarrow> tsg_ready e lgfr \<and> te_N e = tp_samples (te_prm e)"
    using prepare_ok by metis
  then show thesis using that [of t2 flg e lgfr] by (auto simp: tsg_flags_def)
qed

lemma TSGMake_outcome:
  assumes u: "tsg_usable t"
  shows "(\<exists>t' flg. TSGMake mem t index = Some (t', flg, None) \<and> flg \<in> tsg_flags \<and> (flg = TSG_OK \<longrightarrow> (\<exists>k. \<not> mem k))) \<or>
    (\<exists>t' buf. TSGMake mem t index = Some (t', TSG_OK, Some buf) \<and> tsg_success t index t' buf)"
proof -
  let ?mem = "\<not> mem 0 \<or> \<not> mem 1 \<or> tp_mppul t > 0 \<and> \<not> mem 2 \<or> tp_nbaud t > 1 \<and> \<not> mem 3"
  obtain flg0 where v: "tsg_validate t = Some flg0" "flg0 \<in> tsg_flags" "flg0 = TSG_OK \<Longrightarrow> 0 \<le> tp_frang t \<and> 0 < tp_rsep t"
    using u validate_value [of t] by (auto simp: tsg_usable_def tsg_flags_def split: if_splits)
  show ?thesis
  proof (cases "flg0 \<noteq> TSG_OK \<or> ?mem")
    case True
    then show ?thesis using v(1,2) by (auto simp: TSGMake_def tsg_flags_def)
  next
    case False
    then have ok: "flg0 = TSG_OK" "\<not> ?mem" and fr: "0 \<le> tp_frang t" "0 < tp_rsep t" using v(3) by auto
    obtain t1 where a: "tsg_adjust t = Some t1" using adjust_ok [OF u fr(1)] .
    obtain prm where cp: "tsg_copy t = Some prm" using copy_ok [OF u] by blast
    obtain flg1 where c: "tsg_check_pulses t1 = Some flg1" "flg1 \<in> tsg_flags"
      using check_pulses_ok [of t1] adjust_facts [OF u fr(1) a] u
      by (auto simp: tsg_usable_def tsg_flags_def split: if_splits)
    have head: "TSGMake mem t index =
      (if flg1 \<noteq> TSG_OK then Some (t1, flg1, None)
       else do {
         (t', flg2, e, lgfr) \<leftarrow> tsg_prepare t1;
         if flg2 \<noteq> TSG_OK then Some (t', flg2, None)
         else if \<not> mem 4 \<or> \<not> mem 5 then Some (t', TSG_INV_MEMORY, None)
         else do {
           s0 \<leftarrow> tsg_start e lgfr;
           s \<leftarrow> tsg_loop e s0;
           let (t'', b) = tsg_finish e (ts_buf s) (ts_cnt s);
           Some (t'', TSG_OK, Some \<lparr>tb_index = index, tb_len = int (length (fst b)), tb_step = CLOCK_PERIOD,
                  tb_code = fst b, tb_rep = snd b, tb_prm = Some prm\<rparr>)
         }})"
      unfolding TSGMake_def v(1) bind.bind_lunit if_not_P [OF ok(2)] using ok(1) a cp c(1) by simp
    show ?thesis
    proof (cases "flg1 = TSG_OK")
      case False
      then show ?thesis using head c(2) by simp
    next
      case True
      obtain t2 flg e lgfr where p: "tsg_prepare t1 = Some (t2, flg, e, lgfr)" "flg \<in> tsg_flags"
        "flg = TSG_OK \<Longrightarrow> tsg_ready e lgfr \<and> te_N e = tp_samples (te_prm e)"
        using TSGMake_tail [OF u fr a] c(1) True by blast
      show ?thesis
      proof (cases "flg = TSG_OK \<and> mem 4 \<and> mem 5")
        case False
        then show ?thesis using head True p(1,2) by (auto simp: tsg_flags_def)
      next
        case fin: True
        obtain s0 s where l: "tsg_start e lgfr = Some s0" "tsg_loop e s0 = Some s" "loop_inv e s" "guard_inv e s"
          "cnt_n_smp (ts_cnt s) = te_N e" using loop_ok p(3) fin by blast
        obtain t'' b where f: "tsg_finish e (ts_buf s) (ts_cnt s) = (t'', b)"
          by (cases "tsg_finish e (ts_buf s) (ts_cnt s)")
        let ?buf = "\<lparr>tb_index = index, tb_len = int (length (fst b)), tb_step = CLOCK_PERIOD,
                  tb_code = fst b, tb_rep = snd b, tb_prm = Some prm\<rparr>"
        have "TSGMake mem t index = Some (t'', TSG_OK, Some ?buf)"
          using head True p(1) fin l(1,2) f by (simp add: Let_def)
        moreover have "tsg_success t index t'' ?buf"
          unfolding tsg_success_def using l(3-5) f p(3) fin by (intro exI [of _ e] exI [of _ s]) simp
        ultimately show ?thesis by blast
      qed
    qed
  qed
qed

section \<open>Properties\<close>

lemma finish_ok:
  assumes "cnt_ok b c" "guarded (expand b)" "tsg_finish e b c = (t', b')"
  shows "balanced b'" "s_rises 0 (fst b') = s_rises 0 (fst b)" "guarded (expand b')" "tp_samples t' = tp_samples (te_prm e)"
proof -
  obtain d where b': "b' = wr_runs b 0 d" and t': "tp_samples t' = tp_samples (te_prm e)"
    using assms(3) by (auto simp: tsg_finish_def TSGWrBuf_def Let_def)
  have bal: "balanced b" using assms(1) by (simp add: cnt_ok_def)
  then show "balanced b'" by (simp add: b')
  have "s_rises x (replicate n 0) = 0" for x n by (induction n arbitrary: x) auto
  then show "s_rises 0 (fst b') = s_rises 0 (fst b)"
    using codes_wr [of b 0 d] by (auto simp: b' s_rises_append)
  obtain n where "expand b' = expand b @ replicate n 0" using expand_wr_any [OF bal, of 0 d] b' by auto
  then show "guarded (expand b')" using guarded_replicate [OF assms(2), of 0 n] by (simp add: transmits_def)
  show "tp_samples t' = tp_samples (te_prm e)" by (rule t')
qed

lemma TSGMake_success:
  assumes "tsg_usable t" "TSGMake mem t index = Some (t', flg, Some buf)"
  shows "flg = TSG_OK" "tsg_success t index t' buf"
  using TSGMake_outcome [OF assms(1), of mem index] assms(2) by auto


text \<open>A two-pulse sequence with 25 ranges.\<close>

definition two_pulse :: TSGprm where
  "two_pulse = \<lparr>tp_nrang = 25, tp_frang = 45, tp_rsep = 45, tp_smsep = 0, tp_lagfr = 0, tp_txpl = 300,
     tp_mppul = 2, tp_mpinc = 1500, tp_mlag = 0, tp_nbaud = 1, tp_samples = 0, tp_smdelay = 0, tp_stdelay = 20,
     tp_gort = 0, tp_rtoxmin = 0, tp_pat = [0, 3], tp_code = []\<rparr>"

lemma two_pulse_usable: "tsg_usable two_pulse"
  by code_simp

lemma two_pulse_made:
  "\<exists>t' buf. TSGMake (\<lambda>_. True) two_pulse 1 = Some (t', TSG_OK, Some buf) \<and> tp_samples t' = 40"
proof -
  have "map_option (\<lambda>(t', f, bo). (tp_samples t', f, bo \<noteq> None)) (TSGMake (\<lambda>_. True) two_pulse 1) = Some (40, 0, True)"
    by code_simp
  then show ?thesis by auto
qed


text \<open>What a buffer made from usable parameters looks like.\<close>

lemma TSGMake_made:
  assumes "tsg_usable t" "TSGMake mem t index = Some (t', flg, Some buf)"
  shows "int (s_rises 0 (tb_code buf)) = tp_samples t'" "tb_len buf = int (length (tb_code buf))" "length (tb_rep buf) = length (tb_code buf)"
    "guarded (expand (tb_code buf, tb_rep buf))"
proof -
  obtain e s where s: "loop_inv e s" "guard_inv e s" "cnt_n_smp (ts_cnt s) = te_N e" "te_N e = tp_samples (te_prm e)"
    "tsg_finish e (ts_buf s) (ts_cnt s) = (t', (tb_code buf, tb_rep buf))" "tb_len buf = int (length (tb_code buf))"
    using TSGMake_success(2) [OF assms] by (auto simp: tsg_success_def)
  have c: "cnt_ok (ts_buf s) (ts_cnt s)" using s(1) by (simp add: loop_inv_def)
  have "guarded (expand (ts_buf s))" using s(2) by (simp add: guard_inv_def)
  note f = finish_ok [OF c this s(5)]
  show "int (s_rises 0 (tb_code buf)) = tp_samples t'" "tb_len buf = int (length (tb_code buf))" "length (tb_rep buf) = length (tb_code buf)"
    "guarded (expand (tb_code buf, tb_rep buf))"
    using f s c by (simp_all add: cnt_ok_def balanced_def)
qed

lemma TSGMake_step: "TSGMake mem t index = Some (t', flg, Some buf) \<Longrightarrow> tb_step buf = CLOCK_PERIOD"
  by (auto simp: TSGMake_def Let_def bind_eq_Some_conv split: if_split_asm option.split_asm prod.split_asm)
    (metis prod.collapse TSGbuf.select_convs(3))+

text \<open>
  C26: the sequence holds the promised samples. In a buffer made from usable parameters the sample
  bit rises exactly \<^verbatim>\<open>tsg->samples\<close> times, and both arrays have \<^verbatim>\<open>len\<close> entries.
\<close>

theorem TSGMake_samples:
  assumes "tsg_usable t" "TSGMake mem t index = Some (t', flg, Some buf)"
  shows "int (s_rises 0 (tb_code buf)) = tp_samples t' \<and> tb_len buf = int (length (tb_code buf)) \<and>
    length (tb_rep buf) = length (tb_code buf)"
  using TSGMake_made [OF assms] by simp

theorem TSGMake_samples_witness:
  "\<exists>t' buf. TSGMake (\<lambda>_. True) two_pulse 1 = Some (t', TSG_OK, Some buf) \<and> int (s_rises 0 (tb_code buf)) = 40"
  using two_pulse_made TSGMake_samples [OF two_pulse_usable] by metis

text \<open>
  C1: the transmit guard. In the waveform of every buffer made from usable parameters, the
  transmitter is keyed only while the attenuators and the receiver gate are on, and each
  transmission starts after at least six ticks (60 microseconds) with both of them on.
\<close>

theorem TSGMake_guarded:
  assumes "tsg_usable t" "TSGMake mem t index = Some (t', flg, Some buf)"
  shows "guarded (expand (tb_code buf, tb_rep buf))"
  by (rule TSGMake_made(4) [OF assms])

theorem TSGMake_guarded_witness:
  "\<exists>t' buf. TSGMake (\<lambda>_. True) two_pulse 1 = Some (t', TSG_OK, Some buf) \<and> guarded (expand (tb_code buf, tb_rep buf))"
  using two_pulse_made TSGMake_guarded [OF two_pulse_usable] by metis

text \<open>
  C39: the case the flag \<^verbatim>\<open>TSG_INV_MPPUL_SMSEP\<close> was written for. With no pulses and no sample
  separation the check is unreachable, because a zero \<^verbatim>\<open>rsep\<close> has been refused before, and the
  function divides by zero.
\<close>

theorem TSGMake_divides_by_zero:
  assumes "tp_mppul t = 0" "tp_smsep t = 0" "tp_nbaud t \<le> 1" "0 \<le> tp_frang t" "0 < tp_rsep t" "\<And>k. mem k"
  shows "TSGMake mem t index = None"
proof -
  have "tsg_validate t = Some TSG_OK" using assms by (simp add: validate_value)
  moreover obtain prm where "tsg_copy t = Some prm" using assms(3) by (simp add: tsg_copy_def)
  moreover obtain t1 where "tsg_adjust t = Some t1" "tp_mppul t1 = 0" "tp_smsep t1 = 0"
    using assms(1-3) by (simp add: tsg_adjust_def tsg_pulse_sep_def Let_def tsg_round_smsep_def smod_nonneg)
  moreover from this have "tsg_check_pulses t1 = Some TSG_OK" "tsg_prepare t1 = None"
    by (simp_all add: tsg_check_pulses_def tsg_prepare_def Let_def sdiv_nonneg smod_nonneg)
  ultimately show ?thesis using assms by (simp add: TSGMake_def)
qed

theorem TSGMake_divides_by_zero_witness:
  "TSGMake (\<lambda>_. True) (two_pulse\<lparr>tp_mppul := 0\<rparr>) 1 = None"
  using TSGMake_divides_by_zero [of "two_pulse\<lparr>tp_mppul := 0\<rparr>" "\<lambda>_. True" 1] by (simp add: two_pulse_def)

end
