(* ===== verification/Timing_Driver.thy ===== *)
theory Timing_Driver
  imports Driver_Common TSG
begin

text \<open>
  The driver of the timing card, \<^verbatim>\<open>timing_tcp_driver\<close>, in its QNX build: pulse sequences are registered per
  channel, unpacked into samples when a client is ready, merged into one master sequence before
  a trigger, and written to the card in pieces by \<^verbatim>\<open>int_handler\<close> while it runs. Register writes and DMA
  transfers are recorded in a list, register reads are an argument. The lemmas show what the
  master sequence contains, that the reported transmit times are exactly the transmitting samples, and
  that the card receives the whole master sequence in order.
\<close>

section \<open>Constants\<close>

definition MAX_TIME_SEQ_LEN :: nat where "MAX_TIME_SEQ_LEN = 1048576"
definition MAX_PULSES :: nat where "MAX_PULSES = 100"
definition FIFOLVL :: nat where "FIFOLVL = 8000"
definition FIFOWIDTH :: nat where "FIFOWIDTH = 1"
definition STATE_TIME :: int where "STATE_TIME = 5"
definition RX_OFFSET :: int where "RX_OFFSET = 0"
definition DDS_OFFSET :: int where "DDS_OFFSET = 0"

lemmas timing_consts = MAX_PULSES_def FIFOLVL_def FIFOWIDTH_def STATE_TIME_def RX_OFFSET_def DDS_OFFSET_def

section \<open>State\<close>

text \<open>What the driver does to the card: a register write, or a transfer of some words from an offset of the master buffer.\<close>

datatype card_op = Out32 nat u32 | Xfer nat nat

text \<open>
  \<^verbatim>\<open>seq_buf\<close> and \<^verbatim>\<open>seq_count\<close> of a channel are one list. The master buffer is memory that is never cleared.
  The two arrays of \<^verbatim>\<open>bad_transmit_times\<close> hold \<^verbatim>\<open>MAX_PULSES\<close> numbers.
\<close>

record timing =
  td_ready :: ready_table
  td_pulseseqs :: "TSGbuf option list list"
  td_seq :: "u32 list list"
  td_master :: "nat \<Rightarrow> u32"
  td_old_seq_id :: int
  td_max_seq_count :: nat
  td_bad :: TRTimes
  td_writingFIFO :: bool
  td_xfercount :: nat
  td_dma_count :: int
  td_flags :: bool
  td_card :: "card_op list"

text \<open>The new state, the rest of the input and the items of the answer.\<close>

type_synonym reply = "(timing \<times> wire list \<times> wire list) option"

definition card_ops :: "card_op list \<Rightarrow> timing \<Rightarrow> timing" where
  "card_ops ops t = t\<lparr>td_card := td_card t @ ops\<rparr>"

section \<open>Unpacking a sequence\<close>

text \<open>Scope sync, transmit/receive and phase of a channel on its own bits, and the first two on the common bits 0 and 1.\<close>

definition decodestate :: "int \<Rightarrow> int \<Rightarrow> u8 \<Rightarrow> u32" where
  "decodestate r c st =
    (let k = nat ((r + 1) * (c + 1)) in
     (if st AND 0x80 = 0x80 then push_bit (7 + k) 1 else 0) OR
     (if st AND 0x02 = 0x02 then push_bit (7 + 2 * k) 1 else 0) OR
     (if st AND 0x10 = 0x10 then push_bit (7 + 3 * k) 1 else 0) OR
     (if st AND 0x80 = 0x80 then 0x01 else 0) OR
     (if st AND 0x02 = 0x02 then 0x02 else 0))"

definition seq_step :: "int \<Rightarrow> int" where
  "seq_step step = cint (real_of_int step / real_of_int STATE_TIME + 1 / 2)"

definition offset_pad :: int where
  "offset_pad = cint (real_of_int (min DDS_OFFSET RX_OFFSET) / (real_of_int STATE_TIME + 1 / 2)) - 2"

definition unpack_runs :: "int \<Rightarrow> int \<Rightarrow> int \<Rightarrow> (u8 \<times> u8) list \<Rightarrow> u32 list" where
  "unpack_runs r c step runs = concat (map (\<lambda>(code, rep). replicate (nat (step * uint rep)) (decodestate r c code)) runs)"

text \<open>The samples must fit into the buffer.\<close>

definition unpack_seq :: "int \<Rightarrow> int \<Rightarrow> TSGbuf \<Rightarrow> u32 list option" where
  "unpack_seq r c q =
    (let ws = replicate (nat (- offset_pad)) 0 @ unpack_runs r c (seq_step (tb_step q)) (take (nat (tb_len q)) (zip (tb_code q) (tb_rep q)))
     in if length ws \<le> MAX_TIME_SEQ_LEN then Some ws else None)"

section \<open>Clients\<close>

definition timing_register_msg :: "DriverMsg \<Rightarrow> wire list \<Rightarrow> timing \<Rightarrow> reply" where
  "timing_register_msg m ws t = do {
     (q, ws) \<leftarrow> rx_prm ws;
     (index, ws) \<leftarrow> rx_int ws;
     ((i, len, step), ws) \<leftarrow> rx_tsgbuf ws;
     (rep, ws) \<leftarrow> rx_bytes len ws;
     (code, ws) \<leftarrow> rx_bytes len ws;
     k \<leftarrow> prm_cell q;
     row \<leftarrow> aref (td_pulseseqs t) (int k);
     row' \<leftarrow> aset row index (Some \<lparr>tb_index = i, tb_len = len, tb_step = step, tb_code = code, tb_rep = rep, tb_prm = None\<rparr>);
     seqs \<leftarrow> aset (td_pulseseqs t) (int k) row';
     Some (t\<lparr>td_pulseseqs := seqs, td_old_seq_id := -10\<rparr>, ws, [W_DriverMsg (m\<lparr>dm_status := 0\<rparr>)])
   }"

definition timing_ready_msg :: "DriverMsg \<Rightarrow> wire list \<Rightarrow> timing \<Rightarrow> reply" where
  "timing_ready_msg m ws t = do {
     (q, ws) \<leftarrow> rx_prm ws;
     k \<leftarrow> prm_cell q;
     rt \<leftarrow> add_ready q (td_ready t);
     row \<leftarrow> aref (td_pulseseqs t) (int k);
     sel \<leftarrow> aref row (pr_current_pulseseq_index q);
     ps \<leftarrow> sel;
     buf \<leftarrow> unpack_seq (pr_radar q - 1) (pr_channel q - 1) ps;
     seqs \<leftarrow> aset (td_seq t) (int k) buf;
     let status = (if rt_num rt \<ge> int maxclients then -2 else 0);
     Some (t\<lparr>td_ready := wrap_ready rt, td_seq := seqs\<rparr>, ws, [W_DriverMsg (m\<lparr>dm_status := status\<rparr>)])
   }"

section \<open>The master sequence\<close>

definition seq_id :: "ControlPRM list \<Rightarrow> int" where
  "seq_id qs = -1 + (\<Sum>q \<leftarrow> qs. (pr_radar q - 1) * 1000 + (pr_channel q - 1) * 100 + pr_current_pulseseq_index q + 1)"

text \<open>The first client overwrites the master buffer, the others are merged into it.\<close>

definition overwrite :: "u32 list \<Rightarrow> (nat \<Rightarrow> u32) \<Rightarrow> nat \<Rightarrow> u32" where
  "overwrite ws m j = (if j < length ws then ws ! j else m j)"

definition merge :: "u32 list \<Rightarrow> (nat \<Rightarrow> u32) \<Rightarrow> nat \<Rightarrow> u32" where
  "merge ws m j = (if j < length ws then m j OR ws ! j else m j)"

definition merge_all :: "u32 list list \<Rightarrow> (nat \<Rightarrow> u32) \<Rightarrow> nat \<Rightarrow> u32" where
  "merge_all bufs m = (case bufs of [] \<Rightarrow> m | b # bs \<Rightarrow> fold merge bs (overwrite b m))"

definition longest :: "u32 list list \<Rightarrow> nat" where
  "longest bufs = fold (\<lambda>b n. if length b \<ge> n then length b else n) bufs 0"

text \<open>The pass over the master buffer: FIFO stamps, transmit times and the last rising edge of the scope sync.\<close>

record scan =
  sc_master :: "nat \<Rightarrow> u32"
  sc_bad :: TRTimes
  sc_tr :: bool
  sc_scope :: bool
  sc_start :: int

definition stamp :: "nat \<Rightarrow> (nat \<Rightarrow> u32) \<Rightarrow> nat \<Rightarrow> u32" where
  "stamp i m = (if i mod FIFOLVL = 0 then fold (\<lambda>j m. m(i + j := m (i + j) OR 0x84)) [0..<FIFOWIDTH] m else m)"

definition open_pulse :: "nat \<Rightarrow> TRTimes \<Rightarrow> TRTimes option" where
  "open_pulse i b =
    (let n = tr_length b + 1 in
     if n > 0 \<and> n < int MAX_PULSES then do {
       s \<leftarrow> aset (tr_start_usec b) (n - 1) (int i);
       d \<leftarrow> aset (tr_duration_usec b) (n - 1) 1;
       Some \<lparr>tr_length = n, tr_start_usec = s, tr_duration_usec = d\<rparr>
     } else Some (b\<lparr>tr_length := n\<rparr>))"

definition extend_pulse :: "TRTimes \<Rightarrow> TRTimes option" where
  "extend_pulse b = do {
     v \<leftarrow> aref (tr_duration_usec b) (tr_length b - 1);
     d \<leftarrow> aset (tr_duration_usec b) (tr_length b - 1) (v + 1);
     Some (b\<lparr>tr_duration_usec := d\<rparr>)
   }"

definition scan_step :: "nat \<Rightarrow> scan \<Rightarrow> scan option" where
  "scan_step i s = do {
     let m = stamp i (sc_master s);
     bad \<leftarrow> (if m i AND 0x02 = 0x02 then (if sc_tr s then extend_pulse (sc_bad s) else open_pulse i (sc_bad s)) else Some (sc_bad s));
     let sync = (m i AND 0x01 = 0x01);
     Some \<lparr>sc_master = m, sc_bad = bad, sc_tr = (m i AND 0x02 = 0x02), sc_scope = sync,
       sc_start = (if sync \<and> \<not> sc_scope s then int i else sc_start s)\<rparr>
   }"

fun scan_from :: "nat list \<Rightarrow> scan \<Rightarrow> scan option" where
  "scan_from [] s = Some s"
| "scan_from (i # is) s = Option.bind (scan_step i s) (scan_from is)"

definition trigger_at :: "int \<Rightarrow> int \<Rightarrow> int" where
  "trigger_at start offset = (if start > -1 then start + cint (real_of_int offset / (real_of_int STATE_TIME + 1 / 2)) else 0)"

definition set_trigger :: "int \<Rightarrow> u32 \<Rightarrow> nat \<Rightarrow> (nat \<Rightarrow> u32) \<Rightarrow> nat \<Rightarrow> u32" where
  "set_trigger i mark n m = (if 0 \<le> i \<and> i < int n then m(nat i := m (nat i) OR mark) else m)"

definition build_master :: "u32 list list \<Rightarrow> timing \<Rightarrow> timing option" where
  "build_master bufs t = do {
     let n = longest bufs;
     s \<leftarrow> scan_from [0..<n] \<lparr>sc_master = merge_all bufs (td_master t), sc_bad = (td_bad t)\<lparr>tr_length := 0\<rparr>,
            sc_tr = False, sc_scope = False, sc_start = -1\<rparr>;
     Some (t\<lparr>td_max_seq_count := n, td_bad := sc_bad s,
       td_master := set_trigger (trigger_at (sc_start s) RX_OFFSET) 0x8000 n
         (set_trigger (trigger_at (sc_start s) DDS_OFFSET) 0x4000 n (sc_master s))\<rparr>)
   }"

fun client_bufs :: "timing \<Rightarrow> ControlPRM list \<Rightarrow> u32 list list option" where
  "client_bufs t [] = Some []"
| "client_bufs t (q # qs) = do {
     k \<leftarrow> prm_cell q;
     b \<leftarrow> aref (td_seq t) (int k);
     bs \<leftarrow> client_bufs t qs;
     Some (b # bs)
   }"

definition first_xfer :: "nat \<Rightarrow> nat" where
  "first_xfer n = (if n > 16384 then FIFOLVL + FIFOWIDTH + 2 else n)"

definition start_dma :: "timing \<Rightarrow> timing" where
  "start_dma t = (let n = first_xfer (td_max_seq_count t) in
     card_ops [Out32 0x04 0x041, Out32 0x04 0x641, Xfer 0 n] (t\<lparr>td_dma_count := 1, td_flags := False, td_xfercount := n\<rparr>))"

text \<open>The transmit times are sent from the two arrays.\<close>

definition bad_items :: "TRTimes \<Rightarrow> wire list option" where
  "bad_items b = (if tr_length b \<le> int (length (tr_start_usec b)) \<and> tr_length b \<le> int (length (tr_duration_usec b))
     then Some [W_int (tr_length b), W_uints (take (nat (tr_length b)) (tr_start_usec b)), W_uints (take (nat (tr_length b)) (tr_duration_usec b))]
     else None)"

definition timing_pretrigger_msg :: "DriverMsg \<Rightarrow> wire list \<Rightarrow> timing \<Rightarrow> reply" where
  "timing_pretrigger_msg m ws t = do {
     let qs = ready_clients (td_ready t);
     let new = seq_id qs;
     t1 \<leftarrow> (if new \<noteq> td_old_seq_id t then Option.bind (client_bufs t qs) (\<lambda>bufs. build_master bufs t) else Some t);
     let t2 = start_dma t1;
     items \<leftarrow> bad_items (td_bad t2);
     Some (t2\<lparr>td_old_seq_id := (if new < 0 then -10 else new)\<rparr>, ws, items @ [W_DriverMsg (m\<lparr>dm_status := 0\<rparr>)])
   }"

section \<open>Running the sequence\<close>

text \<open>\<open>rd\<close> is what a register of the card holds when it is read.\<close>

definition timing_trigger_msg :: "(nat \<Rightarrow> u32) \<Rightarrow> DriverMsg \<Rightarrow> wire list \<Rightarrow> timing \<Rightarrow> reply" where
  "timing_trigger_msg rd m ws t =
    Some (card_ops [Out32 0x0c (rd 0x0c OR 0x04), Out32 0x04 0x0141] (t\<lparr>td_writingFIFO := True\<rparr>), ws, [W_DriverMsg (m\<lparr>dm_status := 0\<rparr>)])"

text \<open>
  One turn of \<^verbatim>\<open>int_handler\<close> once the card has raised its interrupt. An empty or underrun FIFO ends the writing.
\<close>

definition int_handler :: "(nat \<Rightarrow> u32) \<Rightarrow> timing \<Rightarrow> timing" where
  "int_handler rd t =
    (if \<not> td_writingFIFO t then t
     else if td_xfercount t < td_max_seq_count t then
       (let n = (if td_max_seq_count t - td_xfercount t > FIFOLVL then FIFOLVL else td_max_seq_count t - td_xfercount t);
            bad = (rd 0x04 AND 0x1000 \<noteq> 0 \<or> rd 0x04 AND 0x400 \<noteq> 0)
        in card_ops [Out32 0x0c (rd 0x0c OR 0x04), Xfer (td_xfercount t) n]
             (t\<lparr>td_flags := bad, td_xfercount := td_xfercount t + n, td_dma_count := td_dma_count t + 1,
                td_writingFIFO := \<not> (td_xfercount t + n \<ge> td_max_seq_count t \<or> bad)\<rparr>))
     else t\<lparr>td_writingFIFO := False\<rparr>)"

text \<open>
  The wait ends when the FIFO has been written, or after a second (\<open>dead\<close>); until then the driver does not answer.
\<close>

definition timing_wait_msg :: "bool \<Rightarrow> DriverMsg \<Rightarrow> wire list \<Rightarrow> timing \<Rightarrow> reply" where
  "timing_wait_msg dead m ws t =
    (if \<not> dead \<and> td_writingFIFO t then None
     else let status = (if dead then -1 else 0) + (if td_xfercount t < td_max_seq_count t then -2 else 0)
          in Some (card_ops [Out32 0x04 0x041, Out32 0x04 0x641] t, ws, [W_DriverMsg (m\<lparr>dm_status := status\<rparr>)]))"

definition timing_posttrigger_msg :: "DriverMsg \<Rightarrow> wire list \<Rightarrow> timing \<Rightarrow> reply" where
  "timing_posttrigger_msg m ws t = Some (t\<lparr>td_ready := clear_ready (td_ready t)\<rparr>, ws, [W_DriverMsg m])"

definition timing_end_msg :: "wire list \<Rightarrow> timing \<Rightarrow> reply" where
  "timing_end_msg ws t = Some (t\<lparr>td_old_seq_id := -10\<rparr>, ws, [])"

text \<open>One message.\<close>

definition timing_msg :: "(nat \<Rightarrow> u32) \<Rightarrow> bool \<Rightarrow> wire list \<Rightarrow> timing \<Rightarrow> reply" where
  "timing_msg rd dead ws t = do {
     (m, ws) \<leftarrow> rx_msg ws;
     (if dm_type m = REGISTER_SEQ_code then timing_register_msg m ws t
      else if dm_type m = CtrlProg_END_code then timing_end_msg ws t
      else if dm_type m = CtrlProg_READY_code then timing_ready_msg m ws t
      else if dm_type m = PRETRIGGER_code then timing_pretrigger_msg m ws t
      else if dm_type m = TRIGGER_code \<or> dm_type m = GPS_TRIGGER_code then timing_trigger_msg rd m ws t
      else if dm_type m = WAIT_code then timing_wait_msg dead m ws t
      else if dm_type m = POSTTRIGGER_code then timing_posttrigger_msg m ws t
      else Some (t, ws, []))
   }"

section \<open>Transmit times\<close>

text \<open>The maximal runs of a predicate below a bound, as start and length.\<close>

fun pulses :: "(nat \<Rightarrow> bool) \<Rightarrow> nat \<Rightarrow> (nat \<times> nat) list" where
  "pulses on 0 = []"
| "pulses on (Suc i) =
    (if \<not> on i then pulses on i
     else if 0 < i \<and> on (i - 1) then butlast (pulses on i) @ [(fst (last (pulses on i)), Suc (snd (last (pulses on i))))]
     else pulses on i @ [(i, 1)])"

definition separated :: "(nat \<times> nat) list \<Rightarrow> bool" where
  "separated ps \<longleftrightarrow> (\<forall>k. Suc k < length ps \<longrightarrow> fst (ps ! k) + snd (ps ! k) < fst (ps ! Suc k)) \<and> (\<forall>p \<in> set ps. 0 < snd p)"

definition covered :: "(nat \<times> nat) list \<Rightarrow> nat set" where
  "covered ps = (\<Union>(s, d) \<in> set ps. {s..<s + d})"

lemma separated_snoc:
  "separated (ps @ [p]) \<longleftrightarrow> separated ps \<and> 0 < snd p \<and> (ps \<noteq> [] \<longrightarrow> fst (last ps) + snd (last ps) < fst p)"
proof -
  have "(\<forall>k. Suc k < length (ps @ [p]) \<longrightarrow> fst ((ps @ [p]) ! k) + snd ((ps @ [p]) ! k) < fst ((ps @ [p]) ! Suc k)) \<longleftrightarrow>
    (\<forall>k. Suc k < length ps \<longrightarrow> fst (ps ! k) + snd (ps ! k) < fst (ps ! Suc k)) \<and> (ps \<noteq> [] \<longrightarrow> fst (last ps) + snd (last ps) < fst p)"
    by (cases ps rule: rev_cases) (auto simp: nth_append less_Suc_eq all_conj_distrib split: if_splits)
  then show ?thesis by (auto simp: separated_def)
qed

lemma pulses_ok:
  "separated (pulses on i) \<and> covered (pulses on i) = {j. j < i \<and> on j} \<and>
   (pulses on i \<noteq> [] \<longrightarrow> fst (last (pulses on i)) + snd (last (pulses on i)) \<le> i \<and>
      (fst (last (pulses on i)) + snd (last (pulses on i)) = i \<longleftrightarrow> 0 < i \<and> on (i - 1))) \<and>
   (0 < i \<and> on (i - 1) \<longrightarrow> pulses on i \<noteq> [])"
proof (induction i)
  case 0
  then show ?case by (simp add: separated_def covered_def)
next
  case (Suc i)
  let ?ps = "pulses on i"
  consider (off) "\<not> on i" | (more) "on i" "0 < i" "on (i - 1)" | (new) "on i" "\<not> (0 < i \<and> on (i - 1))" by blast
  then show ?case
  proof cases
    case off
    then have ps: "pulses on (Suc i) = ?ps" and on: "{j. j < Suc i \<and> on j} = {j. j < i \<and> on j}" by (auto simp: less_Suc_eq)
    have "fst (last ?ps) + snd (last ?ps) \<le> i" if "?ps \<noteq> []" using Suc that by blast
    then show ?thesis unfolding ps on using Suc off by force
  next
    case more
    then have ne: "?ps \<noteq> []" using Suc by blast
    then obtain qs s d where ps: "?ps = qs @ [(s, d)]" by (cases ?ps rule: rev_cases) auto
    then have sd: "s + d = i" using Suc more by simp
    have c: "covered (qs @ [(s, Suc d)]) = insert i (covered (qs @ [(s, d)]))" using sd by (auto simp: covered_def)
    have "covered (qs @ [(s, Suc d)]) = {j. j < Suc i \<and> on j}" using c Suc more(1) unfolding ps by (auto simp: less_Suc_eq)
    moreover have "pulses on (Suc i) = qs @ [(s, Suc d)]" using more by (simp add: ps)
    moreover have "separated (qs @ [(s, d)])" using Suc ps by simp
    ultimately show ?thesis using more(1) sd by (simp add: separated_snoc)
  next
    case new
    then have "fst (last ?ps) + snd (last ?ps) < i" if "?ps \<noteq> []" using Suc that by force
    moreover have "covered (?ps @ [(i, 1)]) = insert i (covered ?ps)" by (auto simp: covered_def)
    then have "covered (?ps @ [(i, 1)]) = {j. j < Suc i \<and> on j}" using Suc new(1) by (auto simp: less_Suc_eq)
    moreover have "pulses on (Suc i) = ?ps @ [(i, 1)]" using new by auto
    moreover have "separated ?ps" using Suc by blast
    ultimately show ?thesis using new(1) by (auto simp: separated_snoc)
  qed
qed

text \<open>The scan of the master buffer computes these runs.\<close>

definition tr_on :: "u32 \<Rightarrow> bool" where
  "tr_on w \<longleftrightarrow> w AND 0x02 = 0x02"

definition stamped :: "nat \<Rightarrow> (nat \<Rightarrow> u32) \<Rightarrow> nat \<Rightarrow> u32" where
  "stamped i m j = (if j < i \<and> j mod FIFOLVL = 0 then m j OR 0x84 else m j)"

lemma tr_on_bit: "tr_on w \<longleftrightarrow> bit w 1"
proof
  assume "tr_on w"
  then have "bit (w AND 2) 1" by (simp add: tr_on_def)
  then show "bit w 1" by (simp add: bit_and_iff)
next
  assume "bit w 1"
  then have "w AND 2 = 2" by (intro bit_eqI) (auto simp: bit_and_iff bit_numeral_rec bit_1_iff split: nat.splits)
  then show "tr_on w" by (simp add: tr_on_def)
qed

lemma tr_on_stamp: "tr_on (w OR 0x84) = tr_on w"
  by (simp add: tr_on_bit bit_or_iff)

lemma stamp_stamped: "stamp i (stamped i m) = stamped (Suc i) m"
  by (auto simp: stamp_def stamped_def FIFOWIDTH_def fun_eq_iff less_Suc_eq)

definition holds_pulses :: "TRTimes \<Rightarrow> (nat \<times> nat) list \<Rightarrow> bool" where
  "holds_pulses b ps \<longleftrightarrow> tr_length b = int (length ps) \<and> length (tr_start_usec b) = MAX_PULSES \<and> length (tr_duration_usec b) = MAX_PULSES \<and>
     take (length ps) (tr_start_usec b) = map (int \<circ> fst) ps \<and> take (length ps) (tr_duration_usec b) = map (int \<circ> snd) ps"

lemma open_pulse_holds:
  assumes "holds_pulses b ps" "Suc (length ps) < MAX_PULSES"
  shows "\<exists>b'. open_pulse i b = Some b' \<and> holds_pulses b' (ps @ [(i, 1)])"
proof -
  have "take (Suc (length ps)) (xs[length ps := v]) = take (length ps) xs @ [v]" if "length xs = MAX_PULSES" for xs :: "int list" and v
    using that assms(2) by (simp add: take_Suc_conv_app_nth)
  then show ?thesis using assms by (auto simp: holds_pulses_def open_pulse_def)
qed

lemma extend_pulse_holds:
  assumes "holds_pulses b (ps @ [(s, d)])" "length ps < MAX_PULSES"
  shows "\<exists>b'. extend_pulse b = Some b' \<and> holds_pulses b' (ps @ [(s, Suc d)])"
proof -
  let ?D = "tr_duration_usec b"
  have len: "length ?D = MAX_PULSES" "tr_length b - 1 = int (length ps)" and t: "take (Suc (length ps)) ?D = map (int \<circ> snd) ps @ [int d]"
    using assms(1) by (simp_all add: holds_pulses_def)
  have D: "take (length ps) ?D = map (int \<circ> snd) ps" "?D ! length ps = int d"
    using t len(1) assms(2) by (simp_all add: take_Suc_conv_app_nth)
  let ?b = "b\<lparr>tr_duration_usec := ?D[length ps := int d + 1]\<rparr>"
  have "extend_pulse b = Some ?b" using len assms(2) D(2) by (simp add: extend_pulse_def)
  moreover have "take (Suc (length ps)) (?D[length ps := int d + 1]) = map (int \<circ> snd) ps @ [int d + 1]"
    using len(1) assms(2) D(1) by (simp add: take_Suc_conv_app_nth)
  ultimately show ?thesis using assms(1) by (simp add: holds_pulses_def add.commute)
qed

text \<open>The number of pulses below a bound grows, so that a limit at the end holds all the way.\<close>

lemma pulses_mono: "length (pulses on i) \<le> length (pulses on (i + k))"
proof (induction k)
  case (Suc k)
  have "length (pulses on j) \<le> length (pulses on (Suc j))" for j using pulses_ok [of on j] by (auto simp: Suc_diff_le)
  then show ?case using Suc le_trans by fastforce
qed simp

lemma scan_step_pulses:
  assumes "sc_master s = stamped i m" "sc_tr s \<longleftrightarrow> 0 < i \<and> on (i - 1)" "holds_pulses (sc_bad s) (pulses on i)"
    "length (pulses on (Suc i)) < MAX_PULSES" and on: "\<And>j. on j \<longleftrightarrow> tr_on (m j)"
  shows "\<exists>s'. scan_step i s = Some s' \<and> sc_master s' = stamped (Suc i) m \<and> (sc_tr s' \<longleftrightarrow> on i) \<and> holds_pulses (sc_bad s') (pulses on (Suc i))"
proof -
  let ?ps = "pulses on i"
  have w: "(stamped (Suc i) m i AND 2 = 2) = on i" by (simp add: stamped_def on tr_on_stamp tr_on_def [symmetric])
  have "\<exists>b. (if on i then (if sc_tr s then extend_pulse (sc_bad s) else open_pulse i (sc_bad s)) else Some (sc_bad s)) = Some b \<and>
      holds_pulses b (pulses on (Suc i))"
  proof (cases "on i \<and> sc_tr s")
    case True
    then obtain qs a d where ps: "?ps = qs @ [(a, d)]" using pulses_ok [of on i] assms(2) by (cases ?ps rule: rev_cases) auto
    moreover have "pulses on (Suc i) = qs @ [(a, Suc d)]" using True assms(2) ps by simp
    moreover have "length qs < MAX_PULSES" using assms(4) calculation(2) by simp
    ultimately show ?thesis using extend_pulse_holds [of "sc_bad s" qs a d] assms(3) True by simp
  next
    case False
    then show ?thesis using assms(2-4) open_pulse_holds [of "sc_bad s" ?ps i] by (cases "on i") auto
  qed
  then obtain b where b: "(if on i then (if sc_tr s then extend_pulse (sc_bad s) else open_pulse i (sc_bad s)) else Some (sc_bad s)) = Some b"
    "holds_pulses b (pulses on (Suc i))" by blast
  show ?thesis using b by (simp add: scan_step_def assms(1) stamp_stamped w Let_def del: pulses.simps)
qed

lemma scan_from_append: "scan_from (xs @ ys) s = Option.bind (scan_from xs s) (scan_from ys)"
proof (induction xs arbitrary: s)
  case (Cons x xs)
  then have "scan_from (xs @ ys) = (\<lambda>s. Option.bind (scan_from xs s) (scan_from ys))" by (rule ext)
  then show ?case by (simp add: bind_assoc)
qed simp

lemma scan_pulses:
  assumes "holds_pulses b []" "length (pulses on n) < MAX_PULSES" and on: "\<And>j. on j \<longleftrightarrow> tr_on (m j)"
  shows "\<exists>s. scan_from [0..<n] \<lparr>sc_master = m, sc_bad = b, sc_tr = False, sc_scope = False, sc_start = -1\<rparr> = Some s \<and>
    sc_master s = stamped n m \<and> (sc_tr s \<longleftrightarrow> 0 < n \<and> on (n - 1)) \<and> holds_pulses (sc_bad s) (pulses on n)"
  using assms(2)
proof (induction n)
  case 0
  then show ?case using assms(1) by (simp add: stamped_def fun_eq_iff)
next
  case (Suc n)
  have "length (pulses on n) < MAX_PULSES" using Suc.prems pulses_mono [of on n 1] by (simp del: pulses.simps)
  then obtain s where s: "scan_from [0..<n] \<lparr>sc_master = m, sc_bad = b, sc_tr = False, sc_scope = False, sc_start = -1\<rparr> = Some s"
    "sc_master s = stamped n m" "sc_tr s \<longleftrightarrow> 0 < n \<and> on (n - 1)" "holds_pulses (sc_bad s) (pulses on n)"
    using Suc.IH by blast
  then show ?case using scan_step_pulses [OF s(2-4) Suc.prems on] by (auto simp: scan_from_append simp del: pulses.simps)
qed

text \<open>The master buffer after the merge, bit by bit.\<close>

lemma merge_fold_bit:
  "bit (fold merge bs m j) b \<longleftrightarrow> bit (m j) b \<or> (\<exists>buf \<in> set bs. j < length buf \<and> bit (buf ! j) b)"
  by (induction bs arbitrary: m) (auto simp: merge_def bit_or_iff)

lemma merge_all_bit:
  "bufs \<noteq> [] \<Longrightarrow> bit (merge_all bufs m j) b \<longleftrightarrow>
     (\<exists>buf \<in> set bufs. j < length buf \<and> bit (buf ! j) b) \<or> (length (hd bufs) \<le> j \<and> bit (m j) b)"
  by (cases bufs) (auto simp: merge_all_def merge_fold_bit overwrite_def)

lemma set_trigger_bit: "bit (set_trigger i mark n m j) b \<longleftrightarrow> bit (m j) b \<or> (0 \<le> i \<and> i < int n \<and> j = nat i \<and> bit mark b)"
  by (auto simp: set_trigger_def bit_or_iff)

lemma stamped_bit: "bit (stamped n m j) b \<longleftrightarrow> bit (m j) b \<or> (j < n \<and> j mod FIFOLVL = 0 \<and> bit (0x84 :: u32) b)"
  by (auto simp: stamped_def bit_or_iff)

lemma stamp_bits: "bit (0x84 :: u32) b \<longleftrightarrow> b = 2 \<or> b = 7"
proof -
  have "(0x84 :: u32) = push_bit 2 1 OR push_bit 7 1" by simp
  then show ?thesis by (simp only: bit_or_iff bit_push_bit_iff) (auto simp: bit_1_iff)
qed

lemma trigger_bits: "bit (0x4000 :: u32) b \<longleftrightarrow> b = 14" "bit (0x8000 :: u32) b \<longleftrightarrow> b = 15"
proof -
  have 1: "(0x4000 :: u32) = push_bit 14 1" "(0x8000 :: u32) = push_bit 15 1" by simp_all
  show "bit (0x4000 :: u32) b \<longleftrightarrow> b = 14" unfolding 1(1) bit_push_bit_iff by (auto simp: bit_1_iff)
  show "bit (0x8000 :: u32) b \<longleftrightarrow> b = 15" unfolding 1(2) bit_push_bit_iff by (auto simp: bit_1_iff)
qed

lemma scan_master:
  "scan_from [0..<n] s0 = Some s \<Longrightarrow> sc_master s = stamped n (sc_master s0)"
proof (induction n arbitrary: s)
  case 0
  then show ?case by (simp add: stamped_def fun_eq_iff)
next
  case (Suc n)
  then obtain s1 where "scan_from [0..<n] s0 = Some s1" "scan_step n s1 = Some s" by (auto simp: scan_from_append bind_eq_Some_conv)
  moreover have "sc_master s = stamp n (sc_master s1)" if "scan_step n s1 = Some s"
    using that by (auto simp: scan_step_def Let_def bind_eq_Some_conv)
  ultimately show ?case using Suc.IH [of s1] by (simp add: stamp_stamped)
qed

lemma build_master_bit:
  assumes "build_master bufs t = Some t'" "bufs \<noteq> []" "b \<notin> {2, 7, 14, 15}"
  shows "bit (td_master t' j) b \<longleftrightarrow>
    (\<exists>buf \<in> set bufs. j < length buf \<and> bit (buf ! j) b) \<or> (length (hd bufs) \<le> j \<and> bit (td_master t j) b)"
proof -
  obtain s where s: "scan_from [0..<longest bufs] \<lparr>sc_master = merge_all bufs (td_master t), sc_bad = (td_bad t)\<lparr>tr_length := 0\<rparr>,
      sc_tr = False, sc_scope = False, sc_start = -1\<rparr> = Some s"
    and t': "td_master t' = set_trigger (trigger_at (sc_start s) RX_OFFSET) 0x8000 (longest bufs)
         (set_trigger (trigger_at (sc_start s) DDS_OFFSET) 0x4000 (longest bufs) (sc_master s))"
    using assms(1) by (auto simp: build_master_def Let_def bind_eq_Some_conv)
  have "bit (td_master t' j) b = bit (merge_all bufs (td_master t) j) b"
    unfolding t' set_trigger_bit scan_master [OF s] stamped_bit stamp_bits trigger_bits using assms(3) by auto
  then show ?thesis by (simp add: merge_all_bit [OF assms(2)])
qed

lemma build_master_pulses:
  assumes "length (tr_start_usec (td_bad t)) = MAX_PULSES" "length (tr_duration_usec (td_bad t)) = MAX_PULSES"
    "length (pulses (\<lambda>j. tr_on (merge_all bufs (td_master t) j)) (longest bufs)) < MAX_PULSES"
  obtains t' where "build_master bufs t = Some t'" "td_max_seq_count t' = longest bufs"
    "holds_pulses (td_bad t') (pulses (\<lambda>j. tr_on (merge_all bufs (td_master t) j)) (longest bufs))"
    "\<And>j. tr_on (td_master t' j) = tr_on (merge_all bufs (td_master t) j)"
proof -
  have "holds_pulses ((td_bad t)\<lparr>tr_length := 0\<rparr>) []" using assms(1,2) by (simp add: holds_pulses_def)
  from scan_pulses [OF this assms(3)] obtain s where
    s: "scan_from [0..<longest bufs] \<lparr>sc_master = merge_all bufs (td_master t), sc_bad = (td_bad t)\<lparr>tr_length := 0\<rparr>,
      sc_tr = False, sc_scope = False, sc_start = -1\<rparr> = Some s" "sc_master s = stamped (longest bufs) (merge_all bufs (td_master t))"
      "holds_pulses (sc_bad s) (pulses (\<lambda>j. tr_on (merge_all bufs (td_master t) j)) (longest bufs))" by blast
  let ?m = "set_trigger (trigger_at (sc_start s) RX_OFFSET) 0x8000 (longest bufs)
         (set_trigger (trigger_at (sc_start s) DDS_OFFSET) 0x4000 (longest bufs) (sc_master s))"
  have "build_master bufs t = Some (t\<lparr>td_max_seq_count := longest bufs, td_bad := sc_bad s, td_master := ?m\<rparr>)"
    by (simp add: build_master_def s(1) Let_def)
  moreover have "tr_on (?m j) = tr_on (merge_all bufs (td_master t) j)" for j
    unfolding tr_on_bit set_trigger_bit s(2) stamped_bit stamp_bits trigger_bits by simp
  ultimately show thesis using that s(3) by simp
qed

section \<open>Transfers to the card\<close>

text \<open>The words the card has received.\<close>

fun delivered :: "(nat \<Rightarrow> u32) \<Rightarrow> card_op list \<Rightarrow> u32 list" where
  "delivered m [] = []"
| "delivered m (Out32 a v # ops) = delivered m ops"
| "delivered m (Xfer off n # ops) = map m [off..<off + n] @ delivered m ops"

lemma delivered_append: "delivered m (xs @ ys) = delivered m xs @ delivered m ys"
  by (induction m xs rule: delivered.induct) simp_all

definition no_underrun :: "(nat \<Rightarrow> u32) \<Rightarrow> bool" where
  "no_underrun rd \<longleftrightarrow> rd 0x04 AND 0x1000 = 0 \<and> rd 0x04 AND 0x400 = 0"

lemma int_handler_delivers:
  assumes "no_underrun rd" "td_xfercount t < td_max_seq_count t" "td_writingFIFO t"
    "delivered m (drop k (td_card t)) = map m [0..<td_xfercount t]" "k \<le> length (td_card t)"
  shows "td_xfercount t < td_xfercount (int_handler rd t)" "td_xfercount (int_handler rd t) \<le> td_max_seq_count t"
    "td_max_seq_count (int_handler rd t) = td_max_seq_count t" "td_master (int_handler rd t) = td_master t"
    "td_writingFIFO (int_handler rd t) \<longleftrightarrow> td_xfercount (int_handler rd t) < td_max_seq_count t"
    "delivered m (drop k (td_card (int_handler rd t))) = map m [0..<td_xfercount (int_handler rd t)]" "k \<le> length (td_card (int_handler rd t))"
proof -
  define n where "n = (if td_max_seq_count t - td_xfercount t > FIFOLVL then FIFOLVL else td_max_seq_count t - td_xfercount t)"
  have n: "0 < n" "td_xfercount t + n \<le> td_max_seq_count t" using assms(2) by (auto simp: n_def FIFOLVL_def)
  have h: "int_handler rd t = card_ops [Out32 0x0c (rd 0x0c OR 0x04), Xfer (td_xfercount t) n]
      (t\<lparr>td_flags := False, td_xfercount := td_xfercount t + n, td_dma_count := td_dma_count t + 1, td_writingFIFO := \<not> (td_xfercount t + n \<ge> td_max_seq_count t)\<rparr>)"
    using assms(1-3) by (simp add: int_handler_def n_def [symmetric] no_underrun_def Let_def)
  have "map m [0..<td_xfercount t] @ map m [td_xfercount t..<td_xfercount t + n] = map m [0..<td_xfercount t + n]"
    by (simp add: upt_add_eq_append [of 0 "td_xfercount t" n, simplified])
  then show "delivered m (drop k (td_card (int_handler rd t))) = map m [0..<td_xfercount (int_handler rd t)]"
    using assms(4,5) by (simp add: h card_ops_def delivered_append)
  show "td_xfercount t < td_xfercount (int_handler rd t)" "td_xfercount (int_handler rd t) \<le> td_max_seq_count t"
    "td_max_seq_count (int_handler rd t) = td_max_seq_count t" "td_master (int_handler rd t) = td_master t"
    "td_writingFIFO (int_handler rd t) \<longleftrightarrow> td_xfercount (int_handler rd t) < td_max_seq_count t" "k \<le> length (td_card (int_handler rd t))"
    using n assms(5) by (auto simp: h card_ops_def)
qed

lemma int_handler_runs:
  assumes "no_underrun rd" "td_xfercount t \<le> td_max_seq_count t" "td_writingFIFO t \<longleftrightarrow> td_xfercount t < td_max_seq_count t"
    "delivered m (drop k (td_card t)) = map m [0..<td_xfercount t]" "k \<le> length (td_card t)"
  shows "\<exists>i. \<not> td_writingFIFO ((int_handler rd ^^ i) t) \<and> td_xfercount ((int_handler rd ^^ i) t) = td_max_seq_count t \<and>
    td_max_seq_count ((int_handler rd ^^ i) t) = td_max_seq_count t \<and>
    delivered m (drop k (td_card ((int_handler rd ^^ i) t))) = map m [0..<td_max_seq_count t]"
  using assms
proof (induction "td_max_seq_count t - td_xfercount t" arbitrary: t rule: less_induct)
  case less
  show ?case
  proof (cases "td_writingFIFO t")
    case False
    then show ?thesis using less.prems by (intro exI [of _ 0]) simp
  next
    case True
    then have lt: "td_xfercount t < td_max_seq_count t" using less.prems(3) by simp
    note h = int_handler_delivers [OF assms(1) lt True less.prems(4,5)]
    from less.hyps [of "int_handler rd t"] h lt assms(1) obtain i where
      "\<not> td_writingFIFO ((int_handler rd ^^ i) (int_handler rd t)) \<and> td_xfercount ((int_handler rd ^^ i) (int_handler rd t)) = td_max_seq_count t \<and>
       td_max_seq_count ((int_handler rd ^^ i) (int_handler rd t)) = td_max_seq_count t \<and>
       delivered m (drop k (td_card ((int_handler rd ^^ i) (int_handler rd t)))) = map m [0..<td_max_seq_count t]"
      by (metis diff_less_mono2)
    then show ?thesis by (intro exI [of _ "Suc i"]) (simp add: funpow_swap1)
  qed
qed

section \<open>Unpacking\<close>

lemma replicate_mult: "replicate (n * k) x = concat (map (\<lambda>y. replicate n y) (replicate k x))"
  by (induction k) (simp_all add: replicate_add)

lemma expand_Cons: "expand (x # xs, y # ys) = replicate (unat y) x @ expand (xs, ys)"
  by (simp add: expand_def)

lemma unpack_runs_expand:
  assumes "0 \<le> step" "length code = length rep"
  shows "unpack_runs r c step (zip code rep) = concat (map (\<lambda>st. replicate (nat step) (decodestate r c st)) (expand (code, rep)))"
  using assms(2)
proof (induction code rep rule: list_induct2)
  case Nil
  then show ?case by (simp add: unpack_runs_def expand_def)
next
  case (Cons x xs y ys)
  have "nat (step * uint y) = nat step * unat y" using assms(1) by (simp add: nat_mult_distrib)
  then have "unpack_runs r c step (zip (x # xs) (y # ys)) = replicate (nat step * unat y) (decodestate r c x) @ unpack_runs r c step (zip xs ys)"
    by (simp add: unpack_runs_def)
  then show ?case by (simp only: Cons.IH expand_Cons replicate_mult map_replicate map_append concat_append)
qed

lemma pad_two: "nat (- offset_pad) = 2"
  by (simp add: offset_pad_def timing_consts cint_def)

lemma seq_step_tick: "seq_step CLOCK_PERIOD = 2"
proof -
  have "\<lfloor>(10 :: real) / 5 + 1 / 2\<rfloor> = 2" by (simp add: floor_eq_iff)
  then show ?thesis by (simp add: seq_step_def timing_consts cint_def)
qed

lemma unpack_seq_expand:
  assumes "unpack_seq r c q = Some ws" "tb_len q = int (length (tb_code q))" "length (tb_rep q) = length (tb_code q)" "0 \<le> seq_step (tb_step q)"
  shows "ws = [0, 0] @ concat (map (\<lambda>st. replicate (nat (seq_step (tb_step q))) (decodestate r c st)) (expand (tb_code q, tb_rep q)))"
proof -
  have "take (nat (tb_len q)) (zip (tb_code q) (tb_rep q)) = zip (tb_code q) (tb_rep q)" using assms(2,3) by simp
  then show ?thesis
    using assms(1) unpack_runs_expand [OF assms(4), of "tb_code q" "tb_rep q" r c] assms(3)
    by (simp add: unpack_seq_def pad_two Let_def numeral_2_eq_2 split: if_splits)
qed

lemma concat_nth:
  "\<forall>x \<in> set xss. length x = n \<Longrightarrow> i < length xss \<Longrightarrow> d < n \<Longrightarrow> concat xss ! (i * n + d) = xss ! i ! d"
proof (induction xss arbitrary: i)
  case (Cons x xss)
  show ?case
  proof (cases i)
    case (Suc j)
    have "(x @ concat xss) ! (n + (j * n + d)) = concat xss ! (j * n + d)" using Cons.prems(1) by (simp add: nth_append)
    then show ?thesis using Cons Suc by (simp add: add.assoc)
  qed (use Cons in \<open>simp add: nth_append\<close>)
qed simp

lemma tr_on_decode: "0 \<le> r \<Longrightarrow> 0 \<le> c \<Longrightarrow> tr_on (decodestate r c st) \<longleftrightarrow> st AND 0x02 = 0x02"
proof -
  assume a: "0 \<le> r" "0 \<le> c"
  have 1: "\<not> bit (push_bit (7 + k) (1 :: u32)) 1" for k unfolding bit_push_bit_iff by simp
  have 2: "\<not> bit (1 :: u32) 1" "bit (2 :: u32) 1" by simp_all
  show ?thesis unfolding tr_on_bit decodestate_def Let_def bit_or_iff using 1 2 by auto
qed

lemma and_two: "(st :: u8) AND 2 = 2 \<longleftrightarrow> st AND 2 \<noteq> 0"
proof -
  have two: "(2 :: u8) = push_bit 1 1" by simp
  have "n = 1" if "bit (2 :: u8) n" for n using that unfolding two bit_push_bit_iff by (auto simp: bit_1_iff)
  then have "st AND 2 = (if bit st 1 then 2 else 0)" by (intro bit_eqI) (auto simp: bit_and_iff)
  then show ?thesis by simp
qed

text \<open>The transmit/receive line of the card follows the receiver gate of the sequence.\<close>

lemma unpack_gate:
  assumes "unpack_seq r c q = Some ws" "tb_len q = int (length (tb_code q))" "length (tb_rep q) = length (tb_code q)" "tb_step q = CLOCK_PERIOD"
    "0 \<le> r" "0 \<le> c" "i < length (expand (tb_code q, tb_rep q))" "d < 2"
  shows "2 + (i * 2 + d) < length ws" "tr_on (ws ! (2 + (i * 2 + d))) \<longleftrightarrow> expand (tb_code q, tb_rep q) ! i AND R_bit \<noteq> 0"
proof -
  let ?w = "expand (tb_code q, tb_rep q)"
  let ?f = "\<lambda>st. replicate 2 (decodestate r c st)"
  have ws: "ws = [0, 0] @ concat (map ?f ?w)" using unpack_seq_expand [OF assms(1-3)] assms(4) seq_step_tick by simp
  have len: "length (concat (map ?f v)) = length v * 2" for v by (induction v) simp_all
  show "2 + (i * 2 + d) < length ws" using assms(7,8) len by (simp add: ws)
  have "concat (map ?f ?w) ! (i * 2 + d) = map ?f ?w ! i ! d" by (rule concat_nth) (use assms(7,8) in simp_all)
  then have "ws ! (2 + (i * 2 + d)) = decodestate r c (?w ! i)" using assms(7,8) by (simp add: ws)
  then show "tr_on (ws ! (2 + (i * 2 + d))) \<longleftrightarrow> ?w ! i AND R_bit \<noteq> 0" using tr_on_decode [OF assms(5,6)] and_two by simp
qed

lemma unpack_seq_returns:
  assumes "tb_len q = int (length (tb_code q))" "length (tb_rep q) = length (tb_code q)" "tb_step q = CLOCK_PERIOD"
    "2 + 2 * length (expand (tb_code q, tb_rep q)) \<le> MAX_TIME_SEQ_LEN"
  shows "\<exists>ws. unpack_seq r c q = Some ws"
proof -
  let ?f = "\<lambda>st. replicate 2 (decodestate r c st)"
  have len: "length (concat (map ?f v)) = length v * 2" for v by (induction v) simp_all
  have "unpack_runs r c 2 (zip (tb_code q) (tb_rep q)) = concat (map ?f (expand (tb_code q, tb_rep q)))"
    using unpack_runs_expand [of 2 "tb_code q" "tb_rep q" r c] assms(2) by simp
  then have "length (unpack_runs r c 2 (zip (tb_code q) (tb_rep q))) = length (expand (tb_code q, tb_rep q)) * 2" by (simp only: len)
  then show ?thesis using assms by (simp add: unpack_seq_def pad_two seq_step_tick Let_def)
qed

lemma pretrigger_cases:
  assumes "timing_pretrigger_msg m ws t = Some (t', ws', out)"
  obtains t0 i where "t' = (start_dma t0)\<lparr>td_old_seq_id := i\<rparr>" "td_card t0 = td_card t"
proof -
  obtain t0 where t0: "(if seq_id (ready_clients (td_ready t)) \<noteq> td_old_seq_id t
      then Option.bind (client_bufs t (ready_clients (td_ready t))) (\<lambda>bufs. build_master bufs t) else Some t) = Some t0"
    "\<exists>i. t' = (start_dma t0)\<lparr>td_old_seq_id := i\<rparr>"
    using assms by (fastforce simp: timing_pretrigger_msg_def Let_def bind_eq_Some_conv split del: if_split)
  have "td_card t1 = td_card t" if "build_master bufs t = Some t1" for bufs t1
    using that by (auto simp: build_master_def Let_def bind_eq_Some_conv)
  then have "td_card t0 = td_card t" using t0(1) by (auto simp: bind_eq_Some_conv split: if_split_asm)
  then show thesis using that t0(2) by blast
qed

section \<open>Properties\<close>

lemma pretrigger_reports:
  assumes "seq_id (ready_clients (td_ready t)) \<noteq> td_old_seq_id t" "client_bufs t (ready_clients (td_ready t)) = Some bufs"
    "length (tr_start_usec (td_bad t)) = MAX_PULSES" "length (tr_duration_usec (td_bad t)) = MAX_PULSES"
    "length (pulses (\<lambda>j. tr_on (merge_all bufs (td_master t) j)) (longest bufs)) < MAX_PULSES"
  shows "\<exists>t' ps. timing_pretrigger_msg m ws t =
      Some (t', ws, [W_int (int (length ps)), W_uints (map (int \<circ> fst) ps), W_uints (map (int \<circ> snd) ps), W_DriverMsg (m\<lparr>dm_status := 0\<rparr>)]) \<and>
    td_max_seq_count t' = longest bufs \<and> separated ps \<and> covered ps = {j. j < td_max_seq_count t' \<and> tr_on (td_master t' j)}"
proof -
  define ps where "ps = pulses (\<lambda>j. tr_on (merge_all bufs (td_master t) j)) (longest bufs)"
  obtain t1 where t1: "build_master bufs t = Some t1" "td_max_seq_count t1 = longest bufs" "holds_pulses (td_bad t1) ps"
    "\<And>j. tr_on (td_master t1 j) = tr_on (merge_all bufs (td_master t) j)"
    using build_master_pulses [OF assms(3-5)] unfolding ps_def by blast
  have bad: "bad_items (td_bad t1) = Some [W_int (int (length ps)), W_uints (map (int \<circ> fst) ps), W_uints (map (int \<circ> snd) ps)]"
    using t1(3) assms(5) by (simp add: bad_items_def holds_pulses_def ps_def [symmetric])
  let ?t = "(start_dma t1)\<lparr>td_old_seq_id := (if seq_id (ready_clients (td_ready t)) < 0 then -10 else seq_id (ready_clients (td_ready t)))\<rparr>"
  have dma: "td_bad (start_dma t1) = td_bad t1" "td_max_seq_count ?t = td_max_seq_count t1" "td_master ?t = td_master t1"
    by (simp_all add: start_dma_def card_ops_def Let_def)
  have "timing_pretrigger_msg m ws t =
      Some (?t, ws, [W_int (int (length ps)), W_uints (map (int \<circ> fst) ps), W_uints (map (int \<circ> snd) ps), W_DriverMsg (m\<lparr>dm_status := 0\<rparr>)])"
    using assms(1) by (simp add: timing_pretrigger_msg_def Let_def assms(2) t1(1) dma(1) bad)
  moreover have "separated ps" "covered ps = {j. j < longest bufs \<and> tr_on (td_master t1 j)}"
    using pulses_ok [of "\<lambda>j. tr_on (merge_all bufs (td_master t) j)" "longest bufs"] by (simp_all add: ps_def t1(4))
  ultimately show ?thesis using dma(2,3) t1(2) by (intro exI [of _ ?t] exI [of _ ps]) (simp only: simp_thms)
qed

text \<open>
  C7: the reported transmit times are exact. Before a trigger with a new set of clients and fewer than \<^verbatim>\<open>MAX_PULSES\<close>
  pulses, the driver answers with the starts and lengths of disjoint, separated intervals whose
  union is exactly the set of the samples of the master sequence with the transmit/receive line on.
\<close>

theorem transmit_times_exact:
  assumes "seq_id (ready_clients (td_ready t)) \<noteq> td_old_seq_id t" "client_bufs t (ready_clients (td_ready t)) = Some bufs"
    "length (tr_start_usec (td_bad t)) = MAX_PULSES" "length (tr_duration_usec (td_bad t)) = MAX_PULSES"
    "length (pulses (\<lambda>j. tr_on (merge_all bufs (td_master t) j)) (longest bufs)) < MAX_PULSES"
  shows "\<exists>t' ps. timing_pretrigger_msg m ws t =
      Some (t', ws, [W_int (int (length ps)), W_uints (map (int \<circ> fst) ps), W_uints (map (int \<circ> snd) ps), W_DriverMsg (m\<lparr>dm_status := 0\<rparr>)]) \<and>
    td_max_seq_count t' = longest bufs \<and> separated ps \<and> covered ps = {j. j < td_max_seq_count t' \<and> tr_on (td_master t' j)}"
  by (rule pretrigger_reports [OF assms])

text \<open>
  C30: the merge of the clients. After a rebuild, every line of the card except the stamp and trigger bits is on in a
  sample exactly when some client has it on there, or when the sample lies beyond the end of the first client's
  sequence and the line was on in the previous master sequence.
\<close>

theorem master_merges_clients:
  assumes "timing_pretrigger_msg m ws t = Some (t', ws', out)" "seq_id (ready_clients (td_ready t)) \<noteq> td_old_seq_id t"
    "client_bufs t (ready_clients (td_ready t)) = Some bufs" "bufs \<noteq> []" "b \<notin> {2, 7, 14, 15}"
  shows "bit (td_master t' j) b \<longleftrightarrow>
    (\<exists>buf \<in> set bufs. j < length buf \<and> bit (buf ! j) b) \<or> (length (hd bufs) \<le> j \<and> bit (td_master t j) b)"
proof -
  obtain t1 where "build_master bufs t = Some t1" "td_master t' = td_master t1"
    using assms(1-3) by (auto simp: timing_pretrigger_msg_def start_dma_def card_ops_def Let_def bind_eq_Some_conv)
  then show ?thesis using build_master_bit [OF _ assms(4,5)] by simp
qed

text \<open>
  C10: the card receives the sequence. After a pretrigger and a trigger, as long as the card reports no empty or underrun
  FIFO, the interrupt thread comes to an end; by then the card has received every word of the master sequence
  exactly once and in order, and the wait that follows reports success.
\<close>

theorem dma_delivers_master:
  assumes "timing_pretrigger_msg m ws t = Some (t1, ws1, out)" "timing_trigger_msg rd m' ws2 t1 = Some (t2, ws3, out2)" "no_underrun rd"
  shows "\<exists>k t4. \<not> td_writingFIFO ((int_handler rd ^^ k) t2) \<and>
    delivered (td_master t1) (drop (length (td_card t)) (td_card ((int_handler rd ^^ k) t2))) = map (td_master t1) [0..<td_max_seq_count t1] \<and>
    timing_wait_msg False m'' wq ((int_handler rd ^^ k) t2) = Some (t4, wq, [W_DriverMsg (m''\<lparr>dm_status := 0\<rparr>)])"
proof -
  obtain t0 i where t0: "t1 = (start_dma t0)\<lparr>td_old_seq_id := i\<rparr>" "td_card t0 = td_card t" by (rule pretrigger_cases [OF assms(1)])
  then have t1: "td_max_seq_count t1 = td_max_seq_count t0" "td_xfercount t1 = first_xfer (td_max_seq_count t0)"
    "td_card t1 = td_card t @ [Out32 0x04 0x041, Out32 0x04 0x641, Xfer 0 (first_xfer (td_max_seq_count t0))]"
    by (simp_all add: start_dma_def card_ops_def Let_def)
  let ?k = "length (td_card t)" and ?m = "td_master t1"
  have t2: "td_max_seq_count t2 = td_max_seq_count t1" "td_xfercount t2 = td_xfercount t1" "td_writingFIFO t2"
    "td_card t2 = td_card t1 @ [Out32 0x0c (rd 0x0c OR 0x04), Out32 0x04 0x0141]"
    using assms(2) by (auto simp: timing_trigger_msg_def card_ops_def)
  have le: "td_xfercount t2 \<le> td_max_seq_count t2" by (simp add: t2 t1 first_xfer_def timing_consts)
  have d: "delivered ?m (drop ?k (td_card t2)) = map ?m [0..<td_xfercount t2]" "?k \<le> length (td_card t2)" by (simp_all add: t2 t1)
  have "\<exists>i. \<not> td_writingFIFO ((int_handler rd ^^ i) t2) \<and> td_xfercount ((int_handler rd ^^ i) t2) = td_max_seq_count t2 \<and>
    td_max_seq_count ((int_handler rd ^^ i) t2) = td_max_seq_count t2 \<and> delivered ?m (drop ?k (td_card ((int_handler rd ^^ i) t2))) = map ?m [0..<td_max_seq_count t2]"
  proof (cases "td_xfercount t2 < td_max_seq_count t2")
    case True
    then show ?thesis using int_handler_runs [OF assms(3) le _ d] t2(3) by simp
  next
    case False
    then show ?thesis using le t2(3) d by (intro exI [of _ 1]) (simp add: int_handler_def)
  qed
  then obtain i where i: "\<not> td_writingFIFO ((int_handler rd ^^ i) t2)" "td_xfercount ((int_handler rd ^^ i) t2) = td_max_seq_count t2"
    "td_max_seq_count ((int_handler rd ^^ i) t2) = td_max_seq_count t2" "delivered ?m (drop ?k (td_card ((int_handler rd ^^ i) t2))) = map ?m [0..<td_max_seq_count t1]"
    unfolding t2(1) by blast
  have "\<exists>t4. timing_wait_msg False m'' wq ((int_handler rd ^^ i) t2) = Some (t4, wq, [W_DriverMsg (m''\<lparr>dm_status := 0\<rparr>)])"
    using i(1-3) by (simp add: timing_wait_msg_def)
  then show ?thesis using i(1,4) by blast
qed

text \<open>
  C9: the sequence generator and the timing card agree on the gate. A pulse sequence made by \<^verbatim>\<open>TSGMake\<close> that fits into the buffer is
  unpacked into two samples per clock tick, behind two leading zeros, such that in every tick
  in which the transmitter is keyed the transmit/receive line of the card is on, and when the transmission
  starts there it has been on for the 12 samples (60 microseconds) before.
\<close>

theorem card_gate_guards_transmitter:
  assumes "tsg_usable prm" "TSGMake mem prm index = Some (prm', flg, Some q)" "0 \<le> r" "0 \<le> c"
    "w = expand (tb_code q, tb_rep q)" "2 + 2 * length w \<le> MAX_TIME_SEQ_LEN" "i < length w" "transmits (w ! i)"
  shows "\<exists>ws. unpack_seq r c q = Some ws \<and> (\<forall>d < 2. tr_on (ws ! (2 + (2 * i + d)))) \<and>
    (0 < i \<and> transmits (w ! (i - 1)) \<or> 6 \<le> i \<and> (\<forall>j. 2 * i - 12 \<le> j \<and> j < 2 * i \<longrightarrow> tr_on (ws ! (2 + j))))"
proof -
  note made = TSGMake_made [OF assms(1,2)] TSGMake_step [OF assms(2)]
  obtain ws where ws: "unpack_seq r c q = Some ws" using unpack_seq_returns [OF made(2,3,5)] assms(5,6) by blast
  have gate: "tr_on (ws ! (2 + j))" if "gated (w ! (j div 2))" "j div 2 < length w" for j
    using unpack_gate(2) [OF ws made(2,3,5) assms(3,4), of "j div 2" "j mod 2"] that by (simp add: assms(5) [symmetric] gated_def)
  have g: "gated (w ! i)" "0 < i \<and> transmits (w ! (i - 1)) \<or> 6 \<le> i \<and> (\<forall>k \<in> {1..6}. gated (w ! (i - k)))"
    using made(4) assms(7,8) by (auto simp: guarded_def assms(5))
  have "tr_on (ws ! (2 + (2 * i + d)))" if "d < 2" for d using gate [of "2 * i + d"] g(1) assms(7) that by simp
  moreover have "tr_on (ws ! (2 + j))" if "6 \<le> i" "\<forall>k \<in> {1..6}. gated (w ! (i - k))" "2 * i - 12 \<le> j" "j < 2 * i" for j
  proof -
    have "i - j div 2 \<in> {1..6}" "i - (i - j div 2) = j div 2" using that(1,3,4) by auto
    then show ?thesis using gate [of j] that(2) assms(7) that(4) by fastforce
  qed
  ultimately show ?thesis using ws g(2) by blast
qed


section \<open>Examples\<close>

text \<open>A client on radar 1, channel 1 with a sequence of three samples, the last two with the gate on.\<close>

definition one_client :: timing where
  "one_client = \<lparr>td_ready = \<lparr>rt_clients = replicate maxclients (plain_prm 1 1 0), rt_num = 1, rt_index = (replicate maxclients (-1))[0 := 0]\<rparr>,
     td_pulseseqs = replicate maxclients (replicate MAX_SEQS None), td_seq = [0, 3, 2] # replicate 7 [], td_master = (\<lambda>_. 0),
     td_old_seq_id = -10, td_max_seq_count = 0, td_bad = \<lparr>tr_length = 0, tr_start_usec = replicate MAX_PULSES 0, tr_duration_usec = replicate MAX_PULSES 0\<rparr>,
     td_writingFIFO = False, td_xfercount = 0, td_dma_count = 0, td_flags = False, td_card = []\<rparr>"

lemma one_client_simps:
  "ready_clients (td_ready one_client) = [plain_prm 1 1 0]" "td_old_seq_id one_client = -10" "seq_id [plain_prm 1 1 0] = 0"
  "client_bufs one_client [plain_prm 1 1 0] = Some [[0, 3, 2]]" "td_master one_client j = 0"
  "length (tr_start_usec (td_bad one_client)) = MAX_PULSES" "length (tr_duration_usec (td_bad one_client)) = MAX_PULSES"
  by (simp_all add: one_client_def ready_clients_def seq_id_def plain_prm_def prm_cell_def cell_def site_consts aref_def)

lemma one_client_pulses: "longest [[0, 3, 2]] = 3" "pulses (\<lambda>j. tr_on (merge_all [[0, 3, 2]] (td_master one_client) j)) 3 = [(1, 2)]"
  by (simp_all add: longest_def merge_all_def overwrite_def tr_on_def numeral_eq_Suc)

theorem transmit_times_exact_witness:
  "\<exists>t' ps. timing_pretrigger_msg \<lparr>dm_type = PRETRIGGER_code, dm_status = 1\<rparr> [] one_client =
      Some (t', [], [W_int (int (length ps)), W_uints (map (int \<circ> fst) ps), W_uints (map (int \<circ> snd) ps), drv_msg PRETRIGGER_code 0]) \<and>
    td_max_seq_count t' = 3 \<and> covered ps = {j. j < 3 \<and> tr_on (td_master t' j)}"
proof -
  have "length (pulses (\<lambda>j. tr_on (merge_all [[0, 3, 2]] (td_master one_client) j)) (longest [[0, 3, 2]])) < MAX_PULSES"
    unfolding one_client_pulses by (simp add: MAX_PULSES_def)
  from transmit_times_exact [OF _ _ one_client_simps(6,7) this, of "\<lparr>dm_type = PRETRIGGER_code, dm_status = 1\<rparr>" "[]"]
  show ?thesis unfolding one_client_simps(1-4) one_client_pulses(1) by fastforce
qed

lemma one_client_pretrigger:
  "\<exists>t' out. timing_pretrigger_msg \<lparr>dm_type = PRETRIGGER_code, dm_status = 1\<rparr> [] one_client = Some (t', [], out) \<and> td_max_seq_count t' = 3"
proof -
  have "length (pulses (\<lambda>j. tr_on (merge_all [[0, 3, 2]] (td_master one_client) j)) (longest [[0, 3, 2]])) < MAX_PULSES"
    unfolding one_client_pulses by (simp add: MAX_PULSES_def)
  from build_master_pulses [OF one_client_simps(6,7) this] obtain t1 where t1: "build_master [[0, 3, 2]] one_client = Some t1" "td_max_seq_count t1 = 3"
    "holds_pulses (td_bad t1) [(1, 2)]"
    unfolding one_client_pulses by blast
  have "bad_items (td_bad (start_dma t1)) \<noteq> None" using t1(3) by (simp add: bad_items_def holds_pulses_def start_dma_def card_ops_def Let_def MAX_PULSES_def)
  moreover have "td_max_seq_count (start_dma t1) = 3" using t1(2) by (simp add: start_dma_def card_ops_def Let_def)
  ultimately show ?thesis using t1(1) by (auto simp: timing_pretrigger_msg_def Let_def one_client_simps simp del: client_bufs.simps)
qed

theorem master_merges_clients_witness:
  "\<exists>t' out. timing_pretrigger_msg \<lparr>dm_type = PRETRIGGER_code, dm_status = 1\<rparr> [] one_client = Some (t', [], out) \<and> bit (td_master t' 2) 1 \<and> \<not> bit (td_master t' 0) 1"
proof -
  obtain t' out where t': "timing_pretrigger_msg \<lparr>dm_type = PRETRIGGER_code, dm_status = 1\<rparr> [] one_client = Some (t', [], out)"
    using one_client_pretrigger by blast
  have id: "seq_id (ready_clients (td_ready one_client)) \<noteq> td_old_seq_id one_client" "client_bufs one_client (ready_clients (td_ready one_client)) = Some [[0, 3, 2]]"
    by (simp_all add: one_client_simps del: client_bufs.simps)
  show ?thesis using master_merges_clients [OF t' id, of 1 2] master_merges_clients [OF t' id, of 1 0] t' by simp
qed

theorem dma_delivers_master_witness:
  "\<exists>t1 out k t4. timing_pretrigger_msg \<lparr>dm_type = PRETRIGGER_code, dm_status = 1\<rparr> [] one_client = Some (t1, [], out) \<and>
    timing_wait_msg False \<lparr>dm_type = WAIT_code, dm_status = 1\<rparr> [] ((int_handler (\<lambda>_. 0) ^^ k)
      (card_ops [Out32 0x0c (0 OR 0x04), Out32 0x04 0x0141] (t1\<lparr>td_writingFIFO := True\<rparr>))) = Some (t4, [], [drv_msg WAIT_code 0])"
proof -
  obtain t1 out where t1: "timing_pretrigger_msg \<lparr>dm_type = PRETRIGGER_code, dm_status = 1\<rparr> [] one_client = Some (t1, [], out)"
    using one_client_pretrigger by blast
  show ?thesis
    using dma_delivers_master [OF t1, where rd = "\<lambda>_. 0" and m'' = "\<lparr>dm_type = WAIT_code, dm_status = 1\<rparr>" and wq = "[]"] t1
    by (fastforce simp: timing_trigger_msg_def no_underrun_def)
qed

definition collided :: timing where
  "collided = one_client\<lparr>td_ready := \<lparr>rt_clients = replicate maxclients (plain_prm 1 2 1), rt_num = 1, rt_index = (replicate maxclients (-1))[1 := 0]\<rparr>,
     td_old_seq_id := seq_id [plain_prm 1 1 0, plain_prm 1 2 0]\<rparr>"


lemma two_pulse_ticks:
  "\<exists>prm' q i. TSGMake (\<lambda>_. True) two_pulse 1 = Some (prm', TSG_OK, Some q) \<and> 2 + 2 * length (expand (tb_code q, tb_rep q)) \<le> MAX_TIME_SEQ_LEN \<and>
    i < length (expand (tb_code q, tb_rep q)) \<and> transmits (expand (tb_code q, tb_rep q) ! i)"
proof -
  have "map_option (\<lambda>(t', f, bo). (f, map_option (\<lambda>q. ((\<lambda>n. 30 \<le> n \<and> n \<le> 3000) (length (expand (tb_code q, tb_rep q))), map transmits [expand (tb_code q, tb_rep q) ! 29])) bo)) (TSGMake (\<lambda>_. True) two_pulse 1) = Some (0, Some (True, [True]))"
    by code_simp
  then obtain prm' q where "TSGMake (\<lambda>_. True) two_pulse 1 = Some (prm', TSG_OK, Some q)" "30 \<le> length (expand (tb_code q, tb_rep q))" "length (expand (tb_code q, tb_rep q)) \<le> 3000"
    "transmits (expand (tb_code q, tb_rep q) ! 29)" by auto
  then show ?thesis by (intro exI [of _ prm'] exI [of _ q] exI [of _ 29]) (simp add: MAX_TIME_SEQ_LEN_def)
qed

theorem card_gate_guards_transmitter_witness:
  "\<exists>prm' q i ws. TSGMake (\<lambda>_. True) two_pulse 1 = Some (prm', TSG_OK, Some q) \<and> transmits (expand (tb_code q, tb_rep q) ! i) \<and>
    unpack_seq 0 0 q = Some ws \<and> tr_on (ws ! (2 + (2 * i + 1)))"
proof -
  obtain prm' q i where q: "TSGMake (\<lambda>_. True) two_pulse 1 = Some (prm', TSG_OK, Some q)" "2 + 2 * length (expand (tb_code q, tb_rep q)) \<le> MAX_TIME_SEQ_LEN"
    "i < length (expand (tb_code q, tb_rep q))" "transmits (expand (tb_code q, tb_rep q) ! i)" using two_pulse_ticks by blast
  from card_gate_guards_transmitter [OF two_pulse_usable q(1) order_refl order_refl refl q(2-4)] obtain ws where
    "unpack_seq 0 0 q = Some ws" "\<forall>d < 2. tr_on (ws ! (2 + (2 * i + d)))" by blast
  then show ?thesis using q(1,4) one_less_numeral_iff semiring_norm(76) by blast
qed

end
