(* ===== verification/Dio_Driver.thy ===== *)
theory Dio_Driver
  imports Driver_Common
begin

text \<open>
  The driver of the digital I/O card, \<^verbatim>\<open>dio_tcp_driver\<close>, in its QNX build for the five-group card
  (\<^verbatim>\<open>DEVICE_ID\<close> 0x0c78): beam and card selection for the phasing matrix, the status of the transmitters
  and the address of the receiver front end. The output ports are the state of the card; what a read of a port returns is
  an argument that may depend on them. The lemmas show that the beam on the ports is that of the client with the best priority, that
  the status of every transmitter is read, and that receiver settings and addresses are in bijection.
\<close>

section \<open>Ports\<close>

definition MAX_BEAM :: int where "MAX_BEAM = 23"

definition PA_GRP :: "nat \<Rightarrow> nat" where "PA_GRP g = 4 * g"
definition PB_GRP :: "nat \<Rightarrow> nat" where "PB_GRP g = 4 * g + 1"
definition PC_GRP :: "nat \<Rightarrow> nat" where "PC_GRP g = 4 * g + 2"

lemmas port_defs = PA_GRP_def PB_GRP_def PC_GRP_def

type_synonym ports = "nat \<Rightarrow> u8"

text \<open>The groups of output and status ports of a radar.\<close>

definition beam_group :: "int \<Rightarrow> nat" where
  "beam_group radar = (if radar = 2 then 2 else 0)"

definition status_group :: "int \<Rightarrow> nat" where
  "status_group radar = (if radar = 2 then 3 else 1)"

section \<open>Beam selection\<close>

definition reverse_bits :: "u32 \<Rightarrow> u32" where
  "reverse_bits x = push_bit 12 (x AND 1) + push_bit 10 (x AND 2) + push_bit 8 (x AND 4) + push_bit 6 (x AND 8) +
     push_bit 4 (x AND 16) + push_bit 2 (x AND 32) + (x AND 64) + drop_bit 2 (x AND 128) + drop_bit 4 (x AND 256) +
     drop_bit 6 (x AND 512) + drop_bit 8 (x AND 1024) + drop_bit 10 (x AND 2048) + drop_bit 12 (x AND 4096)"

text \<open>The table read from the beam table file of a radar. Its address is looked up but not used.\<close>

record beam_table =
  bt_freqs :: "real list"
  bt_num_freqs :: int
  bt_num_std_angles :: int
  bt_offset :: int

definition clamp_index :: "int \<Rightarrow> int \<Rightarrow> int" where
  "clamp_index n i = (let j = (if i \<ge> n then n - 1 else i) in if j < 0 then 0 else j)"

definition lookup_beamnm :: "beam_table option list \<Rightarrow> int \<Rightarrow> real \<Rightarrow> int \<Rightarrow> int option" where
  "lookup_beamnm tables r freq beamnm = do {
     tab \<leftarrow> aref tables r;
     case tab of
       None \<Rightarrow> Some 0
     | Some b \<Rightarrow> do {
         f0 \<leftarrow> aref (bt_freqs b) 0;
         f1 \<leftarrow> aref (bt_freqs b) 1;
         if f1 - f0 = 0 then None else
           (let fi = clamp_index (bt_num_freqs b) (cint (real_of_int (cint (freq - f0)) / (f1 - f0)));
                bi = clamp_index (bt_num_std_angles b) beamnm
            in Some (bi + fi * bt_num_freqs b + bt_offset b))
       }
   }"

definition beam_number :: "int \<Rightarrow> int" where
  "beam_number tbeam = (if tbeam > MAX_BEAM \<or> tbeam < 0 then 0 else tbeam)"

text \<open>Writes the reversed code to ports A and B and reads it back: 0 when it is there, -1 otherwise.\<close>

definition select_beam :: "(ports \<Rightarrow> ports) \<Rightarrow> beam_table option list \<Rightarrow> ControlPRM \<Rightarrow> ports \<Rightarrow> (int \<times> ports) option" where
  "select_beam rd tables q p = do {
     let beamnm = beam_number (pr_tbeam q);
     _ \<leftarrow> lookup_beamnm tables (pr_radar q - 1) (real_of_int (pr_tfreq q) * 1000) beamnm;
     let code = reverse_bits (of_int beamnm);
     if uint code > 8192 then Some (-1, p)
     else if pr_radar q \<noteq> 1 \<and> pr_radar q \<noteq> 2 then None
     else (let g = beam_group (pr_radar q);
               p1 = p(PA_GRP g := ucast (code AND 0xff));
               p2 = p1(PB_GRP g := ucast (drop_bit 8 (code AND 0x1f00)));
               back = push_bit 8 (ucast (rd p2 (PB_GRP g)) AND 0x1f) + ucast (rd p2 (PA_GRP g))
           in Some (if back = code then 0 else -1, p2))
   }"

text \<open>The card address goes to bits 1 to 5 of port C; the other bits keep what is read there.\<close>

definition select_card :: "(ports \<Rightarrow> ports) \<Rightarrow> ControlPRM \<Rightarrow> ports \<Rightarrow> int \<times> ports" where
  "select_card rd q p =
    (let g = beam_group (pr_radar q); address = pr_tbeam q in
     if address > 31 \<or> address < 0 then (-1, p)
     else let v = (push_bit 1 (of_int address) AND 0x3e) + (rd p (PC_GRP g) AND 0xc1);
              p1 = p(PC_GRP g := v)
          in (if rd p1 (PC_GRP g) = v then 0 else -1, p1))"

section \<open>Receiver front end\<close>

definition build_RXFE_EEPROM_address :: "RXFESettings \<Rightarrow> int" where
  "build_RXFE_EEPROM_address x = 15 - (if rx_att1 x = 1 then 1 else 0) - (if rx_att2 x = 1 then 2 else 0)
     - (if rx_att3 x = 1 then 4 else 0) - (if rx_att4 x = 1 then 8 else 0)
     + (if rx_amp1 x = 1 then 16 else 0) + (if rx_amp2 x = 1 then 64 else 0) + (if rx_amp3 x = 1 then 128 else 0)
     + (if rx_ifmode x = 1 then 32 else 0)"

definition set_RXFE_EEPROM_address :: "u8 \<Rightarrow> ports \<Rightarrow> ports" where
  "set_RXFE_EEPROM_address a p = p(PB_GRP 4 := a)"

section \<open>Transmitter status\<close>

definition select_tx :: "(ports \<Rightarrow> ports) \<Rightarrow> int \<Rightarrow> int \<Rightarrow> ports \<Rightarrow> int \<times> ports" where
  "select_tx rd radar address p =
    (if radar > int MAX_RADARS \<or> radar \<le> 0 then (-1, p)
     else if address \<ge> int MAX_TRANSMITTERS \<or> address < 0 then (-1, p)
     else let c = PC_GRP (status_group radar);
              p1 = p(c := push_bit 4 (of_int address) + (rd p c AND 0xF))
          in (if uint (drop_bit 4 (rd p1 c) AND 0xF) = address then 0 else -2, p1))"

fun status_loop :: "(ports \<Rightarrow> ports) \<Rightarrow> int \<Rightarrow> nat list \<Rightarrow> int \<Rightarrow> tx_status \<Rightarrow> ports \<Rightarrow> int \<times> tx_status \<times> ports" where
  "status_loop rd radar [] ret tx p = (ret, tx, p)"
| "status_loop rd radar (a # as) ret tx p =
    (case select_tx rd radar (int a) p of (st, p1) \<Rightarrow>
       if st = 0 then
         (let v = rd p1 (PC_GRP (status_group radar)) in
          status_loop rd radar as ret (tx\<lparr>tx_stat := (tx_stat tx)[a := uint (v AND 0xf)],
             tx_AGC := (tx_AGC tx)[a := uint (drop_bit 2 (v AND 4))], tx_LOWPWR := (tx_LOWPWR tx)[a := uint (drop_bit 1 (v AND 2))]\<rparr>) p1)
       else status_loop rd radar as (-1) tx p1)"

definition get_status :: "(ports \<Rightarrow> ports) \<Rightarrow> int \<Rightarrow> tx_status \<Rightarrow> ports \<Rightarrow> int \<times> tx_status \<times> ports" where
  "get_status rd radar tx p =
    (if radar > int MAX_RADARS \<or> radar \<le> 0 then (-1, tx, p)
     else status_loop rd radar [0..<MAX_TRANSMITTERS] 0 tx p)"

section \<open>Messages\<close>

record dio =
  di_ports :: ports
  di_ready :: ready_table
  di_tables :: "beam_table option list"
  di_ifmode :: int
  di_rf_addr :: u8
  di_if_addr :: u8
  di_txstatus :: tx_status

type_synonym dio_reply = "(dio \<times> wire list \<times> wire list) option"

definition dio_ready_msg :: "DriverMsg \<Rightarrow> wire list \<Rightarrow> dio \<Rightarrow> dio_reply" where
  "dio_ready_msg m ws t = do {
     (q, ws) \<leftarrow> rx_prm ws;
     rt \<leftarrow> add_ready q (di_ready t);
     Some (t\<lparr>di_ready := wrap_ready rt\<rparr>, ws, [W_DriverMsg (m\<lparr>dm_status := 1\<rparr>)])
   }"

definition dio_status_msg :: "(ports \<Rightarrow> ports) \<Rightarrow> DriverMsg \<Rightarrow> wire list \<Rightarrow> dio \<Rightarrow> dio_reply" where
  "dio_status_msg rd m ws t = do {
     (r, ws) \<leftarrow> rx_int ws;
     let (st, tx, p) = get_status rd r (di_txstatus t) (di_ports t);
     Some (t\<lparr>di_txstatus := tx, di_ports := p\<rparr>, ws, [W_tx tx, W_DriverMsg (m\<lparr>dm_status := st\<rparr>)])
   }"

text \<open>The client of a radar with the lowest priority number, the first one in case of a tie.\<close>

fun best_client :: "int \<Rightarrow> ControlPRM list \<Rightarrow> ControlPRM option \<Rightarrow> ControlPRM option" where
  "best_client r [] best = best"
| "best_client r (q # qs) best =
    best_client r qs
      (if pr_radar q = r then (case best of None \<Rightarrow> Some q | Some b \<Rightarrow> if pr_priority q < pr_priority b then Some q else best)
       else best)"

definition point_radar :: "(ports \<Rightarrow> ports) \<Rightarrow> beam_table option list \<Rightarrow> ControlPRM list \<Rightarrow> int \<Rightarrow> ports \<Rightarrow> ports option" where
  "point_radar rd tables qs r p =
    (case best_client r qs None of
       None \<Rightarrow> Some p
     | Some q \<Rightarrow> map_option snd (select_beam rd tables q (snd (select_card rd q p))))"

fun point_radars :: "(ports \<Rightarrow> ports) \<Rightarrow> beam_table option list \<Rightarrow> ControlPRM list \<Rightarrow> int list \<Rightarrow> ports \<Rightarrow> ports option" where
  "point_radars rd tables qs [] p = Some p"
| "point_radars rd tables qs (r # rs) p = Option.bind (point_radar rd tables qs r p) (point_radars rd tables qs rs)"

definition dio_pretrigger_msg :: "(ports \<Rightarrow> ports) \<Rightarrow> DriverMsg \<Rightarrow> wire list \<Rightarrow> dio \<Rightarrow> dio_reply" where
  "dio_pretrigger_msg rd m ws t = do {
     p \<leftarrow> point_radars rd (di_tables t) (ready_clients (di_ready t)) [1..int MAX_RADARS] (di_ports t);
     Some (t\<lparr>di_ports := p, di_ready := clear_ready (di_ready t)\<rparr>, ws, [W_DriverMsg (m\<lparr>dm_status := 1\<rparr>)])
   }"

definition dio_clrfreq_msg :: "(ports \<Rightarrow> ports) \<Rightarrow> DriverMsg \<Rightarrow> wire list \<Rightarrow> dio \<Rightarrow> dio_reply" where
  "dio_clrfreq_msg rd m ws t = do {
     (q, ws) \<leftarrow> rx_prm ws;
     (st, p) \<leftarrow> select_beam rd (di_tables t) q (snd (select_card rd q (di_ports t)));
     let p1 = (if di_ifmode t \<noteq> 0 then set_RXFE_EEPROM_address (di_rf_addr t) p else p);
     Some (t\<lparr>di_ports := p1\<rparr>, ws, [W_DriverMsg (m\<lparr>dm_status := 1\<rparr>)])
   }"

definition apply_rxfe :: "dio \<Rightarrow> dio" where
  "apply_rxfe t = t\<lparr>di_ports := set_RXFE_EEPROM_address (if di_ifmode t \<noteq> 0 then di_if_addr t else di_rf_addr t) (di_ports t)\<rparr>"

definition dio_rxfe_reset_msg :: "DriverMsg \<Rightarrow> wire list \<Rightarrow> dio \<Rightarrow> dio_reply" where
  "dio_rxfe_reset_msg m ws t = Some (apply_rxfe t, ws, [W_DriverMsg (m\<lparr>dm_status := 1\<rparr>)])"

definition dio_rxfe_settings_msg :: "DriverMsg \<Rightarrow> wire list \<Rightarrow> dio \<Rightarrow> dio_reply" where
  "dio_rxfe_settings_msg m ws t = do {
     (mode, ws) \<leftarrow> rx_int ws;
     (rf, ws) \<leftarrow> rx_rxfe ws;
     (ifs, ws) \<leftarrow> rx_rxfe ws;
     Some (apply_rxfe (t\<lparr>di_ifmode := mode, di_rf_addr := of_int (build_RXFE_EEPROM_address rf),
       di_if_addr := of_int (build_RXFE_EEPROM_address ifs)\<rparr>), ws, [W_DriverMsg m])
   }"

definition dio_msg :: "(ports \<Rightarrow> ports) \<Rightarrow> wire list \<Rightarrow> dio \<Rightarrow> dio_reply" where
  "dio_msg rd ws t = do {
     (m, ws) \<leftarrow> rx_msg ws;
     (if dm_type m = CtrlProg_READY_code then dio_ready_msg m ws t
      else if dm_type m = GET_TX_STATUS_code then dio_status_msg rd m ws t
      else if dm_type m = PRETRIGGER_code then dio_pretrigger_msg rd m ws t
      else if dm_type m = CLRFREQ_code then dio_clrfreq_msg rd m ws t
      else if dm_type m = RXFE_RESET_code then dio_rxfe_reset_msg m ws t
      else if dm_type m = RXFE_SETTINGS_code then dio_rxfe_settings_msg m ws t
      else Some (t, ws, []))
   }"

section \<open>Bit reversal\<close>

definition mirrored :: "u32 \<Rightarrow> nat \<Rightarrow> u32" where
  "mirrored x i = (if bit x i then push_bit (12 - i) 1 else 0)"

lemma bit_add_new:
  fixes a :: u32
  assumes "\<not> bit a k" "k < 32"
  shows "bit (a + (if b then push_bit k 1 else 0)) n \<longleftrightarrow> bit a n \<or> (n = k \<and> b)"
proof (cases b)
  case True
  have "a AND push_bit k 1 = 0" using assms(1) by (intro bit_eqI) (auto simp: bit_and_iff bit_exp_iff)
  then have "a + push_bit k 1 = a OR push_bit k 1" by (rule disjunctive_add_eq_or)
  then show ?thesis using True assms(2) by (auto simp: bit_or_iff bit_exp_iff)
qed simp

lemma mirrored_sum:
  "m \<le> 13 \<Longrightarrow> bit (\<Sum>i \<leftarrow> [0..<m]. mirrored x i) n \<longleftrightarrow> (\<exists>i < m. n = 12 - i \<and> bit x i)"
proof (induction m arbitrary: n)
  case (Suc m)
  let ?s = "\<Sum>i \<leftarrow> [0..<m]. mirrored x i"
  have ih: "bit ?s n \<longleftrightarrow> (\<exists>i < m. n = 12 - i \<and> bit x i)" for n using Suc by simp
  have "\<not> bit ?s (12 - m)" unfolding ih using Suc.prems by auto
  from bit_add_new [OF this, of "bit x m" n] have "bit (?s + mirrored x m) n \<longleftrightarrow> bit ?s n \<or> (n = 12 - m \<and> bit x m)" by (simp add: mirrored_def)
  then show ?case unfolding ih by (auto simp: less_Suc_eq)
qed simp

lemma mirrored_terms:
  "push_bit 12 (x AND 1) = mirrored x 0" "push_bit 10 (x AND 2) = mirrored x 1" "push_bit 8 (x AND 4) = mirrored x 2"
  "push_bit 6 (x AND 8) = mirrored x 3" "push_bit 4 (x AND 16) = mirrored x 4" "push_bit 2 (x AND 32) = mirrored x 5" "x AND 64 = mirrored x 6"
  "drop_bit 2 (x AND 128) = mirrored x 7" "drop_bit 4 (x AND 256) = mirrored x 8" "drop_bit 6 (x AND 512) = mirrored x 9"
  "drop_bit 8 (x AND 1024) = mirrored x 10" "drop_bit 10 (x AND 2048) = mirrored x 11" "drop_bit 12 (x AND 4096) = mirrored x 12"
proof -
  have p: "x AND push_bit k 1 = (if bit x k then push_bit k 1 else 0)" for k
    by (intro bit_eqI) (auto simp: bit_and_iff bit_exp_iff)
  show "push_bit 12 (x AND 1) = mirrored x 0" using p [of 0] by (simp add: mirrored_def)
  show "push_bit 10 (x AND 2) = mirrored x 1" using p [of 1] by (simp add: mirrored_def)
  show "push_bit 8 (x AND 4) = mirrored x 2" using p [of 2] by (simp add: mirrored_def)
  show "push_bit 6 (x AND 8) = mirrored x 3" using p [of 3] by (simp add: mirrored_def)
  show "push_bit 4 (x AND 16) = mirrored x 4" using p [of 4] by (simp add: mirrored_def)
  show "push_bit 2 (x AND 32) = mirrored x 5" using p [of 5] by (simp add: mirrored_def)
  show "x AND 64 = mirrored x 6" using p [of 6] by (simp add: mirrored_def)
  show "drop_bit 2 (x AND 128) = mirrored x 7" using p [of 7] by (simp add: mirrored_def)
  show "drop_bit 4 (x AND 256) = mirrored x 8" using p [of 8] by (simp add: mirrored_def)
  show "drop_bit 6 (x AND 512) = mirrored x 9" using p [of 9] by (simp add: mirrored_def)
  show "drop_bit 8 (x AND 1024) = mirrored x 10" using p [of 10] by (simp add: mirrored_def)
  show "drop_bit 10 (x AND 2048) = mirrored x 11" using p [of 11] by (simp add: mirrored_def)
  show "drop_bit 12 (x AND 4096) = mirrored x 12" using p [of 12] by (simp add: mirrored_def)
qed

lemma reverse_bits_bit: "bit (reverse_bits x) n \<longleftrightarrow> n \<le> 12 \<and> bit x (12 - n)"
proof -
  have u: "[0..<13] = [0, 1, 2, 3, 4, 5, 6, 7, 8, 9, 10, 11, 12]" by (simp add: upt_rec numeral_eq_Suc)
  have "reverse_bits x = (\<Sum>i \<leftarrow> [0..<13]. mirrored x i)" unfolding reverse_bits_def mirrored_terms u by (simp add: add.assoc)
  moreover have "(\<exists>i < 13. n = 12 - i \<and> bit x i) \<longleftrightarrow> n \<le> 12 \<and> bit x (12 - n)"
    by (auto intro: exI [of _ "12 - n"])
  ultimately show ?thesis using mirrored_sum [of 13 x n] by simp
qed

lemma reverse_reverse:
  assumes "\<And>n. bit x n \<Longrightarrow> n \<le> 12"
  shows "reverse_bits (reverse_bits x) = x"
  by (rule bit_eqI) (use assms in \<open>auto simp: reverse_bits_bit\<close>)

section \<open>Beams\<close>

text \<open>What the beam ports of a radar stand for.\<close>

definition shown_beam :: "int \<Rightarrow> ports \<Rightarrow> u32" where
  "shown_beam radar p = reverse_bits (ucast (p (PA_GRP (beam_group radar))) OR push_bit 8 (ucast (p (PB_GRP (beam_group radar)))))"

lemma code_bytes: "(ucast (ucast (c AND 0xff :: u32) :: u8) OR push_bit 8 (ucast (ucast (drop_bit 8 (c AND 0x1f00)) :: u8)) :: u32) = c AND 0x1fff"
proof (rule bit_eqI)
  fix n :: nat assume "possible_bit TYPE(u32) n"
  have m: "(0xff :: u32) = mask 8" "(0x1fff :: u32) = mask 13" "(0x1f00 :: u32) = push_bit 8 (mask 5)" by (simp_all add: mask_eq_exp_minus_1)
  show "bit (ucast (ucast (c AND 0xff :: u32) :: u8) OR push_bit 8 (ucast (ucast (drop_bit 8 (c AND 0x1f00)) :: u8)) :: u32) n = bit (c AND 0x1fff) n"
    unfolding m by (auto simp: bit_simps)
qed

lemma beam_code_small:
  assumes "0 \<le> b" "b \<le> MAX_BEAM" "bit (of_int b :: u32) n"
  shows "n \<le> 12"
proof -
  have "bit b n" using assms(3) by (simp add: bit_simps)
  then have "2 ^ n \<le> b" using assms(1) by (metis bit_iff_odd div_pos_pos_trivial even_zero linorder_not_less)
  then have "2 ^ n < (2 :: int) ^ 5" using assms(2) by (simp add: MAX_BEAM_def)
  then show ?thesis using power_less_imp_less_exp [of "2 :: int" n 5] by simp
qed

lemma beam_number_range: "0 \<le> beam_number t" "beam_number t \<le> MAX_BEAM"
  by (auto simp: beam_number_def MAX_BEAM_def)

definition tables_ok :: "beam_table option list \<Rightarrow> bool" where
  "tables_ok tables \<longleftrightarrow> length tables = MAX_RADARS \<and> (\<forall>b. Some b \<in> set tables \<longrightarrow> 2 \<le> length (bt_freqs b) \<and> bt_freqs b ! 0 \<noteq> bt_freqs b ! 1)"

lemma lookup_returns:
  assumes "tables_ok tables" "0 \<le> r" "r < int MAX_RADARS"
  shows "lookup_beamnm tables r freq beamnm \<noteq> None"
proof -
  have r: "aref tables r = Some (tables ! nat r)" "tables ! nat r \<in> set tables" using assms by (auto simp: aref_def tables_ok_def)
  show ?thesis
  proof (cases "tables ! nat r")
    case (Some b)
    then have "2 \<le> length (bt_freqs b)" "bt_freqs b ! 0 \<noteq> bt_freqs b ! 1" using assms(1) r(2) by (auto simp: tables_ok_def)
    then show ?thesis using r(1) Some by (auto simp: lookup_beamnm_def aref_def Let_def)
  qed (simp add: lookup_beamnm_def r(1))
qed

lemma select_beam_shows:
  assumes "tables_ok tables" "pr_radar q = 1 \<or> pr_radar q = 2"
  obtains st p' where "select_beam rd tables q p = Some (st, p')" "shown_beam (pr_radar q) p' = of_int (beam_number (pr_tbeam q))"
    "\<And>a. a \<noteq> PA_GRP (beam_group (pr_radar q)) \<Longrightarrow> a \<noteq> PB_GRP (beam_group (pr_radar q)) \<Longrightarrow> p' a = p a"
proof -
  define b where "b = beam_number (pr_tbeam q)"
  define code where "code = reverse_bits (of_int b)"
  have small: "n \<le> 12" if "bit (of_int b :: u32) n" for n using beam_code_small [OF _ _ that] beam_number_range by (simp add: b_def)
  have rr: "reverse_bits code = of_int b" unfolding code_def by (rule reverse_reverse [OF small])
  have mask: "code AND 0x1fff = code"
  proof (rule bit_eqI)
    fix n :: nat assume "possible_bit TYPE(u32) n"
    have m: "(0x1fff :: u32) = mask 13" by (simp add: mask_eq_exp_minus_1)
    show "bit (code AND 0x1fff) n = bit code n" unfolding m code_def by (auto simp: bit_and_iff bit_mask_iff reverse_bits_bit)
  qed
  have "code \<le> 0x1fff" by (subst mask [symmetric]) (rule word_and_le1)
  then have le: "\<not> uint code > 8192" by (simp add: word_le_def)
  obtain l where l: "lookup_beamnm tables (pr_radar q - 1) (real_of_int (pr_tfreq q) * 1000) b = Some l"
    using lookup_returns [OF assms(1), of "pr_radar q - 1"] assms(2) by (fastforce simp: site_consts)
  let ?g = "beam_group (pr_radar q)"
  let ?p = "p(PA_GRP ?g := ucast (code AND 0xff), PB_GRP ?g := ucast (drop_bit 8 (code AND 0x1f00)))"
  have ne: "PA_GRP g \<noteq> PB_GRP g'" for g g' by (simp add: port_defs) presburger
  have "shown_beam (pr_radar q) ?p = reverse_bits (code AND 0x1fff)" by (simp only: shown_beam_def fun_upd_apply ne if_False if_True simp_thms code_bytes)
  then have "shown_beam (pr_radar q) ?p = of_int b" by (simp add: mask rr)
  moreover have "\<exists>st. select_beam rd tables q p = Some (st, ?p)"
    using l le assms(2) by (auto simp: select_beam_def b_def [symmetric] code_def [symmetric] Let_def)
  ultimately show thesis using that by (auto simp: b_def)
qed

lemma best_client_Some:
  "best_client r qs best = Some b \<Longrightarrow> (case best of None \<Rightarrow> True | Some x \<Rightarrow> pr_radar x = r) \<Longrightarrow>
   (b \<in> set qs \<or> best = Some b) \<and> pr_radar b = r \<and> (\<forall>q \<in> set qs. pr_radar q = r \<longrightarrow> pr_priority b \<le> pr_priority q) \<and>
   (\<forall>x. best = Some x \<longrightarrow> pr_priority b \<le> pr_priority x)"
proof (induction r qs best rule: best_client.induct)
  case (2 r q qs best)
  let ?best = "if pr_radar q = r then (case best of None \<Rightarrow> Some q | Some b \<Rightarrow> if pr_priority q < pr_priority b then Some q else best) else best"
  have "best_client r qs ?best = Some b" "case ?best of None \<Rightarrow> True | Some x \<Rightarrow> pr_radar x = r" using 2(2,3) by (auto split: option.splits)
  from 2(1) [OF this] show ?case using 2(3) by (auto split: option.splits if_splits)
qed auto

lemma best_client_None: "best_client r qs best = None \<longleftrightarrow> best = None \<and> (\<forall>q \<in> set qs. pr_radar q \<noteq> r)"
  by (induction r qs best rule: best_client.induct) (auto split: option.splits if_splits)

lemma port_groups:
  "PA_GRP g \<noteq> PB_GRP h" "PA_GRP g \<noteq> PC_GRP h" "PB_GRP g \<noteq> PC_GRP h" "PB_GRP g \<noteq> PA_GRP h" "PA_GRP g = PA_GRP h \<longleftrightarrow> g = h" "PB_GRP g = PB_GRP h \<longleftrightarrow> g = h"
  unfolding port_defs by presburger+

lemma select_card_frame: "a \<noteq> PC_GRP (beam_group (pr_radar q)) \<Longrightarrow> snd (select_card rd q p) a = p a"
  by (simp add: select_card_def Let_def)

lemma point_radar_shows:
  assumes "tables_ok tables" "r = 1 \<or> r = 2"
  obtains p' where "point_radar rd tables qs r p = Some p'"
    "\<And>b. best_client r qs None = Some b \<Longrightarrow> shown_beam r p' = of_int (beam_number (pr_tbeam b))"
    "\<And>r'. r' \<noteq> r \<Longrightarrow> r' = 1 \<or> r' = 2 \<Longrightarrow> shown_beam r' p' = shown_beam r' p"
proof (cases "best_client r qs None")
  case None
  then show thesis using that [of p] by (simp add: point_radar_def)
next
  case (Some b)
  then have r: "pr_radar b = r" using best_client_Some [OF Some] by simp
  let ?p = "snd (select_card rd b p)"
  obtain st p' where p': "select_beam rd tables b ?p = Some (st, p')" "shown_beam (pr_radar b) p' = of_int (beam_number (pr_tbeam b))"
    "\<And>a. a \<noteq> PA_GRP (beam_group (pr_radar b)) \<Longrightarrow> a \<noteq> PB_GRP (beam_group (pr_radar b)) \<Longrightarrow> p' a = ?p a"
    using select_beam_shows [OF assms(1)] assms(2) r by metis
  have "shown_beam r' p' = shown_beam r' p" if "r' \<noteq> r" "r' = 1 \<or> r' = 2" for r'
  proof -
    have "beam_group r' \<noteq> beam_group r" using that assms(2) by (auto simp: beam_group_def)
    then show ?thesis using p'(3) select_card_frame r by (simp add: shown_beam_def port_groups)
  qed
  then show thesis using that [of p'] p'(1,2) Some r by (simp add: point_radar_def)
qed

section \<open>Transmitters\<close>

text \<open>The card shows the address it was given on the upper half of port C and the lines of that transmitter on the lower half.\<close>

definition tx_card :: "(nat \<Rightarrow> u8) \<Rightarrow> int \<Rightarrow> (ports \<Rightarrow> ports) \<Rightarrow> bool" where
  "tx_card lines radar rd \<longleftrightarrow> (\<forall>p. let c = PC_GRP (status_group radar) in
     rd p c = (p c AND 0xF0) OR (lines (unat (drop_bit 4 (p c))) AND 0x0F))"

lemma nibble_bits:
  assumes "a < 16" "bit (of_nat a :: u8) n"
  shows "n < 4"
proof -
  have "bit a n" using assms(2) by (simp add: bit_simps)
  then have "2 ^ n \<le> a" by (metis bit_iff_odd div_less even_zero linorder_not_less)
  then have "(2 :: nat) ^ n < 2 ^ 4" using assms(1) by simp
  then show ?thesis by (rule power_less_imp_less_exp [rotated]) simp
qed

lemma nibbles:
  fixes y :: u8
  assumes "a < 16"
  shows "drop_bit 4 (push_bit 4 (of_nat a) + (y AND 0xF)) = of_nat a" "(push_bit 4 (of_nat a) + (y AND 0xF)) AND 0xF0 = push_bit 4 (of_nat a)"
proof -
  have m: "(0xF :: u8) = mask 4" "(0xF0 :: u8) = push_bit 4 (mask 4)" by (simp_all add: mask_eq_exp_minus_1)
  note small = nibble_bits [OF assms]
  have "push_bit 4 (of_nat a :: u8) AND (y AND 0xF) = 0" unfolding m by (rule bit_eqI) (auto simp: bit_simps)
  then have s: "push_bit 4 (of_nat a) + (y AND 0xF) = push_bit 4 (of_nat a) OR (y AND 0xF)" by (rule disjunctive_add_eq_or)
  show "drop_bit 4 (push_bit 4 (of_nat a) + (y AND 0xF)) = of_nat a"
    unfolding s unfolding m by (rule bit_eqI) (use small in \<open>auto simp: bit_simps\<close>)
  show "(push_bit 4 (of_nat a) + (y AND 0xF)) AND 0xF0 = push_bit 4 (of_nat a)"
    unfolding s unfolding m by (rule bit_eqI) (use small in \<open>auto simp: bit_simps\<close>)
qed

lemma nibble_read:
  fixes l :: u8
  assumes "a < 16"
  shows "drop_bit 4 (push_bit 4 (of_nat a) OR (l AND 0x0F)) AND 0xF = of_nat a" "(push_bit 4 (of_nat a) OR (l AND 0x0F)) AND 0xF = l AND 0xF"
    "(push_bit 4 (of_nat a) OR (l AND 0x0F)) AND 4 = l AND 4" "(push_bit 4 (of_nat a) OR (l AND 0x0F)) AND 2 = l AND 2"
proof -
  have m: "(0xF :: u8) = mask 4" "(4 :: u8) = push_bit 2 1" "(2 :: u8) = push_bit 1 1" by (simp_all add: mask_eq_exp_minus_1)
  have d: "drop_bit 4 (push_bit 4 (of_nat a) OR (l AND 0x0F)) = (of_nat a :: u8)"
  proof -
    have "push_bit 4 (of_nat a :: u8) AND (l AND 0xF) = 0" unfolding m by (rule bit_eqI) (auto simp: bit_simps)
    then have "push_bit 4 (of_nat a) + (l AND 0xF) = push_bit 4 (of_nat a) OR (l AND 0xF)" by (rule disjunctive_add_eq_or)
    then show ?thesis using nibbles(1) [OF assms, of l] by simp
  qed
  have "of_nat a AND 0xF = (of_nat a :: u8)" unfolding m by (rule bit_eqI) (use nibble_bits [OF assms] in \<open>auto simp: bit_simps\<close>)
  then show "drop_bit 4 (push_bit 4 (of_nat a) OR (l AND 0x0F)) AND 0xF = of_nat a" by (simp only: d)
  show "(push_bit 4 (of_nat a) OR (l AND 0x0F)) AND 0xF = l AND 0xF" unfolding m by (rule bit_eqI) (auto simp: bit_simps)
  show "(push_bit 4 (of_nat a) OR (l AND 0x0F)) AND 4 = l AND 4" "(push_bit 4 (of_nat a) OR (l AND 0x0F)) AND 2 = l AND 2"
    unfolding m(1) by (rule bit_eqI, auto simp: bit_simps bit_numeral_rec split: nat.splits)+
qed

lemma select_tx_ok:
  assumes "tx_card lines radar rd" "radar = 1 \<or> radar = 2" "a < MAX_TRANSMITTERS"
  obtains p1 where "select_tx rd radar (int a) p = (0, p1)" "rd p1 (PC_GRP (status_group radar)) = push_bit 4 (of_nat a) OR (lines a AND 0x0F)"
proof -
  let ?c = "PC_GRP (status_group radar)"
  let ?v = "push_bit 4 (of_nat a) + (rd p ?c AND 0xF) :: u8"
  have a: "a < 16" using assms(3) by (simp add: site_consts)
  have "rd (p(?c := ?v)) ?c = (?v AND 0xF0) OR (lines (unat (drop_bit 4 ?v)) AND 0x0F)" using assms(1) by (simp add: tx_card_def Let_def)
  also have "unat (drop_bit 4 ?v) = a" unfolding nibbles(1) [OF a] using a by (simp add: unsigned_of_nat take_bit_nat_eq_self)
  finally have r: "rd (p(?c := ?v)) ?c = push_bit 4 (of_nat a) OR (lines a AND 0x0F)" by (simp only: nibbles(2) [OF a])
  have "uint (drop_bit 4 (rd (p(?c := ?v)) ?c) AND 0xF) = int a" unfolding r nibble_read(1) [OF a] using a by (simp add: unsigned_of_nat take_bit_nat_eq_self)
  then have "select_tx rd radar (int a) p = (0, p(?c := ?v))" using assms(2,3) by (auto simp: select_tx_def Let_def site_consts)
  then show thesis using that r by blast
qed

definition tx_lines :: "(nat \<Rightarrow> u8) \<Rightarrow> nat \<Rightarrow> tx_status \<Rightarrow> bool" where
  "tx_lines lines a tx \<longleftrightarrow> tx_stat tx ! a = uint (lines a AND 0xf) \<and> tx_AGC tx ! a = uint (drop_bit 2 (lines a AND 4)) \<and> tx_LOWPWR tx ! a = uint (drop_bit 1 (lines a AND 2))"

lemma status_loop_ok:
  assumes "tx_card lines radar rd" "radar = 1 \<or> radar = 2"
  shows "\<forall>a \<in> set as. a < MAX_TRANSMITTERS \<Longrightarrow> distinct as \<Longrightarrow> length (tx_stat tx) = MAX_TRANSMITTERS \<Longrightarrow> length (tx_AGC tx) = MAX_TRANSMITTERS \<Longrightarrow>
    length (tx_LOWPWR tx) = MAX_TRANSMITTERS \<Longrightarrow>
    \<exists>tx' p'. status_loop rd radar as ret tx p = (ret, tx', p') \<and> (\<forall>a \<in> set as. tx_lines lines a tx') \<and>
      (\<forall>a. a \<notin> set as \<longrightarrow> tx_lines lines a tx \<longrightarrow> tx_lines lines a tx')"
proof (induction as arbitrary: tx p)
  case (Cons a as)
  have a: "a < MAX_TRANSMITTERS" "a < 16" using Cons.prems(1) by (simp_all add: site_consts)
  obtain p1 where p1: "select_tx rd radar (int a) p = (0, p1)" "rd p1 (PC_GRP (status_group radar)) = push_bit 4 (of_nat a) OR (lines a AND 0x0F)"
    using select_tx_ok [OF assms a(1)] by blast
  let ?tx = "tx\<lparr>tx_stat := (tx_stat tx)[a := uint (lines a AND 0xf)], tx_AGC := (tx_AGC tx)[a := uint (drop_bit 2 (lines a AND 4))],
    tx_LOWPWR := (tx_LOWPWR tx)[a := uint (drop_bit 1 (lines a AND 2))]\<rparr>"
  have step: "status_loop rd radar (a # as) ret tx p = status_loop rd radar as ret ?tx p1"
    by (simp only: status_loop.simps p1 prod.case if_True simp_thms Let_def nibble_read [OF a(2)])
  obtain tx' p' where ih: "status_loop rd radar as ret ?tx p1 = (ret, tx', p')" "\<forall>b \<in> set as. tx_lines lines b tx'"
    "\<forall>b. b \<notin> set as \<longrightarrow> tx_lines lines b ?tx \<longrightarrow> tx_lines lines b tx'"
    using Cons.IH [of ?tx p1] Cons.prems by auto
  have "tx_lines lines a ?tx" using Cons.prems(3-5) a(1) by (simp add: tx_lines_def)
  moreover have "tx_lines lines b ?tx" if "tx_lines lines b tx" "b \<noteq> a" for b using that by (simp add: tx_lines_def)
  ultimately show ?case using step ih Cons.prems(2) by (metis distinct.simps(2) list.set_intros(2) set_ConsD)
qed simp

section \<open>Properties\<close>

text \<open>
  C14: the beam on the ports. The pretrigger always answers; then, for each radar, the beam ports
  show the (in range) beam number of a ready client of that radar whose priority number is the lowest, and
  when no client of the radar is ready they show what they showed before.
\<close>

theorem dio_pretrigger_points_beams:
  assumes "tables_ok (di_tables t)" "r = 1 \<or> r = 2" "qs = ready_clients (di_ready t)"
  shows "\<exists>t'. dio_pretrigger_msg rd m ws t = Some (t', ws, [W_DriverMsg (m\<lparr>dm_status := 1\<rparr>)]) \<and> ready_clients (di_ready t') = [] \<and>
    (if \<exists>q \<in> set qs. pr_radar q = r
     then \<exists>b \<in> set qs. pr_radar b = r \<and> (\<forall>q \<in> set qs. pr_radar q = r \<longrightarrow> pr_priority b \<le> pr_priority q) \<and>
            shown_beam r (di_ports t') = of_int (beam_number (pr_tbeam b))
     else shown_beam r (di_ports t') = shown_beam r (di_ports t))"
proof -
  obtain p1 where p1: "point_radar rd (di_tables t) qs 1 (di_ports t) = Some p1" "\<And>b. best_client 1 qs None = Some b \<Longrightarrow> shown_beam 1 p1 = of_int (beam_number (pr_tbeam b))"
    "\<And>r'. r' \<noteq> 1 \<Longrightarrow> r' = 1 \<or> r' = 2 \<Longrightarrow> shown_beam r' p1 = shown_beam r' (di_ports t)"
    using point_radar_shows [OF assms(1), of 1] by blast
  obtain p2 where p2: "point_radar rd (di_tables t) qs 2 p1 = Some p2" "\<And>b. best_client 2 qs None = Some b \<Longrightarrow> shown_beam 2 p2 = of_int (beam_number (pr_tbeam b))"
    "\<And>r'. r' \<noteq> 2 \<Longrightarrow> r' = 1 \<or> r' = 2 \<Longrightarrow> shown_beam r' p2 = shown_beam r' p1"
    using point_radar_shows [OF assms(1), of 2] by blast
  have none: "shown_beam s p' = shown_beam s p" if "point_radar rd (di_tables t) qs s p = Some p'" "best_client s qs None = None" for s p p'
    using that by (simp add: point_radar_def)
  let ?t = "t\<lparr>di_ports := p2, di_ready := clear_ready (di_ready t)\<rparr>"
  have rs: "[1..int MAX_RADARS] = [1, 2]" by (simp add: site_consts upto_rec1)
  have "dio_pretrigger_msg rd m ws t = Some (?t, ws, [W_DriverMsg (m\<lparr>dm_status := 1\<rparr>)])"
    unfolding dio_pretrigger_msg_def rs using p1(1) p2(1) by (simp add: assms(3) [symmetric])
  moreover have "if \<exists>q \<in> set qs. pr_radar q = r
     then \<exists>b \<in> set qs. pr_radar b = r \<and> (\<forall>q \<in> set qs. pr_radar q = r \<longrightarrow> pr_priority b \<le> pr_priority q) \<and> shown_beam r p2 = of_int (beam_number (pr_tbeam b))
     else shown_beam r p2 = shown_beam r (di_ports t)"
  proof (cases "best_client r qs None")
    case None
    then have "\<not> (\<exists>q \<in> set qs. pr_radar q = r)" by (simp add: best_client_None)
    moreover have "shown_beam r p2 = shown_beam r (di_ports t)" using None none p1(1,3) p2(1,3) assms(2) by (metis numeral_One one_eq_numeral_iff semiring_norm(85))
    ultimately show ?thesis by simp
  next
    case (Some b)
    then have b: "b \<in> set qs" "pr_radar b = r" "\<forall>q \<in> set qs. pr_radar q = r \<longrightarrow> pr_priority b \<le> pr_priority q" using best_client_Some [OF Some] by auto
    have "shown_beam r p2 = of_int (beam_number (pr_tbeam b))"
    proof (cases "r = 1")
      case True
      then show ?thesis using p2(3) [of 1] p1(2) Some by simp
    next
      case False
      then show ?thesis using p2(2) Some assms(2) by simp
    qed
    then show ?thesis using b by auto
  qed
  ultimately show ?thesis by (intro exI [of _ ?t]) (simp add: clear_ready_def ready_clients_def)
qed

lemma dio_status_lines:
  assumes "tx_card lines r rd" "r = 1 \<or> r = 2" "length (tx_stat (di_txstatus t)) = MAX_TRANSMITTERS"
    "length (tx_AGC (di_txstatus t)) = MAX_TRANSMITTERS" "length (tx_LOWPWR (di_txstatus t)) = MAX_TRANSMITTERS"
  shows "\<exists>t' tx. dio_status_msg rd m (W_int r # ws) t = Some (t', ws, [W_tx tx, W_DriverMsg (m\<lparr>dm_status := 0\<rparr>)]) \<and>
    (\<forall>a < MAX_TRANSMITTERS. tx_stat tx ! a = uint (lines a AND 0xf) \<and> tx_AGC tx ! a = uint (drop_bit 2 (lines a AND 4)) \<and>
       tx_LOWPWR tx ! a = uint (drop_bit 1 (lines a AND 2)))"
proof -
  obtain tx' p' where tx: "status_loop rd r [0..<MAX_TRANSMITTERS] 0 (di_txstatus t) (di_ports t) = (0, tx', p')" "\<forall>a \<in> set [0..<MAX_TRANSMITTERS]. tx_lines lines a tx'"
    using status_loop_ok [OF assms(1,2), of "[0..<MAX_TRANSMITTERS]" "di_txstatus t" 0 "di_ports t"] assms(3-5) by auto
  have "get_status rd r (di_txstatus t) (di_ports t) = (0, tx', p')" using assms(2) tx(1) by (auto simp: get_status_def site_consts)
  then show ?thesis using tx(2) by (auto simp: dio_status_msg_def tx_lines_def)
qed

text \<open>
  C31: the status of the transmitters. When the card shows the selected transmitter on the upper half of port C
  and its lines on the lower half, a status request for radar 1 or 2 answers with the four lines, the AGC line and the low power line of each of the
  sixteen transmitters, and with status 0.
\<close>

theorem dio_reads_transmitters:
  assumes "tx_card lines r rd" "r = 1 \<or> r = 2" "length (tx_stat (di_txstatus t)) = MAX_TRANSMITTERS"
    "length (tx_AGC (di_txstatus t)) = MAX_TRANSMITTERS" "length (tx_LOWPWR (di_txstatus t)) = MAX_TRANSMITTERS"
  shows "\<exists>t' tx. dio_status_msg rd m (W_int r # ws) t = Some (t', ws, [W_tx tx, W_DriverMsg (m\<lparr>dm_status := 0\<rparr>)]) \<and>
    (\<forall>a < MAX_TRANSMITTERS. tx_stat tx ! a = uint (lines a AND 0xf) \<and> tx_AGC tx ! a = uint (drop_bit 2 (lines a AND 4)) \<and>
       tx_LOWPWR tx ! a = uint (drop_bit 1 (lines a AND 2)))"
  by (rule dio_status_lines [OF assms])

lemma rxfe_address_horner:
  "build_RXFE_EEPROM_address x = horner_sum of_bool 2 [rx_att1 x \<noteq> 1, rx_att2 x \<noteq> 1, rx_att3 x \<noteq> 1, rx_att4 x \<noteq> 1, rx_amp1 x = 1, rx_ifmode x = 1, rx_amp2 x = 1, rx_amp3 x = 1]"
proof -
  have i: "(if b then k else 0) = k * of_bool b" for b and k :: int by simp
  show ?thesis unfolding build_RXFE_EEPROM_address_def i by (simp add: of_bool_not_iff)
qed

text \<open>
  Receiver settings and addresses. The address written for settings of zeros and ones fits into a byte, and
  each of its bits tells one of the settings: bits 0 to 3 are off for the attenuators that are on, bits 4, 6 and 7 are
  the amplifiers and bit 5 the intermediate frequency mode; so different settings have different addresses.
\<close>

lemma rxfe_address_bits:
  assumes "{rx_att1 x, rx_att2 x, rx_att3 x, rx_att4 x, rx_amp1 x, rx_amp2 x, rx_amp3 x, rx_ifmode x} \<subseteq> {0, 1}"
  shows "0 \<le> build_RXFE_EEPROM_address x \<and> build_RXFE_EEPROM_address x < 256 \<and>
    map (\<lambda>n. of_bool (bit (build_RXFE_EEPROM_address x) n)) [0, 1, 2, 3, 4, 5, 6, 7] =
    [1 - rx_att1 x, 1 - rx_att2 x, 1 - rx_att3 x, 1 - rx_att4 x, rx_amp1 x, rx_ifmode x, rx_amp2 x, rx_amp3 x]"
proof -
  have h: "build_RXFE_EEPROM_address x = horner_sum of_bool 2 [rx_att1 x \<noteq> 1, rx_att2 x \<noteq> 1, rx_att3 x \<noteq> 1, rx_att4 x \<noteq> 1, rx_amp1 x = 1, rx_ifmode x = 1, rx_amp2 x = 1, rx_amp3 x = 1]"
    (is "_ = horner_sum of_bool 2 ?bs") by (rule rxfe_address_horner)
  have l: "length ?bs = 8" by simp
  have b: "bit (build_RXFE_EEPROM_address x) n \<longleftrightarrow> n < 8 \<and> ?bs ! n" for n unfolding h bit_horner_sum_bit_iff l by simp
  have "horner_sum of_bool (2 :: int) ?bs < 2 ^ 8" using horner_sum_of_bool_2_less [of ?bs] unfolding l .
  moreover have "0 \<le> horner_sum of_bool (2 :: int) ?bs" by (rule horner_sum_nonnegative)
  moreover have "of_bool (v = 1) = v" "of_bool (v \<noteq> 1) = 1 - v" if "v \<in> {0, 1}" for v :: int using that by auto
  ultimately show ?thesis using assms unfolding h [symmetric] by (simp add: b)
qed

section \<open>Examples\<close>

definition plain_tx :: tx_status where
  "plain_tx = \<lparr>tx_LOWPWR = replicate MAX_TRANSMITTERS 1, tx_AGC = replicate MAX_TRANSMITTERS 1, tx_stat = replicate MAX_TRANSMITTERS 15\<rparr>"

text \<open>Two clients of radar 1 are ready, on beams 3 and 7; the second one has the better priority.\<close>

definition two_beams :: dio where
  "two_beams = \<lparr>di_ports = (\<lambda>_. 0), di_ready = \<lparr>rt_clients = [(plain_prm 1 1 0)\<lparr>pr_tbeam := 3, pr_priority := 5\<rparr>, (plain_prm 1 2 0)\<lparr>pr_tbeam := 7, pr_priority := 2\<rparr>] @
       replicate 6 (plain_prm 1 1 0), rt_num = 2, rt_index = [0, 1, -1, -1, -1, -1, -1, -1]\<rparr>,
     di_tables = [None, None], di_ifmode = 0, di_rf_addr = 0, di_if_addr = 0, di_txstatus = plain_tx\<rparr>"

theorem dio_pretrigger_points_beams_witness:
  "\<exists>t'. dio_pretrigger_msg (\<lambda>p. p) \<lparr>dm_type = PRETRIGGER_code, dm_status = 0\<rparr> [] two_beams = Some (t', [], [drv_msg PRETRIGGER_code 1]) \<and>
    shown_beam 1 (di_ports t') = 7"
proof -
  let ?a = "(plain_prm 1 1 0)\<lparr>pr_tbeam := 3, pr_priority := 5\<rparr>" and ?b = "(plain_prm 1 2 0)\<lparr>pr_tbeam := 7, pr_priority := 2\<rparr>"
  have q: "[?a, ?b] = ready_clients (di_ready two_beams)" and t: "tables_ok (di_tables two_beams)"
    by (simp_all add: two_beams_def ready_clients_def tables_ok_def site_consts)
  have f: "pr_radar ?a = 1" "pr_radar ?b = 1" "pr_priority ?a = 5" "pr_priority ?b = 2" "beam_number (pr_tbeam ?b) = 7"
    by (simp_all add: plain_prm_def beam_number_def MAX_BEAM_def)
  from dio_pretrigger_points_beams [OF t _ q, of 1 "\<lambda>p. p" "\<lparr>dm_type = PRETRIGGER_code, dm_status = 0\<rparr>" "[]"]
  show ?thesis using f by fastforce
qed

definition tx_reader :: "ports \<Rightarrow> ports" where
  "tx_reader p a = (if a = PC_GRP 1 then (p a AND 0xF0) OR (5 AND 0x0F) else p a)"

theorem dio_reads_transmitters_witness:
  "\<exists>t' tx. dio_status_msg tx_reader \<lparr>dm_type = GET_TX_STATUS_code, dm_status = 1\<rparr> [W_int 1] two_beams = Some (t', [], [W_tx tx, drv_msg GET_TX_STATUS_code 0]) \<and>
    tx_stat tx ! 4 = 5 \<and> tx_AGC tx ! 4 = 1 \<and> tx_LOWPWR tx ! 4 = 0"
proof -
  have "tx_card (\<lambda>_. 5) 1 tx_reader" "length (tx_stat (di_txstatus two_beams)) = MAX_TRANSMITTERS"
    "length (tx_AGC (di_txstatus two_beams)) = MAX_TRANSMITTERS" "length (tx_LOWPWR (di_txstatus two_beams)) = MAX_TRANSMITTERS"
    by (simp_all add: tx_card_def tx_reader_def status_group_def Let_def two_beams_def plain_tx_def)
  from dio_reads_transmitters [OF this(1) _ this(2-4), of "\<lparr>dm_type = GET_TX_STATUS_code, dm_status = 1\<rparr>" "[]"] obtain t' tx where
    tx: "dio_status_msg tx_reader \<lparr>dm_type = GET_TX_STATUS_code, dm_status = 1\<rparr> [W_int 1] two_beams = Some (t', [], [W_tx tx, drv_msg GET_TX_STATUS_code 0])"
    "\<forall>a < MAX_TRANSMITTERS. tx_stat tx ! a = uint (5 AND 0xf :: u8) \<and> tx_AGC tx ! a = uint (drop_bit 2 (5 AND 4 :: u8)) \<and> tx_LOWPWR tx ! a = uint (drop_bit 1 (5 AND 2 :: u8))"
    by auto
  have "tx_stat tx ! 4 = 5 \<and> tx_AGC tx ! 4 = 1 \<and> tx_LOWPWR tx ! 4 = 0" using tx(2) [rule_format, of 4] by (simp add: site_consts)
  then show ?thesis using tx(1) by blast
qed

theorem rxfe_address_bits_witness:
  "build_RXFE_EEPROM_address \<lparr>rx_ifmode = 1, rx_amp1 = 0, rx_amp2 = 1, rx_amp3 = 0, rx_att1 = 1, rx_att2 = 0, rx_att3 = 0, rx_att4 = 0\<rparr> < 256 \<and>
   bit (build_RXFE_EEPROM_address \<lparr>rx_ifmode = 1, rx_amp1 = 0, rx_amp2 = 1, rx_amp3 = 0, rx_att1 = 1, rx_att2 = 0, rx_att3 = 0, rx_att4 = 0\<rparr>) 6"
  using rxfe_address_bits [of "\<lparr>rx_ifmode = 1, rx_amp1 = 0, rx_amp2 = 1, rx_amp3 = 0, rx_att1 = 1, rx_att2 = 0, rx_att3 = 0, rx_att4 = 0\<rparr>"] by simp

end
