(* ===== verification/Dds_Driver.thy ===== *)
theory Dds_Driver
  imports Driver_Common TSG
begin

text \<open>
  The driver of the frequency synthesiser, \<^verbatim>\<open>ddsserver_tcp_driver\<close>, for one ICS660 card and without imaging
  (\<^verbatim>\<open>IMAGING\<close> is 0): the transmit samples of each ready channel are interleaved into one buffer of 16 output channels, and the
  frequencies and filters of the outputs are loaded before a trigger. What is sent to the card is recorded in a list.
  The lemmas show that the levels of the channels of a radar never add up to more than the level the radar may put out, and that the channels
  without a client are silent.
\<close>

section \<open>Constants and state\<close>

definition DDS_MAX_CHANNELS :: nat where "DDS_MAX_CHANNELS = 4"
definition dds_nchan :: nat where "dds_nchan = 16"
definition DDS_STATE_TIME :: real where "DDS_STATE_TIME = 5 / 1000000"
definition STATE_DELAY :: real where "STATE_DELAY = 130"
definition DDS_MAX_RADAR_OUTPUT :: "int list" where "DDS_MAX_RADAR_OUTPUT = [28355, 26500]"
definition IF_FREQ :: int where "IF_FREQ = 71000"
definition DDS_SEQ_LEN :: nat where "DDS_SEQ_LEN = 1048576"

lemmas dds_consts = DDS_MAX_CHANNELS_def dds_nchan_def DDS_MAX_RADAR_OUTPUT_def

text \<open>
  A DAC word holds the same 16 bit sample twice, so the buffer is a list of samples. \<^verbatim>\<open>Chip\<close> and channel numbers of the loads count from 1.
\<close>

datatype dds_op = One_Shot | Load_Frequency int int real | Load_Phase int int real | Load_Taps int int int | Write_Samples "int list"

record dds =
  dd_ready :: ready_table
  dd_pulseseqs :: "TSGbuf option list list"
  dd_seq :: "int list list"
  dd_old_index :: "int list"
  dd_old_seq_id :: int
  dd_active :: "int list"
  dd_ifmode :: int
  dd_ops :: "dds_op list"

type_synonym dds_reply = "(dds \<times> wire list \<times> wire list) option"

definition dds_do :: "dds_op list \<Rightarrow> dds \<Rightarrow> dds" where
  "dds_do ops t = t\<lparr>dd_ops := dd_ops t @ ops\<rparr>"

section \<open>Unpacking\<close>

definition dds_decodestate :: "u8 \<Rightarrow> int" where
  "dds_decodestate st = (if st AND 0x04 = 0x04 then (if st AND 0x10 = 0x10 then -1 else 1) else 0)"

definition dds_ratio :: "int \<Rightarrow> int" where
  "dds_ratio step = cint (real_of_int step / 1000000 / DDS_STATE_TIME + 49999999 / 100000000)"

text \<open>
  The samples of the first 130 microseconds are dropped. \<open>us\<close> is what \<^verbatim>\<open>STATE_TIME/1E-6\<close> evaluates to, which is
  not exactly 5 in floating point.
\<close>

fun dds_keep :: "real \<Rightarrow> real \<Rightarrow> int list \<Rightarrow> int list" where
  "dds_keep us t [] = []"
| "dds_keep us t (x # xs) = (if t + us > STATE_DELAY then x # dds_keep us (t + us) xs else dds_keep us (t + us) xs)"

definition dds_unpack :: "real \<Rightarrow> TSGbuf \<Rightarrow> int list option" where
  "dds_unpack us q =
    (let runs = take (nat (tb_len q)) (zip (tb_code q) (tb_rep q));
         xs = dds_keep us 0 (concat (map (\<lambda>(code, rep). replicate (nat (dds_ratio (tb_step q) * uint rep)) (dds_decodestate code)) runs))
     in if length xs \<le> DDS_SEQ_LEN then Some xs else None)"

section \<open>Clients\<close>

definition dds_register_msg :: "DriverMsg \<Rightarrow> wire list \<Rightarrow> dds \<Rightarrow> dds_reply" where
  "dds_register_msg m ws t = do {
     (q, ws) \<leftarrow> rx_prm ws;
     (index, ws) \<leftarrow> rx_int ws;
     ((i, len, step), ws) \<leftarrow> rx_tsgbuf ws;
     (rep, ws) \<leftarrow> rx_bytes len ws;
     (code, ws) \<leftarrow> rx_bytes len ws;
     k \<leftarrow> prm_cell q;
     row \<leftarrow> aref (dd_pulseseqs t) (int k);
     row' \<leftarrow> aset row index (Some \<lparr>tb_index = i, tb_len = len, tb_step = step, tb_code = code, tb_rep = rep, tb_prm = None\<rparr>);
     seqs \<leftarrow> aset (dd_pulseseqs t) (int k) row';
     olds \<leftarrow> aset (dd_old_index t) (int k) (-1);
     Some (t\<lparr>dd_pulseseqs := seqs, dd_old_index := olds, dd_old_seq_id := -10\<rparr>, ws, [W_DriverMsg m])
   }"

text \<open>A sequence is unpacked only when the client has changed to another one.\<close>

definition dds_ready_msg :: "real \<Rightarrow> DriverMsg \<Rightarrow> wire list \<Rightarrow> dds \<Rightarrow> dds_reply" where
  "dds_ready_msg us m ws t = do {
     (q, ws) \<leftarrow> rx_prm ws;
     k \<leftarrow> prm_cell q;
     rt \<leftarrow> add_ready q (dd_ready t);
     old \<leftarrow> aref (dd_old_index t) (int k);
     seqs \<leftarrow> (if pr_current_pulseseq_index q \<noteq> old then do {
                row \<leftarrow> aref (dd_pulseseqs t) (int k);
                sel \<leftarrow> aref row (pr_current_pulseseq_index q);
                ps \<leftarrow> sel;
                xs \<leftarrow> dds_unpack us ps;
                aset (dd_seq t) (int k) xs
              } else Some (dd_seq t));
     olds \<leftarrow> aset (dd_old_index t) (int k) (pr_current_pulseseq_index q);
     let m' = (if rt_num rt \<ge> int maxclients then m\<lparr>dm_status := -2\<rparr> else m);
     Some (t\<lparr>dd_ready := wrap_ready rt, dd_seq := seqs, dd_old_index := olds\<rparr>, ws, [W_DriverMsg m'])
   }"

section \<open>The sample buffer\<close>

text \<open>The level of each channel when \<open>n\<close> channels of a radar are active.\<close>

definition max_val :: "nat \<Rightarrow> nat \<Rightarrow> int option" where
  "max_val r n = (if r < length DDS_MAX_RADAR_OUTPUT \<and> n \<le> DDS_MAX_CHANNELS
     then Some (if n = 0 then 0 else (DDS_MAX_RADAR_OUTPUT ! r) div int n) else None)"

fun put_samples :: "nat \<Rightarrow> int \<Rightarrow> nat \<Rightarrow> int list \<Rightarrow> int list \<Rightarrow> int list" where
  "put_samples ch amp i [] d = d"
| "put_samples ch amp i (x # xs) d = put_samples ch amp (Suc i) xs (d[i * dds_nchan + ch := x * amp])"

text \<open>The intermediate frequency output of a radar, on the first channel of chip \<open>r + 2\<close>.\<close>

definition put_if :: "nat \<Rightarrow> nat \<Rightarrow> int list \<Rightarrow> int list" where
  "put_if r n d = fold (\<lambda>i d. d[i * dds_nchan + (r + 2) * DDS_MAX_CHANNELS := 32767]) [0..<n - 1] d"

definition active_map :: "ControlPRM list \<Rightarrow> int list option" where
  "active_map qs = fold (\<lambda>q a. Option.bind a (\<lambda>a. Option.bind (prm_cell q) (\<lambda>k. aset a (int k) (int k mod int MAX_CHANNELS))))
     qs (Some (replicate maxclients (-1)))"

definition num_active :: "ControlPRM list \<Rightarrow> nat \<Rightarrow> nat" where
  "num_active qs r = length (filter (\<lambda>q. pr_radar q - 1 = int r) qs)"

text \<open>Client \<open>q\<close> writes to every output of its radar that is marked with its channel; a sequence that is longer than the buffer is written past its end.\<close>

definition put_client :: "int \<Rightarrow> int list \<Rightarrow> (nat \<Rightarrow> nat) \<Rightarrow> nat \<Rightarrow> int list list \<Rightarrow> ControlPRM \<Rightarrow> int list \<Rightarrow> int list option" where
  "put_client ifmode active num maxlen seqs q d = do {
     k \<leftarrow> prm_cell q;
     let r = k div MAX_CHANNELS;
     let c = k mod MAX_CHANNELS;
     amp \<leftarrow> max_val r (num r);
     xs \<leftarrow> aref seqs (int k);
     if length xs * dds_nchan \<le> length d then do {
       let d1 = fold (\<lambda>cc d. if active ! (r * MAX_CHANNELS + cc) = int c then put_samples (r * DDS_MAX_CHANNELS + cc) amp 0 xs d else d) [0..<DDS_MAX_CHANNELS] d;
       Some (if ifmode = 1 then put_if r maxlen d1 else d1)
     } else None
   }"

fun put_clients :: "int \<Rightarrow> int list \<Rightarrow> (nat \<Rightarrow> nat) \<Rightarrow> nat \<Rightarrow> int list list \<Rightarrow> ControlPRM list \<Rightarrow> int list \<Rightarrow> int list option" where
  "put_clients ifmode active num maxlen seqs [] d = Some d"
| "put_clients ifmode active num maxlen seqs (q # qs) d =
    Option.bind (put_client ifmode active num maxlen seqs q d) (put_clients ifmode active num maxlen seqs qs)"

text \<open>100 microseconds of silence follow the longest sequence.\<close>

definition dds_samples :: "nat \<Rightarrow> nat" where
  "dds_samples maxlen = dds_nchan * (maxlen + 20)"

definition msi_timing_sequence :: "nat \<Rightarrow> ControlPRM list \<Rightarrow> dds \<Rightarrow> dds option" where
  "msi_timing_sequence maxlen qs t = do {
     active \<leftarrow> active_map qs;
     d \<leftarrow> put_clients (dd_ifmode t) active (num_active qs) maxlen (dd_seq t) qs (replicate (dds_samples maxlen) 0);
     Some (dds_do [Write_Samples d, Write_Samples d] (t\<lparr>dd_active := active\<rparr>))
   }"

section \<open>Frequencies\<close>

definition quiet_loads :: "dds_op list" where
  "quiet_loads = concat (map (\<lambda>r. concat (map (\<lambda>cc. [Load_Frequency r cc 0, Load_Phase r cc 0]) [1..int DDS_MAX_CHANNELS])) [1..int MAX_RADARS])"

definition client_loads :: "int \<Rightarrow> int list \<Rightarrow> ControlPRM \<Rightarrow> dds_op list option" where
  "client_loads ifmode active q = do {
     k \<leftarrow> prm_cell q;
     let r = pr_radar q;
     let row = take DDS_MAX_CHANNELS (drop (k div MAX_CHANNELS * MAX_CHANNELS) active);
     let own = concat (map (\<lambda>cc. if row ! cc = pr_channel q - 1
        then [Load_Frequency r (int cc + 1) (real_of_int (pr_tfreq q) * 1000), Load_Phase r (int cc + 1) 0, Load_Taps r (int cc + 1) (pr_trise q)] else [])
        [0..<DDS_MAX_CHANNELS]);
     Some (own @ (if ifmode = 1
       then [Load_Frequency (r + 2) (pr_channel q) (real_of_int (IF_FREQ - pr_tfreq q) * 1000 / 2), Load_Taps (r + 2) (pr_channel q) (pr_trise q),
             Load_Phase (r + 2) (pr_channel q) 0] else []))
   }"

fun clients_loads :: "int \<Rightarrow> int list \<Rightarrow> ControlPRM list \<Rightarrow> dds_op list option" where
  "clients_loads ifmode active [] = Some []"
| "clients_loads ifmode active (q # qs) = do { a \<leftarrow> client_loads ifmode active q; b \<leftarrow> clients_loads ifmode active qs; Some (a @ b) }"

definition dds_seq_id :: "ControlPRM list \<Rightarrow> int" where
  "dds_seq_id qs = -1 + (\<Sum>q \<leftarrow> qs. (pr_radar q - 1) * 1000 + (pr_channel q - 1) * 100 + pr_current_pulseseq_index q + 1)"

fun dds_longest :: "int list list \<Rightarrow> ControlPRM list \<Rightarrow> nat \<Rightarrow> nat option" where
  "dds_longest seqs [] n = Some n"
| "dds_longest seqs (q # qs) n = do {
     k \<leftarrow> prm_cell q;
     xs \<leftarrow> aref seqs (int k);
     dds_longest seqs qs (if length xs \<ge> n then length xs else n)
   }"

definition dds_pretrigger_msg :: "DriverMsg \<Rightarrow> wire list \<Rightarrow> dds \<Rightarrow> dds_reply" where
  "dds_pretrigger_msg m ws t0 = do {
     let t = dds_do [One_Shot] t0;
     let qs = ready_clients (dd_ready t);
     let new = dds_seq_id qs;
     maxlen \<leftarrow> dds_longest (dd_seq t) qs 0;
     t1 \<leftarrow> (if new \<noteq> dd_old_seq_id t then msi_timing_sequence maxlen qs t else Some t);
     loads \<leftarrow> clients_loads (dd_ifmode t1) (dd_active t1) qs;
     let t2 = dds_do (quiet_loads @ loads @ [One_Shot]) t1;
     Some (t2\<lparr>dd_ready := clear_ready (dd_ready t2), dd_old_seq_id := (if new < 0 then -10 else new)\<rparr>, ws, [W_DriverMsg (m\<lparr>dm_status := 0\<rparr>)])
   }"

definition dds_rxfe_msg :: "DriverMsg \<Rightarrow> wire list \<Rightarrow> dds \<Rightarrow> dds_reply" where
  "dds_rxfe_msg m ws t = do {
     (mode, ws) \<leftarrow> rx_int ws;
     (rf, ws) \<leftarrow> rx_rxfe ws;
     (ifs, ws) \<leftarrow> rx_rxfe ws;
     Some (t\<lparr>dd_ifmode := mode\<rparr>, ws, [W_DriverMsg m])
   }"

definition dds_msg :: "real \<Rightarrow> wire list \<Rightarrow> dds \<Rightarrow> dds_reply" where
  "dds_msg us ws t = do {
     (m, ws) \<leftarrow> rx_msg ws;
     (if dm_type m = REGISTER_SEQ_code then dds_register_msg m ws t
      else if dm_type m = CtrlProg_END_code then Some (t\<lparr>dd_old_seq_id := -10\<rparr>, ws, [])
      else if dm_type m = RXFE_SETTINGS_code then dds_rxfe_msg m ws t
      else if dm_type m = CtrlProg_READY_code then dds_ready_msg us m ws t
      else if dm_type m = PRETRIGGER_code then dds_pretrigger_msg m ws t
      else Some (t, ws, []))
   }"

section \<open>The interleaved samples\<close>

lemma put_samples_length [simp]: "length (put_samples ch amp i xs d) = length d"
  by (induction ch amp i xs d rule: put_samples.induct) simp_all

lemma sample_inj:
  assumes "j * dds_nchan + c = i * dds_nchan + d" "c < dds_nchan" "d < dds_nchan"
  shows "j = i \<and> c = d"
proof -
  have "(j * dds_nchan + c) div dds_nchan = j" "(j * dds_nchan + c) mod dds_nchan = c" "(i * dds_nchan + d) div dds_nchan = i" "(i * dds_nchan + d) mod dds_nchan = d"
    using assms(2,3) by simp_all
  then show ?thesis using assms(1) by simp
qed

lemma put_samples_nth:
  assumes "ch < dds_nchan" "ch' < dds_nchan" "j * dds_nchan + ch' < length d"
  shows "put_samples ch amp i xs d ! (j * dds_nchan + ch') = (if ch' = ch \<and> i \<le> j \<and> j - i < length xs then xs ! (j - i) * amp else d ! (j * dds_nchan + ch'))"
  using assms
proof (induction ch amp i xs d rule: put_samples.induct)
  case (2 ch amp i x xs d)
  have eq: "j * dds_nchan + ch' = i * dds_nchan + ch \<longleftrightarrow> j = i \<and> ch' = ch" using sample_inj [of j ch' i ch] 2(2,3) by auto
  let ?d = "d[i * dds_nchan + ch := x * amp]"
  have ih: "put_samples ch amp (Suc i) xs ?d ! (j * dds_nchan + ch') =
      (if ch' = ch \<and> Suc i \<le> j \<and> j - Suc i < length xs then xs ! (j - Suc i) * amp else ?d ! (j * dds_nchan + ch'))"
    using 2(1) [OF 2(2,3)] 2(4) by simp
  have d: "?d ! (j * dds_nchan + ch') = (if j = i \<and> ch' = ch then x * amp else d ! (j * dds_nchan + ch'))" using 2(4) eq by (auto simp: nth_list_update)
  consider "j < i" | "j = i" | n where "j = Suc (i + n)" by (metis less_imp_Suc_add linorder_neqE_nat)
  then have "(if ch' = ch \<and> Suc i \<le> j \<and> j - Suc i < length xs then xs ! (j - Suc i) * amp else ?d ! (j * dds_nchan + ch')) =
      (if ch' = ch \<and> i \<le> j \<and> j - i < length (x # xs) then (x # xs) ! (j - i) * amp else d ! (j * dds_nchan + ch'))"
    unfolding d by cases simp_all
  then show ?case using ih by simp
qed simp

lemma fold_update_length: "length (fold (\<lambda>i d. d[f i := v]) is d) = length d"
  by (induction "is" arbitrary: d) simp_all

lemma fold_update_nth: "\<forall>i \<in> set is. f i \<noteq> n \<Longrightarrow> fold (\<lambda>i d. d[f i := v]) is d ! n = d ! n"
  by (induction "is" arbitrary: d) simp_all

lemma put_if_length [simp]: "length (put_if r n d) = length d"
  unfolding put_if_def by (rule fold_update_length)

lemma put_if_nth:
  assumes "ch < 2 * DDS_MAX_CHANNELS" "r < 2"
  shows "put_if r n d ! (j * dds_nchan + ch) = d ! (j * dds_nchan + ch)"
proof -
  have "i * dds_nchan + (r + 2) * DDS_MAX_CHANNELS \<noteq> j * dds_nchan + ch" for i using assms by (simp add: dds_consts) presburger
  then show ?thesis unfolding put_if_def by (intro fold_update_nth) simp
qed

text \<open>The map of active outputs marks the channel of each client.\<close>

lemma active_map_ok:
  assumes "None \<notin> prm_cell ` set qs"
  shows "\<exists>a. active_map qs = Some a \<and> length a = maxclients \<and> (\<forall>k < maxclients. a ! k = (if Some k \<in> prm_cell ` set qs then int (k mod MAX_CHANNELS) else -1))"
  using assms
proof (induction qs rule: rev_induct)
  case Nil
  then show ?case by (simp add: active_map_def)
next
  case (snoc q qs)
  then obtain a where a: "active_map qs = Some a" "length a = maxclients" "\<forall>k < maxclients. a ! k = (if Some k \<in> prm_cell ` set qs then int (k mod MAX_CHANNELS) else -1)"
    by auto
  obtain k where k: "prm_cell q = Some k" using snoc.prems by (cases "prm_cell q") force+
  have "active_map (qs @ [q]) = Some (a[k := int k mod int MAX_CHANNELS])" using a(1,2) k prm_cell_less [OF k] by (simp add: active_map_def)
  then show ?case using a(2,3) k prm_cell_less [OF k] by (auto simp: nth_list_update zmod_int simp del: maxclients_eq)
qed

lemma fold_none: "\<forall>x \<in> set xs. \<not> P x \<Longrightarrow> fold (\<lambda>x d. if P x then f x d else d) xs d = d"
  by (induction xs arbitrary: d) simp_all

lemma fold_one:
  "c \<in> set xs \<Longrightarrow> distinct xs \<Longrightarrow> \<forall>x \<in> set xs. P x \<longleftrightarrow> x = c \<Longrightarrow> fold (\<lambda>x d. if P x then f x d else d) xs d = f c d"
proof (induction xs arbitrary: d)
  case (Cons x xs)
  show ?case
  proof (cases "x = c")
    case True
    then have "\<forall>y \<in> set xs. \<not> P y" using Cons.prems(2,3) by auto
    then show ?thesis using True Cons.prems(3) by (simp add: fold_none)
  qed (use Cons in simp)
qed simp

lemma put_client_ok:
  assumes "prm_cell q = Some k" "max_val (k div MAX_CHANNELS) (num (k div MAX_CHANNELS)) = Some amp" "length seqs = maxclients"
    "length (seqs ! k) * dds_nchan \<le> length d" "active ! k = int (k mod MAX_CHANNELS)" "\<And>k'. k' < maxclients \<Longrightarrow> active ! k' = int (k' mod MAX_CHANNELS) \<or> active ! k' = -1"
  obtains d' where "put_client ifmode active num maxlen seqs q d = Some d'" "length d' = length d"
    "\<And>i ch. ch < maxclients \<Longrightarrow> i * dds_nchan + ch < length d \<Longrightarrow>
       d' ! (i * dds_nchan + ch) = (if ch = k \<and> i < length (seqs ! k) then seqs ! k ! i * amp else d ! (i * dds_nchan + ch))"
proof -
  let ?r = "k div MAX_CHANNELS" and ?c = "k mod MAX_CHANNELS"
  have k: "k < 8" using prm_cell_less [OF assms(1)] by simp
  have rk: "?r * MAX_CHANNELS + ?c = k" "?r < 2" "?c < 4" using k by (simp_all add: site_consts)
  have act: "active ! (?r * MAX_CHANNELS + cc) = int ?c \<longleftrightarrow> cc = ?c" if "cc < 4" for cc
  proof -
    have "?r * MAX_CHANNELS + cc < maxclients" "(?r * MAX_CHANNELS + cc) mod MAX_CHANNELS = cc" using rk(2) that by (simp_all add: site_consts)
    then have "active ! (?r * MAX_CHANNELS + cc) = int cc \<or> active ! (?r * MAX_CHANNELS + cc) = -1" using assms(6) by metis
    moreover have "active ! (?r * MAX_CHANNELS + ?c) = int ?c" using assms(5) rk(1) by simp
    ultimately show ?thesis by (cases "cc = ?c") auto
  qed
  have "fold (\<lambda>cc d. if active ! (?r * MAX_CHANNELS + cc) = int ?c then put_samples (?r * DDS_MAX_CHANNELS + cc) amp 0 xs d else d) [0..<DDS_MAX_CHANNELS] d =
      put_samples k amp 0 xs d" for xs
    using fold_one [of ?c "[0..<DDS_MAX_CHANNELS]" "\<lambda>cc. active ! (?r * MAX_CHANNELS + cc) = int ?c" "\<lambda>cc. put_samples (?r * DDS_MAX_CHANNELS + cc) amp 0 xs" d] act rk
    by (simp add: dds_consts site_consts)
  then have "put_client ifmode active num maxlen seqs q d =
      Some (if ifmode = 1 then put_if ?r maxlen (put_samples k amp 0 (seqs ! k) d) else put_samples k amp 0 (seqs ! k) d)"
    using assms(1-4) k by (simp add: put_client_def Let_def)
  moreover have "put_samples k amp 0 (seqs ! k) d ! (i * dds_nchan + ch) = (if ch = k \<and> i < length (seqs ! k) then seqs ! k ! i * amp else d ! (i * dds_nchan + ch))"
    if "ch < maxclients" "i * dds_nchan + ch < length d" for i ch
    using put_samples_nth [of k ch i d amp 0] that k by (simp add: dds_nchan_def)
  ultimately show thesis using that put_if_nth [OF _ rk(2)] by (auto simp: dds_consts)
qed


text \<open>The map of active outputs of a list of clients.\<close>

definition marks :: "ControlPRM list \<Rightarrow> int list \<Rightarrow> bool" where
  "marks qs active \<longleftrightarrow> (\<forall>k < maxclients. active ! k = (if Some k \<in> prm_cell ` set qs then int (k mod MAX_CHANNELS) else -1))"

lemma put_clients_ok:
  assumes "distinct (map prm_cell qs)" "None \<notin> prm_cell ` set qs" "set qs \<subseteq> set ps" "marks ps active" "length seqs = maxclients"
    "\<forall>k. Some k \<in> prm_cell ` set qs \<longrightarrow> max_val (k div MAX_CHANNELS) (num (k div MAX_CHANNELS)) = Some (amp (k div MAX_CHANNELS)) \<and> length (seqs ! k) * dds_nchan \<le> length d"
  shows "\<exists>d'. put_clients ifmode active num maxlen seqs qs d = Some d' \<and> length d' = length d \<and>
    (\<forall>ch < maxclients. \<forall>i. i * dds_nchan + ch < length d \<longrightarrow>
       d' ! (i * dds_nchan + ch) = (if Some ch \<in> prm_cell ` set qs \<and> i < length (seqs ! ch) then seqs ! ch ! i * amp (ch div MAX_CHANNELS) else d ! (i * dds_nchan + ch)))"
  using assms
proof (induction qs arbitrary: d)
  case (Cons q qs)
  obtain k where k: "prm_cell q = Some k" using Cons.prems(2) by (cases "prm_cell q") auto
  have kin: "Some k \<in> prm_cell ` set (q # qs)" using k by simp
  have "Some k \<in> prm_cell ` set ps" using Cons.prems(3) k by force
  then have act: "active ! k = int (k mod MAX_CHANNELS)" using Cons.prems(4) prm_cell_less [OF k] by (simp add: marks_def del: maxclients_eq)
  have act2: "active ! k' = int (k' mod MAX_CHANNELS) \<or> active ! k' = -1" if "k' < maxclients" for k' using Cons.prems(4) that by (simp add: marks_def del: maxclients_eq)
  have mk: "max_val (k div MAX_CHANNELS) (num (k div MAX_CHANNELS)) = Some (amp (k div MAX_CHANNELS))" "length (seqs ! k) * dds_nchan \<le> length d"
    using Cons.prems(6) kin by blast+
  obtain d1 where d1: "put_client ifmode active num maxlen seqs q d = Some d1" "length d1 = length d"
    "\<And>i ch. ch < maxclients \<Longrightarrow> i * dds_nchan + ch < length d \<Longrightarrow>
       d1 ! (i * dds_nchan + ch) = (if ch = k \<and> i < length (seqs ! k) then seqs ! k ! i * amp (k div MAX_CHANNELS) else d ! (i * dds_nchan + ch))"
    using put_client_ok [where num = num and q = q and k = k and seqs = seqs and d = d and active = active and ifmode = ifmode and maxlen = maxlen, OF k mk(1) Cons.prems(5) mk(2) act act2] by blast
  obtain d2 where d2: "put_clients ifmode active num maxlen seqs qs d1 = Some d2" "length d2 = length d1"
    "\<forall>ch < maxclients. \<forall>i. i * dds_nchan + ch < length d1 \<longrightarrow>
       d2 ! (i * dds_nchan + ch) = (if Some ch \<in> prm_cell ` set qs \<and> i < length (seqs ! ch) then seqs ! ch ! i * amp (ch div MAX_CHANNELS) else d1 ! (i * dds_nchan + ch))"
    using Cons.IH [of d1] Cons.prems d1(2) by auto
  have "Some k \<notin> prm_cell ` set qs" using Cons.prems(1) k by force
  then have "d2 ! (i * dds_nchan + ch) = (if Some ch \<in> prm_cell ` set (q # qs) \<and> i < length (seqs ! ch) then seqs ! ch ! i * amp (ch div MAX_CHANNELS) else d ! (i * dds_nchan + ch))"
    if "ch < maxclients" "i * dds_nchan + ch < length d" for ch i
    using d2(3) d1(3) [OF that] that d1(2) k by (auto simp del: maxclients_eq)
  then show ?case using d1(1,2) d2(1,2) by auto
qed simp

lemma num_active_card:
  assumes "distinct (map prm_cell qs)" "None \<notin> prm_cell ` set qs"
  shows "num_active qs r = card {cc. cc < MAX_CHANNELS \<and> Some (r * MAX_CHANNELS + cc) \<in> prm_cell ` set qs}"
proof -
  let ?qs = "filter (\<lambda>q. pr_radar q - 1 = int r) qs"
  let ?f = "\<lambda>q. nat (pr_channel q - 1)"
  have cells: "prm_cell q = Some (r * MAX_CHANNELS + ?f q) \<and> ?f q < MAX_CHANNELS" if "q \<in> set ?qs" for q
  proof -
    have "prm_cell q \<noteq> None" using assms(2) that by force
    then show ?thesis using that by (auto simp: prm_cell_def cell_def split: if_splits)
  qed
  have "{cc. cc < MAX_CHANNELS \<and> Some (r * MAX_CHANNELS + cc) \<in> prm_cell ` set qs} = ?f ` set ?qs"
  proof (intro equalityI subsetI)
    fix cc assume "cc \<in> {cc. cc < MAX_CHANNELS \<and> Some (r * MAX_CHANNELS + cc) \<in> prm_cell ` set qs}"
    then obtain q where q: "q \<in> set qs" "prm_cell q = Some (r * MAX_CHANNELS + cc)" "cc < MAX_CHANNELS" by (metis (no_types, lifting) imageE mem_Collect_eq)
    then have e: "nat (pr_radar q - 1) * 4 + ?f q = r * 4 + cc" "?f q < 4" "cc < 4" "0 \<le> pr_radar q - 1" by (auto simp: prm_cell_def cell_def site_consts split: if_splits)
    then have "(nat (pr_radar q - 1) * 4 + ?f q) div 4 = (r * 4 + cc) div 4" "(nat (pr_radar q - 1) * 4 + ?f q) mod 4 = (r * 4 + cc) mod 4" by simp_all
    then have "nat (pr_radar q - 1) = r" "?f q = cc" using e(2,3) by simp_all
    then show "cc \<in> ?f ` set ?qs" using q(1) e(4) by force
  qed (use cells in force)
  moreover have "distinct (map prm_cell ?qs)" using assms(1) by (simp add: distinct_map_filter)
  then have "inj_on ?f (set ?qs)" "distinct ?qs" using cells by (auto simp: distinct_map inj_on_def)
  moreover have "length ?qs = card (set ?qs)" using \<open>distinct ?qs\<close> by (simp only: distinct_card)
  ultimately show ?thesis by (simp add: num_active_def card_image)
qed

lemma silent_rest:
  assumes "finite A" "B \<subseteq> A" "\<forall>x \<in> A. \<bar>f x\<bar> \<le> (if x \<in> B then a else (0::int))" "int (card B) * a \<le> m"
  shows "(\<Sum>x \<in> A. \<bar>f x\<bar>) \<le> m"
proof -
  have "(\<Sum>x \<in> A. \<bar>f x\<bar>) \<le> (\<Sum>x \<in> A. if x \<in> B then a else 0)" using assms(3) by (intro sum_mono) blast
  also have "\<dots> = (\<Sum>x \<in> B. a)" using assms(1,2) by (simp add: sum.If_cases Int_absorb1)
  finally show ?thesis using assms(4) by simp
qed


lemma amp_bound: "0 \<le> m \<Longrightarrow> int n * (m div int n) \<le> m"
proof -
  assume "0 \<le> m"
  then have "0 \<le> m mod int n" by (cases "n = 0") simp_all
  moreover have "int n * (m div int n) + m mod int n = m" by simp
  ultimately show ?thesis by linarith
qed

definition radar_level :: "nat \<Rightarrow> nat \<Rightarrow> int" where
  "radar_level r n = (DDS_MAX_RADAR_OUTPUT ! r) div int n"

text \<open>The samples of a buffer, by output and time.\<close>

definition shows_clients :: "ControlPRM list \<Rightarrow> int list list \<Rightarrow> nat \<Rightarrow> int list \<Rightarrow> bool" where
  "shows_clients qs seqs n d \<longleftrightarrow> length d = dds_nchan * n \<and>
     (\<forall>k < maxclients. \<forall>i < n. d ! (i * dds_nchan + k) =
        (if Some k \<in> prm_cell ` set qs \<and> i < length (seqs ! k) then seqs ! k ! i * radar_level (k div MAX_CHANNELS) (num_active qs (k div MAX_CHANNELS)) else 0))"

lemma sample_index: "i < n \<Longrightarrow> c < dds_nchan \<Longrightarrow> i * dds_nchan + c < dds_nchan * n"
proof -
  assume "i < n" "c < dds_nchan"
  then have "i * dds_nchan + c < Suc i * dds_nchan" "Suc i * dds_nchan \<le> n * dds_nchan" by (simp, intro mult_le_mono1) simp_all
  then show ?thesis by (simp add: mult.commute)
qed

lemma num_active_pos:
  assumes "distinct (map prm_cell qs)" "None \<notin> prm_cell ` set qs" "Some k \<in> prm_cell ` set qs"
  shows "0 < num_active qs (k div MAX_CHANNELS)" "num_active qs r \<le> DDS_MAX_CHANNELS"
proof -
  let ?A = "\<lambda>r. {cc. cc < MAX_CHANNELS \<and> Some (r * MAX_CHANNELS + cc) \<in> prm_cell ` set qs}"
  have "k mod MAX_CHANNELS \<in> ?A (k div MAX_CHANNELS)" using assms(3) by (simp add: site_consts)
  then show "0 < num_active qs (k div MAX_CHANNELS)" unfolding num_active_card [OF assms(1,2)] by (auto simp: card_gt_0_iff)
  have "card (?A r) \<le> card {..<MAX_CHANNELS}" by (intro card_mono) auto
  then show "num_active qs r \<le> DDS_MAX_CHANNELS" unfolding num_active_card [OF assms(1,2)] by (simp add: site_consts dds_consts)
qed

lemma msi_timing_sequence_shows:
  assumes "distinct (map prm_cell qs)" "None \<notin> prm_cell ` set qs" "length (dd_seq t) = maxclients"
    "\<forall>k. Some k \<in> prm_cell ` set qs \<longrightarrow> length (dd_seq t ! k) \<le> maxlen"
  shows "\<exists>a d. active_map qs = Some a \<and> marks qs a \<and> length a = maxclients \<and> shows_clients qs (dd_seq t) (maxlen + 20) d \<and>
    msi_timing_sequence maxlen qs t = Some (dds_do [Write_Samples d, Write_Samples d] (t\<lparr>dd_active := a\<rparr>))"
proof -
  obtain a where a: "active_map qs = Some a" "length a = maxclients" "marks qs a" using active_map_ok [OF assms(2)] unfolding marks_def by blast
  let ?amp = "\<lambda>r. radar_level r (num_active qs r)"
  have len: "length (replicate (dds_samples maxlen) (0::int)) = dds_nchan * (maxlen + 20)" by (simp add: dds_samples_def)
  have fits: "max_val (k div MAX_CHANNELS) (num_active qs (k div MAX_CHANNELS)) = Some (?amp (k div MAX_CHANNELS)) \<and>
      length (dd_seq t ! k) * dds_nchan \<le> length (replicate (dds_samples maxlen) (0::int))" if k: "Some k \<in> prm_cell ` set qs" for k
  proof
    have "k < maxclients" using k prm_cell_less by force
    then show "max_val (k div MAX_CHANNELS) (num_active qs (k div MAX_CHANNELS)) = Some (?amp (k div MAX_CHANNELS))"
      using num_active_pos [OF assms(1,2) k] by (simp add: max_val_def radar_level_def DDS_MAX_RADAR_OUTPUT_def site_consts)
    show "length (dd_seq t ! k) * dds_nchan \<le> length (replicate (dds_samples maxlen) (0::int))"
      unfolding len using assms(4) k by (metis mult.commute mult_le_mono2 trans_le_add1)
  qed
  obtain d where d: "put_clients (dd_ifmode t) a (num_active qs) maxlen (dd_seq t) qs (replicate (dds_samples maxlen) 0) = Some d"
    "length d = length (replicate (dds_samples maxlen) (0::int))"
    "\<forall>ch < maxclients. \<forall>i. i * dds_nchan + ch < length (replicate (dds_samples maxlen) (0::int)) \<longrightarrow>
       d ! (i * dds_nchan + ch) = (if Some ch \<in> prm_cell ` set qs \<and> i < length (dd_seq t ! ch) then dd_seq t ! ch ! i * ?amp (ch div MAX_CHANNELS)
         else replicate (dds_samples maxlen) 0 ! (i * dds_nchan + ch))"
    using put_clients_ok [OF assms(1,2) subset_refl a(3) assms(3), where num = "num_active qs" and amp = ?amp and d = "replicate (dds_samples maxlen) 0"
        and ifmode = "dd_ifmode t" and maxlen = maxlen] fits by blast
  have "shows_clients qs (dd_seq t) (maxlen + 20) d"
    unfolding shows_clients_def
  proof (intro conjI allI impI)
    fix k i assume k: "k < maxclients" and i: "i < maxlen + 20"
    have "i * dds_nchan + k < dds_nchan * (maxlen + 20)" using sample_index [OF i] k by (simp add: dds_nchan_def)
    then show "d ! (i * dds_nchan + k) = (if Some k \<in> prm_cell ` set qs \<and> i < length (dd_seq t ! k)
        then dd_seq t ! k ! i * radar_level (k div MAX_CHANNELS) (num_active qs (k div MAX_CHANNELS)) else 0)"
      using d(3) k by (simp add: dds_samples_def del: maxclients_eq)
  qed (use d(2) len in simp)
  moreover have "msi_timing_sequence maxlen qs t = Some (dds_do [Write_Samples d, Write_Samples d] (t\<lparr>dd_active := a\<rparr>))"
    using a(1) d(1) by (simp add: msi_timing_sequence_def)
  ultimately show ?thesis using a by blast
qed

lemma shows_clients_level:
  assumes "shows_clients qs seqs n d" "distinct (map prm_cell qs)" "None \<notin> prm_cell ` set qs" "\<forall>k < maxclients. set (seqs ! k) \<subseteq> {-1, 0, 1}"
    "r < MAX_RADARS" "i < n"
  shows "(\<Sum>cc < MAX_CHANNELS. \<bar>d ! (i * dds_nchan + (r * MAX_CHANNELS + cc))\<bar>) \<le> DDS_MAX_RADAR_OUTPUT ! r"
proof -
  let ?B = "{cc. cc < MAX_CHANNELS \<and> Some (r * MAX_CHANNELS + cc) \<in> prm_cell ` set qs}"
  let ?a = "radar_level r (num_active qs r)"
  have pos: "0 \<le> DDS_MAX_RADAR_OUTPUT ! r" using assms(5) by (auto simp: DDS_MAX_RADAR_OUTPUT_def site_consts less_Suc_eq numeral_2_eq_2)
  have a0: "0 \<le> ?a" using pos by (simp add: radar_level_def div_int_pos_iff)
  have "\<bar>d ! (i * dds_nchan + (r * MAX_CHANNELS + cc))\<bar> \<le> (if cc \<in> ?B then ?a else 0)" if cc: "cc < MAX_CHANNELS" for cc
  proof -
    let ?k = "r * MAX_CHANNELS + cc"
    have k: "?k < maxclients" "?k div MAX_CHANNELS = r" using cc assms(5) by (simp_all add: site_consts)
    have v: "d ! (i * dds_nchan + ?k) = (if Some ?k \<in> prm_cell ` set qs \<and> i < length (seqs ! ?k) then seqs ! ?k ! i * ?a else 0)"
      using assms(1,6) k unfolding shows_clients_def by simp
    show ?thesis
    proof (cases "Some ?k \<in> prm_cell ` set qs \<and> i < length (seqs ! ?k)")
      case True
      then have "seqs ! ?k ! i \<in> {-1, 0, 1}" using assms(4) k(1) nth_mem by blast
      then have "\<bar>seqs ! ?k ! i * ?a\<bar> \<le> ?a" using a0 by auto
      then show ?thesis using v True cc by simp
    qed (use v a0 in auto)
  qed
  moreover have "int (card ?B) * ?a \<le> DDS_MAX_RADAR_OUTPUT ! r"
    using amp_bound [OF pos, of "card ?B"] by (simp only: radar_level_def num_active_card [OF assms(2,3)])
  ultimately show ?thesis by (intro silent_rest [where B = ?B and a = ?a]) auto
qed

section \<open>The state of the driver\<close>

definition dds_ok :: "dds \<Rightarrow> bool" where
  "dds_ok t \<longleftrightarrow> (\<exists>qs. holds_list (dd_ready t) qs) \<and> length (dd_pulseseqs t) = maxclients \<and> (\<forall>row \<in> set (dd_pulseseqs t). length row = MAX_SEQS) \<and>
     length (dd_seq t) = maxclients \<and> (\<forall>xs \<in> set (dd_seq t). set xs \<subseteq> {-1, 0, 1}) \<and> length (dd_old_index t) = maxclients \<and> length (dd_active t) = maxclients"

lemma dds_keep_subset: "set (dds_keep us t xs) \<subseteq> set xs"
  by (induction us t xs rule: dds_keep.induct) auto

lemma dds_unpack_signs: "dds_unpack us q = Some xs \<Longrightarrow> set xs \<subseteq> {-1, 0, 1}"
proof -
  assume "dds_unpack us q = Some xs"
  then have "xs = dds_keep us 0 (concat (map (\<lambda>(code, rep). replicate (nat (dds_ratio (tb_step q) * uint rep)) (dds_decodestate code)) (take (nat (tb_len q)) (zip (tb_code q) (tb_rep q)))))"
    by (simp add: dds_unpack_def Let_def split: if_splits)
  moreover have "set (concat (map (\<lambda>(code, rep). replicate (nat (dds_ratio (tb_step q) * uint rep)) (dds_decodestate code)) rs)) \<subseteq> {-1, 0, 1}" for rs
    by (auto simp: dds_decodestate_def)
  ultimately show ?thesis using dds_keep_subset by blast
qed

lemma dds_register_keeps:
  assumes "dds_ok t" "dds_register_msg m ws t = Some (t', ws', out)"
  shows "dds_ok t'"
proof -
  obtain q index i len step rep code k row row' seqs olds where e: "prm_cell q = Some k" "aref (dd_pulseseqs t) (int k) = Some row"
    "aset row index (Some \<lparr>tb_index = i, tb_len = len, tb_step = step, tb_code = code, tb_rep = rep, tb_prm = None\<rparr>) = Some row'"
    "aset (dd_pulseseqs t) (int k) row' = Some seqs" "aset (dd_old_index t) (int k) (-1) = Some olds"
    "t' = t\<lparr>dd_pulseseqs := seqs, dd_old_index := olds, dd_old_seq_id := -10\<rparr>"
    using assms(2) unfolding dds_register_msg_def by (auto simp: bind_eq_Some_conv simp del: aref_of_nat aset_of_nat)
  have "row \<in> set (dd_pulseseqs t)" using e(2) by (auto split: if_splits)
  then have "length row' = MAX_SEQS" using assms(1) e(3) by (auto simp: dds_ok_def aset_Some_iff)
  then have "\<forall>r \<in> set seqs. length r = MAX_SEQS" using assms(1) aset_all [OF e(4), of "\<lambda>r. length r = MAX_SEQS"] by (simp add: dds_ok_def)
  then show ?thesis using assms(1) e(6) aset_length [OF e(4)] aset_length [OF e(5)] by (simp add: dds_ok_def)
qed

lemma dds_ready_keeps:
  assumes "dds_ok t" "dds_ready_msg us m ws t = Some (t', ws', out)"
  shows "dds_ok t'"
proof -
  obtain q k rt old seqs olds where e: "prm_cell q = Some k" "add_ready q (dd_ready t) = Some rt"
    "(if pr_current_pulseseq_index q \<noteq> old then do {
        row \<leftarrow> aref (dd_pulseseqs t) (int k);
        sel \<leftarrow> aref row (pr_current_pulseseq_index q);
        ps \<leftarrow> sel;
        xs \<leftarrow> dds_unpack us ps;
        aset (dd_seq t) (int k) xs
      } else Some (dd_seq t)) = Some seqs"
    "aset (dd_old_index t) (int k) (pr_current_pulseseq_index q) = Some olds"
    "t' = t\<lparr>dd_ready := wrap_ready rt, dd_seq := seqs, dd_old_index := olds\<rparr>"
    using assms(2) unfolding dds_ready_msg_def by (auto simp: bind_eq_Some_conv Let_def simp del: aref_of_nat aset_of_nat)
  have "length seqs = maxclients \<and> (\<forall>xs \<in> set seqs. set xs \<subseteq> {-1, 0, 1})"
  proof (cases "seqs = dd_seq t")
    case False
    then obtain ps xs where xs: "dds_unpack us ps = Some xs" "aset (dd_seq t) (int k) xs = Some seqs"
      using e(3) by (auto simp: bind_eq_Some_conv simp del: aref_of_nat aset_of_nat split: if_splits)
    have "\<forall>ys \<in> set seqs. set ys \<subseteq> {-1, 0, 1}" by (rule aset_all [OF xs(2)]) (use assms(1) dds_unpack_signs [OF xs(1)] in \<open>simp_all add: dds_ok_def\<close>)
    then show ?thesis using assms(1) aset_length [OF xs(2)] by (simp add: dds_ok_def)
  qed (use assms(1) in \<open>simp add: dds_ok_def\<close>)
  then show ?thesis using assms(1) e(5) aset_length [OF e(4)] add_ready_keeps [OF _ e(2)] by (simp add: dds_ok_def)
qed

lemma active_map_length: "None \<notin> prm_cell ` set qs \<Longrightarrow> active_map qs = Some a \<Longrightarrow> length a = maxclients"
  using active_map_ok by fastforce

lemma dds_do_simps [simp]:
  "dd_ready (dds_do ops t) = dd_ready t" "dd_seq (dds_do ops t) = dd_seq t" "dd_pulseseqs (dds_do ops t) = dd_pulseseqs t"
  "dd_old_index (dds_do ops t) = dd_old_index t" "dd_old_seq_id (dds_do ops t) = dd_old_seq_id t" "dd_active (dds_do ops t) = dd_active t"
  "dd_ifmode (dds_do ops t) = dd_ifmode t" "dd_ops (dds_do ops t) = dd_ops t @ ops"
  by (simp_all add: dds_do_def)

lemma clients_loads_returns: "None \<notin> prm_cell ` set qs \<Longrightarrow> \<exists>l. clients_loads ifmode a qs = Some l"
proof (induction qs)
  case (Cons q qs)
  obtain k where "prm_cell q = Some k" using Cons.prems by (cases "prm_cell q") auto
  then obtain a' where "client_loads ifmode a q = Some a'" by (simp add: client_loads_def Let_def)
  then show ?case using Cons by auto
qed simp

lemma dds_longest_bounds:
  assumes "None \<notin> prm_cell ` set qs" "length seqs = maxclients"
  shows "\<exists>n. dds_longest seqs qs n0 = Some n \<and> n0 \<le> n \<and> (\<forall>k. Some k \<in> prm_cell ` set qs \<longrightarrow> length (seqs ! k) \<le> n)"
  using assms
proof (induction qs arbitrary: n0)
  case (Cons q qs)
  obtain k where k: "prm_cell q = Some k" using Cons.prems(1) by (cases "prm_cell q") auto
  then have "k < length seqs" using prm_cell_less Cons.prems(2) by simp
  then show ?case using Cons.IH [of "max n0 (length (seqs ! k))"] Cons.prems k by (auto simp: max_def)
qed simp

text \<open>What a pretrigger does.\<close>

lemma dds_pretrigger_returns:
  assumes "dds_ok t"
  defines "qs \<equiv> ready_clients (dd_ready t)"
  shows "\<exists>maxlen t1 loads. dds_longest (dd_seq t) qs 0 = Some maxlen \<and> clients_loads (dd_ifmode t) (dd_active t1) qs = Some loads \<and>
    (if dds_seq_id qs \<noteq> dd_old_seq_id t then msi_timing_sequence maxlen qs (dds_do [One_Shot] t) else Some (dds_do [One_Shot] t)) = Some t1 \<and>
    dds_pretrigger_msg m ws t = Some ((dds_do (quiet_loads @ loads @ [One_Shot]) t1)\<lparr>dd_ready := clear_ready (dd_ready t),
      dd_old_seq_id := (if dds_seq_id qs < 0 then -10 else dds_seq_id qs)\<rparr>, ws, [W_DriverMsg (m\<lparr>dm_status := 0\<rparr>)]) \<and>
    dd_ready t1 = dd_ready t \<and> dd_ifmode t1 = dd_ifmode t \<and> dd_seq t1 = dd_seq t \<and> dd_pulseseqs t1 = dd_pulseseqs t \<and>
    dd_old_index t1 = dd_old_index t \<and> length (dd_active t1) = maxclients"
proof -
  obtain xs where "holds_list (dd_ready t) xs" using assms(1) by (auto simp: dds_ok_def)
  note qs = ready_clients_cells [OF this, folded qs_def]
  have len: "length (dd_seq t) = maxclients" using assms(1) by (simp add: dds_ok_def)
  obtain n where n: "dds_longest (dd_seq t) qs 0 = Some n" "\<forall>k. Some k \<in> prm_cell ` set qs \<longrightarrow> length (dd_seq t ! k) \<le> n"
    using dds_longest_bounds [OF qs(2) len] by blast
  obtain a d where "msi_timing_sequence n qs (dds_do [One_Shot] t) = Some (dds_do [Write_Samples d, Write_Samples d] ((dds_do [One_Shot] t)\<lparr>dd_active := a\<rparr>))" "length a = maxclients"
    using msi_timing_sequence_shows [OF qs, of "dds_do [One_Shot] t" n] len n(2) by auto
  then have "\<exists>t1. (if dds_seq_id qs \<noteq> dd_old_seq_id t then msi_timing_sequence n qs (dds_do [One_Shot] t) else Some (dds_do [One_Shot] t)) = Some t1 \<and>
      dd_ready t1 = dd_ready t \<and> dd_ifmode t1 = dd_ifmode t \<and> dd_seq t1 = dd_seq t \<and> dd_pulseseqs t1 = dd_pulseseqs t \<and>
      dd_old_index t1 = dd_old_index t \<and> length (dd_active t1) = maxclients"
    using assms(1) by (auto simp: dds_ok_def)
  then obtain t1 where t1: "(if dds_seq_id qs \<noteq> dd_old_seq_id t then msi_timing_sequence n qs (dds_do [One_Shot] t) else Some (dds_do [One_Shot] t)) = Some t1"
    "dd_ready t1 = dd_ready t" "dd_ifmode t1 = dd_ifmode t" "dd_seq t1 = dd_seq t" "dd_pulseseqs t1 = dd_pulseseqs t"
    "dd_old_index t1 = dd_old_index t" "length (dd_active t1) = maxclients" by blast
  obtain loads where loads: "clients_loads (dd_ifmode t) (dd_active t1) qs = Some loads" using clients_loads_returns [OF qs(2)] by blast
  have "dds_pretrigger_msg m ws t = Some ((dds_do (quiet_loads @ loads @ [One_Shot]) t1)\<lparr>dd_ready := clear_ready (dd_ready t),
      dd_old_seq_id := (if dds_seq_id qs < 0 then -10 else dds_seq_id qs)\<rparr>, ws, [W_DriverMsg (m\<lparr>dm_status := 0\<rparr>)])"
    unfolding dds_pretrigger_msg_def Let_def dds_do_simps qs_def [symmetric] n(1) Option.bind_lunit t1(1) t1(3) loads t1(2) by (rule refl)
  then show ?thesis using n(1) t1 loads by blast
qed

lemma dds_pretrigger_keeps:
  assumes "dds_ok t" "dds_pretrigger_msg m ws t = Some (t', ws', out)"
  shows "dds_ok t'"
proof -
  have "\<exists>qs. holds_list (clear_ready (dd_ready t)) qs" using assms(1) clear_ready_keeps by (simp add: dds_ok_def)
  moreover obtain t1 loads where "t' = (dds_do (quiet_loads @ loads @ [One_Shot]) t1)\<lparr>dd_ready := clear_ready (dd_ready t),
      dd_old_seq_id := (if dds_seq_id (ready_clients (dd_ready t)) < 0 then -10 else dds_seq_id (ready_clients (dd_ready t)))\<rparr>"
    "dd_seq t1 = dd_seq t" "dd_pulseseqs t1 = dd_pulseseqs t" "dd_old_index t1 = dd_old_index t" "length (dd_active t1) = maxclients"
    using dds_pretrigger_returns [OF assms(1), of m ws] assms(2) by auto
  ultimately show ?thesis using assms(1) by (simp add: dds_ok_def)
qed

lemma dds_msg_keeps:
  assumes "dds_ok t" "dds_msg us ws t = Some (t', ws', out)"
  shows "dds_ok t'"
proof -
  have plain: "dds_ok (t\<lparr>dd_old_seq_id := x\<rparr>)" "dds_ok (t\<lparr>dd_ifmode := y\<rparr>)" for x y using assms(1) by (simp_all add: dds_ok_def)
  obtain m ws1 where m: "rx_msg ws = Some (m, ws1)" using assms(2) by (auto simp: dds_msg_def bind_eq_Some_conv)
  show ?thesis
    using assms unfolding dds_msg_def m
    by (auto simp: dds_rxfe_msg_def bind_eq_Some_conv plain split: if_splits
        intro: dds_register_keeps [OF assms(1)] dds_ready_keeps [OF assms(1)] dds_pretrigger_keeps [OF assms(1)])
qed

section \<open>Tuning\<close>

text \<open>The frequency an output has been loaded with last.\<close>

definition tune :: "int \<Rightarrow> int \<Rightarrow> dds_op \<Rightarrow> real option \<Rightarrow> real option" where
  "tune r c op f = (case op of Load_Frequency r' c' v \<Rightarrow> if r' = r \<and> c' = c then Some v else f | _ \<Rightarrow> f)"

definition tuned :: "int \<Rightarrow> int \<Rightarrow> dds_op list \<Rightarrow> real option" where
  "tuned r c ops = fold (tune r c) ops None"

lemma tune_simps [simp]:
  "tune r c (Load_Frequency r' c' v) f = (if r' = r \<and> c' = c then Some v else f)" "tune r c One_Shot f = f" "tune r c (Load_Phase r' c' v) f = f"
  "tune r c (Load_Taps r' c' n) f = f" "tune r c (Write_Samples d) f = f"
  by (simp_all add: tune_def)

lemma fold_tune_quiet: "k < maxclients \<Longrightarrow> fold (tune (int (k div MAX_CHANNELS) + 1) (int (k mod MAX_CHANNELS) + 1)) quiet_loads f = Some 0"
proof -
  assume "k < maxclients"
  then have "k = 0 \<or> k = 1 \<or> k = 2 \<or> k = 3 \<or> k = 4 \<or> k = 5 \<or> k = 6 \<or> k = 7" by auto
  then show ?thesis by (elim disjE) (simp_all add: quiet_loads_def site_consts dds_consts upto_rec1)
qed

lemma row_mark:
  assumes "marks ps active" "Some k \<in> prm_cell ` set ps" "length active = maxclients" "cc < DDS_MAX_CHANNELS" "k < maxclients"
  shows "take DDS_MAX_CHANNELS (drop (k div MAX_CHANNELS * MAX_CHANNELS) active) ! cc = int (k mod MAX_CHANNELS) \<longleftrightarrow> cc = k mod MAX_CHANNELS"
proof -
  let ?j = "k div MAX_CHANNELS * MAX_CHANNELS + cc"
  have "k div 4 \<le> 1" using assms(5) by simp
  then have j: "?j < maxclients" "?j mod MAX_CHANNELS = cc" using assms(4) by (simp_all add: site_consts dds_consts)
  have "active ! ?j = int cc \<or> active ! ?j = -1" using assms(1) j unfolding marks_def by (metis (no_types, lifting))
  moreover have "active ! k = int (k mod MAX_CHANNELS)" using assms(1,2,5) unfolding marks_def by simp
  moreover have "cc = k mod MAX_CHANNELS \<Longrightarrow> ?j = k" by simp
  moreover have "take DDS_MAX_CHANNELS (drop (k div MAX_CHANNELS * MAX_CHANNELS) active) ! cc = active ! ?j" using assms(3,4) j(1) by simp
  ultimately show ?thesis by (cases "cc = k mod MAX_CHANNELS") auto
qed

lemma concat_one: "c \<in> set xs \<Longrightarrow> distinct xs \<Longrightarrow> \<forall>x \<in> set xs. P x \<longleftrightarrow> x = c \<Longrightarrow> concat (map (\<lambda>x. if P x then f x else []) xs) = f c"
proof (induction xs)
  case (Cons x xs)
  show ?case
  proof (cases "x = c")
    case True
    then have "\<forall>y \<in> set xs. \<not> P y" using Cons.prems(2,3) by auto
    then have "concat (map (\<lambda>x. if P x then f x else []) xs) = []" by simp
    then show ?thesis using True Cons.prems(3) by simp
  qed (use Cons in simp)
qed simp

lemma client_loads_own:
  assumes "marks ps active" "prm_cell q = Some k" "q \<in> set ps" "length active = maxclients"
  shows "client_loads ifmode active q = Some ([Load_Frequency (pr_radar q) (pr_channel q) (real_of_int (pr_tfreq q) * 1000), Load_Phase (pr_radar q) (pr_channel q) 0,
      Load_Taps (pr_radar q) (pr_channel q) (pr_trise q)] @ (if ifmode = 1
       then [Load_Frequency (pr_radar q + 2) (pr_channel q) (real_of_int (IF_FREQ - pr_tfreq q) * 1000 / 2), Load_Taps (pr_radar q + 2) (pr_channel q) (pr_trise q),
             Load_Phase (pr_radar q + 2) (pr_channel q) 0] else []))"
proof -
  note pk = prm_cell_Some [OF assms(2)]
  have k: "k < maxclients" "Some k \<in> prm_cell ` set ps" using prm_cell_less [OF assms(2)] assms(2,3) by force+
  have "concat (map (\<lambda>cc. if take DDS_MAX_CHANNELS (drop (k div MAX_CHANNELS * MAX_CHANNELS) active) ! cc = int (k mod MAX_CHANNELS) then f cc else []) [0..<DDS_MAX_CHANNELS]) =
      f (k mod MAX_CHANNELS)" for f :: "nat \<Rightarrow> dds_op list"
    by (rule concat_one) (use row_mark [OF assms(1) k(2) assms(4) _ k(1)] in \<open>simp_all add: site_consts dds_consts\<close>)
  then show ?thesis using assms(2) pk by (simp add: client_loads_def Let_def)
qed

lemma clients_loads_tuned:
  assumes "marks ps active" "set qs \<subseteq> set ps" "distinct (map prm_cell qs)" "None \<notin> prm_cell ` set qs" "length active = maxclients"
    "clients_loads ifmode active qs = Some l"
  shows "q \<in> set qs \<Longrightarrow> fold (tune (pr_radar q) (pr_channel q)) l f = Some (real_of_int (pr_tfreq q) * 1000)"
    and "\<forall>q \<in> set qs. \<not> (pr_radar q = r \<and> pr_channel q = c) \<Longrightarrow> r \<le> int MAX_RADARS \<Longrightarrow> fold (tune r c) l f = f"
proof -
  have "(\<forall>q \<in> set qs. fold (tune (pr_radar q) (pr_channel q)) l f = Some (real_of_int (pr_tfreq q) * 1000)) \<and>
    (\<forall>r c. (\<forall>q \<in> set qs. \<not> (pr_radar q = r \<and> pr_channel q = c)) \<and> r \<le> int MAX_RADARS \<longrightarrow> fold (tune r c) l f = f)"
    using assms(2-4,6)
  proof (induction qs arbitrary: f l)
    case (Cons q qs)
    obtain k where k: "prm_cell q = Some k" using Cons.prems(3) by (cases "prm_cell q") auto
    obtain a b where ab: "client_loads ifmode active q = Some a" "clients_loads ifmode active qs = Some b" "l = a @ b"
      using Cons.prems(4) by (auto simp: bind_eq_Some_conv)
    have rad: "1 \<le> pr_radar x \<and> pr_radar x \<le> int MAX_RADARS" if "x \<in> set (q # qs)" for x
      using that Cons.prems(3) by (force simp: prm_cell_def cell_def split: if_splits)
    have one: "fold (tune r c) a f = (if pr_radar q = r \<and> pr_channel q = c then Some (real_of_int (pr_tfreq q) * 1000) else f)" if "r \<le> int MAX_RADARS" for r c f
      using client_loads_own [OF assms(1) k _ assms(5), of ifmode] Cons.prems(1) ab(1) that rad [of q] by (auto simp: site_consts)
    have ih: "\<forall>q \<in> set qs. fold (tune (pr_radar q) (pr_channel q)) b f' = Some (real_of_int (pr_tfreq q) * 1000)"
      "\<forall>r c. (\<forall>q \<in> set qs. \<not> (pr_radar q = r \<and> pr_channel q = c)) \<and> r \<le> int MAX_RADARS \<longrightarrow> fold (tune r c) b f' = f'" for f'
      using Cons.IH [OF _ _ _ ab(2), of f'] Cons.prems(1-3) by auto
    have "\<not> (pr_radar x = pr_radar q \<and> pr_channel x = pr_channel q)" if "x \<in> set qs" for x
    proof -
      have "prm_cell q \<notin> prm_cell ` set qs" using Cons.prems(2) by simp
      then have "prm_cell x \<noteq> prm_cell q" using that by (metis image_eqI)
      then show ?thesis by (auto simp: prm_cell_def)
    qed
    then have "fold (tune (pr_radar q) (pr_channel q)) l f = Some (real_of_int (pr_tfreq q) * 1000)" using ih(2) one rad [of q] ab(3) by simp
    then show ?case using ih one ab(3) rad by auto
  qed simp
  then show "q \<in> set qs \<Longrightarrow> fold (tune (pr_radar q) (pr_channel q)) l f = Some (real_of_int (pr_tfreq q) * 1000)"
    "\<forall>q \<in> set qs. \<not> (pr_radar q = r \<and> pr_channel q = c) \<Longrightarrow> r \<le> int MAX_RADARS \<Longrightarrow> fold (tune r c) l f = f" by blast+
qed

section \<open>Properties\<close>

text \<open>A pretrigger for a set of sequences that is not the loaded one.\<close>

lemma dds_pretrigger_new:
  assumes "dds_ok t" "dds_seq_id (ready_clients (dd_ready t)) \<noteq> dd_old_seq_id t"
  shows "\<exists>t' a d n loads. dds_pretrigger_msg m ws t = Some (t', ws, [W_DriverMsg (m\<lparr>dm_status := 0\<rparr>)]) \<and>
    dd_ops t' = dd_ops t @ [One_Shot, Write_Samples d, Write_Samples d] @ quiet_loads @ loads @ [One_Shot] \<and>
    shows_clients (ready_clients (dd_ready t)) (dd_seq t) n d \<and> marks (ready_clients (dd_ready t)) a \<and> length a = maxclients \<and>
    clients_loads (dd_ifmode t) a (ready_clients (dd_ready t)) = Some loads \<and> ready_clients (dd_ready t') = []"
proof -
  let ?qs = "ready_clients (dd_ready t)"
  obtain n t1 loads where p: "dds_longest (dd_seq t) ?qs 0 = Some n" "clients_loads (dd_ifmode t) (dd_active t1) ?qs = Some loads"
    "msi_timing_sequence n ?qs (dds_do [One_Shot] t) = Some t1"
    "dds_pretrigger_msg m ws t = Some ((dds_do (quiet_loads @ loads @ [One_Shot]) t1)\<lparr>dd_ready := clear_ready (dd_ready t),
      dd_old_seq_id := (if dds_seq_id ?qs < 0 then -10 else dds_seq_id ?qs)\<rparr>, ws, [W_DriverMsg (m\<lparr>dm_status := 0\<rparr>)])"
    using dds_pretrigger_returns [OF assms(1), of m ws] assms(2) by auto
  obtain xs where "holds_list (dd_ready t) xs" using assms(1) by (auto simp: dds_ok_def)
  note qs = ready_clients_cells [OF this]
  have len: "length (dd_seq (dds_do [One_Shot] t)) = maxclients" using assms(1) by (simp add: dds_ok_def)
  have "\<forall>k. Some k \<in> prm_cell ` set ?qs \<longrightarrow> length (dd_seq (dds_do [One_Shot] t) ! k) \<le> n"
    using dds_longest_bounds [OF qs(2), of "dd_seq t" 0] len p(1) by auto
  then obtain a d where "marks ?qs a" "length a = maxclients" "shows_clients ?qs (dd_seq t) (n + 20) d"
    "t1 = dds_do [Write_Samples d, Write_Samples d] ((dds_do [One_Shot] t)\<lparr>dd_active := a\<rparr>)"
    using msi_timing_sequence_shows [OF qs len, of n] p(3) by auto
  then show ?thesis using p(2,4) by (auto simp: clear_ready_def ready_clients_def)
qed

text \<open>
  C8: a pretrigger for new sequences writes a buffer in which every channel with a ready client carries the samples
  of its sequence at the level of its radar, divided by the number of its active channels, and every other channel is silent; at each time the
  levels of the channels of a radar add up to no more than what the radar may put out.
\<close>

theorem dds_levels_bounded:
  assumes "dds_ok t" "dds_seq_id (ready_clients (dd_ready t)) \<noteq> dd_old_seq_id t"
  shows "\<exists>t' d n loads. dds_pretrigger_msg m ws t = Some (t', ws, [W_DriverMsg (m\<lparr>dm_status := 0\<rparr>)]) \<and>
    dd_ops t' = dd_ops t @ [One_Shot, Write_Samples d, Write_Samples d] @ quiet_loads @ loads @ [One_Shot] \<and>
    shows_clients (ready_clients (dd_ready t)) (dd_seq t) n d \<and>
    (\<forall>r < MAX_RADARS. \<forall>i < n. (\<Sum>cc < MAX_CHANNELS. \<bar>d ! (i * dds_nchan + (r * MAX_CHANNELS + cc))\<bar>) \<le> DDS_MAX_RADAR_OUTPUT ! r)"
proof -
  obtain xs where "holds_list (dd_ready t) xs" using assms(1) by (auto simp: dds_ok_def)
  note qs = ready_clients_cells [OF this]
  have "\<forall>k < maxclients. set (dd_seq t ! k) \<subseteq> {-1, 0, 1}" using assms(1) by (simp add: dds_ok_def)
  then show ?thesis using dds_pretrigger_new [OF assms, of m ws] shows_clients_level [OF _ qs] by blast
qed

text \<open>
  C23: after that pretrigger the output of every ready client is tuned to the frequency of the client and every other output
  of the two radars to zero.
\<close>

theorem dds_tunes_outputs:
  assumes "dds_ok t" "dds_seq_id (ready_clients (dd_ready t)) \<noteq> dd_old_seq_id t"
  shows "\<exists>t'. dds_pretrigger_msg m ws t = Some (t', ws, [W_DriverMsg (m\<lparr>dm_status := 0\<rparr>)]) \<and>
    (\<forall>q \<in> set (ready_clients (dd_ready t)). tuned (pr_radar q) (pr_channel q) (dd_ops t') = Some (real_of_int (pr_tfreq q) * 1000)) \<and>
    (\<forall>k < maxclients. Some k \<notin> prm_cell ` set (ready_clients (dd_ready t)) \<longrightarrow>
       tuned (int (k div MAX_CHANNELS) + 1) (int (k mod MAX_CHANNELS) + 1) (dd_ops t') = Some 0)"
proof -
  let ?qs = "ready_clients (dd_ready t)"
  obtain xs where "holds_list (dd_ready t) xs" using assms(1) by (auto simp: dds_ok_def)
  note qs = ready_clients_cells [OF this]
  obtain t' a d loads where t': "dds_pretrigger_msg m ws t = Some (t', ws, [W_DriverMsg (m\<lparr>dm_status := 0\<rparr>)])"
    "dd_ops t' = dd_ops t @ [One_Shot, Write_Samples d, Write_Samples d] @ quiet_loads @ loads @ [One_Shot]"
    "marks ?qs a" "length a = maxclients" "clients_loads (dd_ifmode t) a ?qs = Some loads"
    using dds_pretrigger_new [OF assms, of m ws] by blast
  note tuned = clients_loads_tuned [OF t'(3) subset_refl qs t'(4,5)]
  have "tuned (int (k div MAX_CHANNELS) + 1) (int (k mod MAX_CHANNELS) + 1) (dd_ops t') = Some 0" if k: "k < maxclients" "Some k \<notin> prm_cell ` set ?qs" for k
  proof -
    have "\<not> (pr_radar q = int (k div MAX_CHANNELS) + 1 \<and> pr_channel q = int (k mod MAX_CHANNELS) + 1)" if q: "q \<in> set ?qs" for q
    proof
      assume "pr_radar q = int (k div MAX_CHANNELS) + 1 \<and> pr_channel q = int (k mod MAX_CHANNELS) + 1"
      then have "prm_cell q = Some k" using k(1) by (simp add: prm_cell_def cell_def site_consts)
      then show False using k(2) q by force
    qed
    moreover have "int (k div MAX_CHANNELS) + 1 \<le> int MAX_RADARS" using k(1) by (simp add: site_consts)
    ultimately show ?thesis using tuned(2) fold_tune_quiet [OF k(1)] by (simp add: tuned_def t'(2))
  qed
  then show ?thesis using t'(1) tuned(1) by (simp add: tuned_def t'(2))
qed


section \<open>Examples\<close>

definition dds_example :: dds where
  "dds_example = \<lparr>dd_ready = \<lparr>rt_clients = replicate 8 (plain_prm 1 1 0), rt_num = 1, rt_index = 0 # replicate 7 (-1)\<rparr>,
     dd_pulseseqs = replicate 8 (replicate MAX_SEQS None), dd_seq = [0, 1, -1] # replicate 7 [], dd_old_index = replicate 8 (-1), dd_old_seq_id = -10,
     dd_active = replicate 8 (-1), dd_ifmode = 0, dd_ops = []\<rparr>"

lemma dds_example_ok:
  "dds_ok dds_example" "ready_clients (dd_ready dds_example) = [plain_prm 1 1 0]" "dds_seq_id [plain_prm 1 1 0] \<noteq> dd_old_seq_id dds_example"
  using one_ready holds_clients [OF one_ready]
  by (auto simp: dds_ok_def dds_example_def dds_seq_id_def plain_prm_def)

theorem dds_levels_bounded_witness:
  "\<exists>t' d n loads. dds_pretrigger_msg \<lparr>dm_type = PRETRIGGER_code, dm_status = 1\<rparr> [] dds_example = Some (t', [], [drv_msg PRETRIGGER_code 0]) \<and>
    dd_ops t' = [One_Shot, Write_Samples d, Write_Samples d] @ quiet_loads @ loads @ [One_Shot] \<and>
    shows_clients [plain_prm 1 1 0] ([0, 1, -1] # replicate 7 []) n d \<and>
    (\<forall>r < MAX_RADARS. \<forall>i < n. (\<Sum>cc < MAX_CHANNELS. \<bar>d ! (i * dds_nchan + (r * MAX_CHANNELS + cc))\<bar>) \<le> DDS_MAX_RADAR_OUTPUT ! r)"
proof -
  have "dd_ops dds_example = []" "dd_seq dds_example = [0, 1, -1] # replicate 7 []" by (simp_all add: dds_example_def)
  then show ?thesis
    using dds_levels_bounded [of dds_example "\<lparr>dm_type = PRETRIGGER_code, dm_status = 1\<rparr>" "[]"] dds_example_ok by simp
qed

theorem dds_tunes_outputs_witness:
  "\<exists>t'. dds_pretrigger_msg \<lparr>dm_type = PRETRIGGER_code, dm_status = 1\<rparr> [] dds_example = Some (t', [], [drv_msg PRETRIGGER_code 0]) \<and>
    tuned 1 1 (dd_ops t') = Some 10000000 \<and> tuned 2 1 (dd_ops t') = Some 0"
proof -
  let ?m = "\<lparr>dm_type = PRETRIGGER_code, dm_status = 1\<rparr>"
  obtain t' where t': "dds_pretrigger_msg ?m [] dds_example = Some (t', [], [W_DriverMsg (?m\<lparr>dm_status := 0\<rparr>)])"
    "\<forall>q \<in> set [plain_prm 1 1 0]. tuned (pr_radar q) (pr_channel q) (dd_ops t') = Some (real_of_int (pr_tfreq q) * 1000)"
    "\<forall>k < maxclients. Some k \<notin> prm_cell ` set [plain_prm 1 1 0] \<longrightarrow> tuned (int (k div MAX_CHANNELS) + 1) (int (k mod MAX_CHANNELS) + 1) (dd_ops t') = Some 0"
    using dds_tunes_outputs [of dds_example ?m "[]"] dds_example_ok by auto
  have "tuned 1 1 (dd_ops t') = Some 10000000" using t'(2) by (simp add: plain_prm_def)
  moreover have "tuned 2 1 (dd_ops t') = Some 0" using t'(3) [THEN spec, of 4] by (simp add: plain_cell site_consts)
  ultimately show ?thesis using t'(1) by simp
qed

end
