(* ===== verification/Driver_Protocol.thy ===== *)
theory Driver_Protocol
  imports Coordination Timing_Driver Dio_Driver Dds_Driver
begin

text \<open>
  The server and its drivers together. A driver process starts in the state \<^verbatim>\<open>main\<close> sets up and handles messages from then on; the locale
  \<open>driver_link\<close> states what the server relies on, an invariant of the process and one answer to each request, and is interpreted by the
  timing, digital I/O and synthesiser drivers. The lemmas show that every function of the server that talks to a driver stays in step with
  it in every state the driver can reach, and that a whole trigger goes through.
\<close>

section \<open>Driver processes\<close>

text \<open>
  A driver is started, handles messages, and may do work of its own in between (\<open>tick\<close>). \<open>e\<close> is what the hardware shows at
  that moment.
\<close>

inductive driver_reaches :: "('e \<Rightarrow> wire list \<Rightarrow> 's \<Rightarrow> ('s \<times> wire list \<times> wire list) option) \<Rightarrow> ('e \<Rightarrow> 's \<Rightarrow> 's) \<Rightarrow> ('s \<Rightarrow> bool) \<Rightarrow> 's \<Rightarrow> bool"
  for handle tick start where
  started: "start t \<Longrightarrow> driver_reaches handle tick start t"
| handled: "driver_reaches handle tick start t \<Longrightarrow> handle e ws t = Some (t', rest, out) \<Longrightarrow> driver_reaches handle tick start t'"
| ticked: "driver_reaches handle tick start t \<Longrightarrow> driver_reaches handle tick start (tick e t)"

text \<open>Variables and arrays that \<^verbatim>\<open>main\<close> does not initialise are arguments; a sequence buffer that has not been filled is empty.\<close>

definition no_ready :: "ControlPRM list \<Rightarrow> ready_table" where
  "no_ready clients = \<lparr>rt_clients = clients, rt_num = 0, rt_index = replicate maxclients (-1)\<rparr>"

definition timing_start :: "(nat \<Rightarrow> u32) \<Rightarrow> ControlPRM list \<Rightarrow> (nat \<Rightarrow> u32) \<Rightarrow> int list \<Rightarrow> int list \<Rightarrow> timing" where
  "timing_start rd clients master starts durs =
    \<lparr>td_ready = no_ready clients, td_pulseseqs = replicate maxclients (replicate MAX_SEQS None), td_seq = replicate maxclients [], td_master = master,
     td_old_seq_id = -10, td_max_seq_count = 0, td_bad = \<lparr>tr_length = 0, tr_start_usec = starts, tr_duration_usec = durs\<rparr>,
     td_writingFIFO = False, td_xfercount = 0, td_dma_count = 0, td_flags = False,
     td_card = [Out32 0x00 0x40, Out32 0x04 0x01, Out32 0x04 0x601, Out32 0x2c 0, Out32 0x2c 6, Out32 0x2c 0x56, Out32 0x24 50, Out32 0x2c 0x46,
       Out32 0x1c 0, Out32 0x04 0x41, Out32 0x18 (push_bit 16 256 OR 256), Out32 0x18 (push_bit 16 256 OR 256), Out32 0x0c (rd 0x0c OR 0x04),
       Out32 0x0c (rd 0x0c AND 0xffffff00), Out32 0x0c (rd 0x0c OR 0x01)]\<rparr>"

definition dds_start :: "ControlPRM list \<Rightarrow> int list \<Rightarrow> dds" where
  "dds_start clients active =
    \<lparr>dd_ready = no_ready clients, dd_pulseseqs = replicate maxclients (replicate MAX_SEQS None), dd_seq = replicate maxclients [],
     dd_old_index = replicate maxclients (-1), dd_old_seq_id = -10, dd_active = active, dd_ifmode = 0, dd_ops = []\<rparr>"

text \<open>The settings before the server has sent any: all attenuators, no amplifier.\<close>

definition default_rxfe :: "int \<Rightarrow> RXFESettings" where
  "default_rxfe mode = \<lparr>rx_ifmode = mode, rx_amp1 = 0, rx_amp2 = 0, rx_amp3 = 0, rx_att1 = 1, rx_att2 = 1, rx_att3 = 1, rx_att4 = 1\<rparr>"

definition dio_start :: "ControlPRM list \<Rightarrow> beam_table option list \<Rightarrow> ports \<Rightarrow> dio" where
  "dio_start clients tables p =
    (let ones = replicate MAX_TRANSMITTERS 1 in
     apply_rxfe \<lparr>di_ports = fold (\<lambda>a p. p(a := 0)) [PA_GRP 0, PB_GRP 0, PC_GRP 0, PA_GRP 1, PB_GRP 1, PA_GRP 2, PB_GRP 2, PC_GRP 2, PA_GRP 3, PB_GRP 3,
         PC_GRP 4, PA_GRP 4] p,
       di_ready = no_ready clients, di_tables = tables, di_ifmode = 0, di_rf_addr = of_int (build_RXFE_EEPROM_address (default_rxfe 0)),
       di_if_addr = of_int (build_RXFE_EEPROM_address (default_rxfe 1)),
       di_txstatus = \<lparr>tx_LOWPWR = ones, tx_AGC = ones, tx_stat = replicate MAX_TRANSMITTERS 0xf\<rparr>\<rparr>)"

definition timing_started :: "timing \<Rightarrow> bool" where
  "timing_started t \<longleftrightarrow> (\<exists>rd clients master starts durs. length clients = maxclients \<and> length starts = MAX_PULSES \<and> length durs = MAX_PULSES \<and>
     t = timing_start rd clients master starts durs)"

definition dds_started :: "dds \<Rightarrow> bool" where
  "dds_started t \<longleftrightarrow> (\<exists>clients active. length clients = maxclients \<and> length active = maxclients \<and> t = dds_start clients active)"

definition dio_started :: "dio \<Rightarrow> bool" where
  "dio_started t \<longleftrightarrow> (\<exists>clients tables p. length clients = maxclients \<and> tables_ok tables \<and> t = dio_start clients tables p)"

text \<open>The processes; the timing driver's own work is a turn of \<^verbatim>\<open>int_handler\<close>.\<close>

abbreviation timing_reaches :: "timing \<Rightarrow> bool" where
  "timing_reaches \<equiv> driver_reaches (\<lambda>(rd, dead). timing_msg rd dead) (\<lambda>(rd, dead). int_handler rd) timing_started"

abbreviation dds_reaches :: "real \<Rightarrow> dds \<Rightarrow> bool" where
  "dds_reaches us \<equiv> driver_reaches (\<lambda>_ :: unit. dds_msg us) (\<lambda>_ t. t) dds_started"

abbreviation dio_reaches :: "dio \<Rightarrow> bool" where
  "dio_reaches \<equiv> driver_reaches dio_msg (\<lambda>_ t. t) dio_started"

section \<open>Conversations\<close>

text \<open>
  A function of the server and a driver are in step: the driver consumes exactly what the function sends, and
  the function consumes exactly what the driver answers.
\<close>

definition deliver :: "drv \<Rightarrow> wire list \<Rightarrow> server \<Rightarrow> server" where
  "deliver d ws s = s\<lparr>sv_in := (sv_in s)(Driver d := ws @ sv_in s (Driver d))\<rparr>"

definition in_step :: "drv \<Rightarrow> (wire list \<Rightarrow> 's \<Rightarrow> ('s \<times> wire list \<times> wire list) option) \<Rightarrow> (server \<Rightarrow> server option) \<Rightarrow> server \<Rightarrow> 's \<Rightarrow> server \<Rightarrow> 's \<Rightarrow> bool" where
  "in_step d handle call s t s' t' \<longleftrightarrow> (\<exists>ws ans. handle ws t = Some (t', [], ans) \<and> call (deliver d ans s) = Some s' \<and>
     sv_out s' = sv_out s @ map (Pair (Driver d)) ws \<and> sv_in s' = sv_in s)"

lemma request_in_step:
  assumes "handle ws t = Some (t', [], [W_DriverMsg m])"
  shows "\<exists>s'. in_step d handle (request d ws) s t s' t'"
proof -
  have "request d ws (deliver d [W_DriverMsg m] s) = Some (s\<lparr>sv_out := sv_out s @ map (Pair (Driver d)) ws\<rparr>)"
    by (simp add: request_def recv_from_def send_all_def deliver_def)
  then show ?thesis using assms unfolding in_step_def by force
qed

lemma send_in_step:
  assumes "handle [w] t = Some (t', [], [])"
  shows "in_step d handle (\<lambda>s. Some (send_to (Driver d) w s)) s t (send_to (Driver d) w s) t'"
  using assms unfolding in_step_def by (intro exI [of _ "[w]"] exI [of _ "[]"]) (simp add: deliver_def)

text \<open>
  The contract of a driver process: an invariant that holds from the start, and requests that are answered with one message.
\<close>

locale driver_link =
  fixes handle :: "'e \<Rightarrow> wire list \<Rightarrow> 's \<Rightarrow> ('s \<times> wire list \<times> wire list) option"
    and tick :: "'e \<Rightarrow> 's \<Rightarrow> 's" and start :: "'s \<Rightarrow> bool" and invar :: "'s \<Rightarrow> bool" and ok :: "'e \<Rightarrow> wire list \<Rightarrow> 's \<Rightarrow> bool"
  assumes start_invar: "start t \<Longrightarrow> invar t"
    and handle_invar: "invar t \<Longrightarrow> handle e ws t = Some (t', rest, out) \<Longrightarrow> invar t'"
    and tick_invar: "invar t \<Longrightarrow> invar (tick e t)"
    and request_answered: "invar t \<Longrightarrow> ok e ws t \<Longrightarrow> \<exists>t' m. handle e ws t = Some (t', [], [W_DriverMsg m])"
begin

lemma reaches_invar: "driver_reaches handle tick start t \<Longrightarrow> invar t"
  by (induction rule: driver_reaches.induct) (auto intro: start_invar handle_invar tick_invar)

lemma reaches_in_step:
  assumes "driver_reaches handle tick start t" "ok e ws t"
  shows "\<exists>s' t'. in_step d (handle e) (request d ws) s t s' t' \<and> driver_reaches handle tick start t'"
proof -
  obtain t' m where h: "handle e ws t = Some (t', [], [W_DriverMsg m])" using request_answered [OF reaches_invar [OF assms(1)] assms(2)] by blast
  then show ?thesis using request_in_step [of "handle e", OF h] driver_reaches.handled [OF assms(1) h] by blast
qed

end

section \<open>Synthesisers\<close>

text \<open>A registration the driver can store, and a ready message it can act on.\<close>

definition register_ok :: "wire list \<Rightarrow> bool" where
  "register_ok ws \<longleftrightarrow> (\<exists>m prm index q items. dm_type m = REGISTER_SEQ_code \<and> prm_cell prm \<noteq> None \<and> 0 \<le> index \<and> index < int MAX_SEQS \<and>
     seq_items prm index q = Some items \<and> ws = W_DriverMsg m # tl items)"

definition rxfe_ok :: "wire list \<Rightarrow> bool" where
  "rxfe_ok ws \<longleftrightarrow> (\<exists>m mode rf ifs. dm_type m = RXFE_SETTINGS_code \<and> ws = [W_DriverMsg m, W_int mode, W_RXFE rf, W_RXFE ifs])"

definition plain_ok :: "char list \<Rightarrow> wire list \<Rightarrow> bool" where
  "plain_ok codes ws \<longleftrightarrow> (\<exists>m. dm_type m \<in> set codes \<and> ws = [W_DriverMsg m])"

definition stored :: "TSGbuf option list list \<Rightarrow> ControlPRM \<Rightarrow> TSGbuf option" where
  "stored pss prm = do { k \<leftarrow> prm_cell prm; row \<leftarrow> aref pss (int k); sel \<leftarrow> aref row (pr_current_pulseseq_index prm); sel }"

definition dds_ready_ok :: "real \<Rightarrow> wire list \<Rightarrow> dds \<Rightarrow> bool" where
  "dds_ready_ok us ws t \<longleftrightarrow> (\<exists>m prm q. dm_type m = CtrlProg_READY_code \<and> stored (dd_pulseseqs t) prm = Some q \<and> dds_unpack us q \<noteq> None \<and>
     ws = [W_DriverMsg m, W_ControlPRM prm])"

definition dds_request_ok :: "real \<Rightarrow> wire list \<Rightarrow> dds \<Rightarrow> bool" where
  "dds_request_ok us ws t \<longleftrightarrow> register_ok ws \<or> rxfe_ok ws \<or> plain_ok [PRETRIGGER_code] ws \<or> dds_ready_ok us ws t"

lemma register_okE:
  assumes "register_ok ws"
  obtains m prm index k and q :: TSGbuf where "dm_type m = REGISTER_SEQ_code" "prm_cell prm = Some k" "k < maxclients" "0 \<le> index" "index < int MAX_SEQS"
    "int (length (tb_rep q)) = tb_len q" "int (length (tb_code q)) = tb_len q"
    "ws = [W_DriverMsg m, W_ControlPRM prm, W_int index, W_TSGbuf (tb_index q) (tb_len q) (tb_step q), W_bytes (tb_rep q), W_bytes (tb_code q)]"
proof -
  obtain m prm index q items where a: "dm_type m = REGISTER_SEQ_code" "prm_cell prm \<noteq> None" "0 \<le> index" "index < int MAX_SEQS"
    "seq_items prm index q = Some items" "ws = W_DriverMsg m # tl items" using assms unfolding register_ok_def by blast
  obtain k where k: "prm_cell prm = Some k" using a(2) by blast
  show thesis by (rule that [where q = q, OF a(1) k prm_cell_less [OF k] a(3,4)]) (use a(5,6) in \<open>auto simp: seq_items_def split: if_splits\<close>)
qed

lemma holds_no_ready: "length clients = maxclients \<Longrightarrow> holds_list (no_ready clients) []"
  using clear_holds [of "\<lparr>rt_clients = clients, rt_num = 0, rt_index = []\<rparr>"] by (simp add: no_ready_def clear_ready_def)

lemma dds_start_ok: "dds_started t \<Longrightarrow> dds_ok t"
  by (auto simp: dds_started_def dds_start_def dds_ok_def intro!: exI [of _ "[]"] holds_no_ready)

lemma dds_register_answers:
  assumes "dds_ok t" "register_ok ws"
  shows "\<exists>t' m. dds_msg us ws t = Some (t', [], [W_DriverMsg m])"
  using assms(2)
proof (rule register_okE)
  fix m prm index k and q :: TSGbuf assume a: "dm_type m = REGISTER_SEQ_code" "prm_cell prm = Some k" "k < maxclients" "0 \<le> index" "index < int MAX_SEQS"
    "int (length (tb_rep q)) = tb_len q" "int (length (tb_code q)) = tb_len q"
    and ws: "ws = [W_DriverMsg m, W_ControlPRM prm, W_int index, W_TSGbuf (tb_index q) (tb_len q) (tb_step q), W_bytes (tb_rep q), W_bytes (tb_code q)]"
  have "k < length (dd_pulseseqs t)" "length (dd_pulseseqs t ! k) = MAX_SEQS" "k < length (dd_old_index t)" using assms(1) a(3) by (simp_all add: dds_ok_def)
  then show ?thesis using a by (simp add: ws dds_msg_def dds_register_msg_def aset_def)
qed

lemma dds_ready_answers:
  assumes "dds_ok t" "dds_ready_ok us ws t"
  shows "\<exists>t' m. dds_msg us ws t = Some (t', [], [W_DriverMsg m])"
proof -
  obtain m prm q k row where m: "dm_type m = CtrlProg_READY_code" "ws = [W_DriverMsg m, W_ControlPRM prm]" and k: "prm_cell prm = Some k"
    "aref (dd_pulseseqs t) (int k) = Some row" "aref row (pr_current_pulseseq_index prm) = Some (Some q)" "dds_unpack us q \<noteq> None"
    using assms(2) by (auto simp: dds_ready_ok_def stored_def bind_eq_Some_conv simp del: aref_of_nat)
  obtain qs where "holds_list (dd_ready t) qs" using assms(1) by (auto simp: dds_ok_def)
  then obtain rt where "add_ready prm (dd_ready t) = Some rt" using add_ready_refines k(1) by blast
  moreover obtain xs where "dds_unpack us q = Some xs" using k(4) by blast
  moreover have "k < length (dd_seq t)" "k < length (dd_old_index t)" using prm_cell_less [OF k(1)] assms(1) by (simp_all add: dds_ok_def)
  ultimately show ?thesis using m k(1-3) by (simp add: dds_msg_def dds_ready_msg_def Let_def)
qed

interpretation dds_link: driver_link "\<lambda>_ :: unit. dds_msg us" "\<lambda>_ t. t" dds_started dds_ok "\<lambda>_. dds_request_ok us"
proof
  show "dds_started t \<Longrightarrow> dds_ok t" for t by (rule dds_start_ok)
  show "dds_ok t \<Longrightarrow> dds_msg us ws t = Some (t', rest, out) \<Longrightarrow> dds_ok t'" for t ws t' rest out by (rule dds_msg_keeps)
  show "\<exists>t' m. dds_msg us ws t = Some (t', [], [W_DriverMsg m])" if t: "dds_ok t" and ws: "dds_request_ok us ws t" for t ws
  proof -
    have "\<exists>t' m. dds_msg us ws t = Some (t', [], [W_DriverMsg m])" if "plain_ok [PRETRIGGER_code] ws"
      using that dds_pretrigger_returns [OF t] by (fastforce simp: plain_ok_def dds_msg_def)
    moreover have "\<exists>t' m. dds_msg us ws t = Some (t', [], [W_DriverMsg m])" if "rxfe_ok ws"
      using that by (auto simp: rxfe_ok_def dds_msg_def dds_rxfe_msg_def)
    ultimately show ?thesis using ws dds_register_answers [OF t] dds_ready_answers [OF t] unfolding dds_request_ok_def by blast
  qed
qed

section \<open>Timing card\<close>

definition times_room :: "TRTimes \<Rightarrow> bool" where
  "times_room b \<longleftrightarrow> length (tr_start_usec b) = MAX_PULSES \<and> length (tr_duration_usec b) = MAX_PULSES \<and> 0 \<le> tr_length b"

definition timing_ok :: "timing \<Rightarrow> bool" where
  "timing_ok t \<longleftrightarrow> (\<exists>qs. holds_list (td_ready t) qs) \<and> length (td_pulseseqs t) = maxclients \<and> (\<forall>row \<in> set (td_pulseseqs t). length row = MAX_SEQS) \<and>
     length (td_seq t) = maxclients \<and> times_room (td_bad t) \<and> tr_length (td_bad t) \<le> int MAX_PULSES"

lemma open_pulse_room: "times_room b \<Longrightarrow> open_pulse i b = Some b' \<Longrightarrow> times_room b'"
  by (auto simp: open_pulse_def Let_def bind_eq_Some_conv times_room_def dest!: aset_length split: if_splits)

lemma extend_pulse_room: "times_room b \<Longrightarrow> extend_pulse b = Some b' \<Longrightarrow> times_room b'"
  by (auto simp: extend_pulse_def bind_eq_Some_conv times_room_def dest!: aset_length)

lemma scan_step_room: "times_room (sc_bad s) \<Longrightarrow> scan_step i s = Some s' \<Longrightarrow> times_room (sc_bad s')"
  unfolding scan_step_def Let_def bind_eq_Some_conv by (auto split: if_split_asm intro: open_pulse_room extend_pulse_room)

lemma scan_from_room: "times_room (sc_bad s) \<Longrightarrow> scan_from is s = Some s' \<Longrightarrow> times_room (sc_bad s')"
  by (induction "is" s rule: scan_from.induct) (auto simp: bind_eq_Some_conv dest: scan_step_room)

lemma build_master_keeps:
  assumes "build_master bufs t = Some t'" "times_room (td_bad t)"
  shows "times_room (td_bad t')" "td_ready t' = td_ready t" "td_pulseseqs t' = td_pulseseqs t" "td_seq t' = td_seq t"
proof -
  have "times_room (td_bad t')"
  proof -
    obtain s where s: "scan_from [0..<longest bufs] \<lparr>sc_master = merge_all bufs (td_master t), sc_bad = (td_bad t)\<lparr>tr_length := 0\<rparr>,
        sc_tr = False, sc_scope = False, sc_start = -1\<rparr> = Some s" "td_bad t' = sc_bad s"
      using assms(1) by (auto simp: build_master_def Let_def bind_eq_Some_conv)
    show ?thesis using scan_from_room [OF _ s(1)] assms(2) s(2) by (simp add: times_room_def)
  qed
  then show "times_room (td_bad t')" "td_ready t' = td_ready t" "td_pulseseqs t' = td_pulseseqs t" "td_seq t' = td_seq t"
    using assms(1) by (auto simp: build_master_def Let_def bind_eq_Some_conv)
qed

lemma timing_register_keeps:
  assumes "timing_ok t" "timing_register_msg m ws t = Some (t', ws', out)"
  shows "timing_ok t'"
proof -
  obtain q index i len step rep code k row row' seqs where e: "prm_cell q = Some k" "aref (td_pulseseqs t) (int k) = Some row"
    "aset row index (Some \<lparr>tb_index = i, tb_len = len, tb_step = step, tb_code = code, tb_rep = rep, tb_prm = None\<rparr>) = Some row'"
    "aset (td_pulseseqs t) (int k) row' = Some seqs" "t' = t\<lparr>td_pulseseqs := seqs, td_old_seq_id := -10\<rparr>"
    using assms(2) unfolding timing_register_msg_def by (auto simp: bind_eq_Some_conv simp del: aref_of_nat aset_of_nat)
  have "row \<in> set (td_pulseseqs t)" using e(2) by (auto split: if_splits)
  then have "length row' = MAX_SEQS" using assms(1) e(3) by (auto simp: timing_ok_def aset_Some_iff)
  then have "\<forall>r \<in> set seqs. length r = MAX_SEQS" using assms(1) aset_all [OF e(4), of "\<lambda>r. length r = MAX_SEQS"] by (simp add: timing_ok_def)
  then show ?thesis using assms(1) e(5) aset_length [OF e(4)] by (simp add: timing_ok_def)
qed

lemma timing_ready_keeps:
  assumes "timing_ok t" "timing_ready_msg m ws t = Some (t', ws', out)"
  shows "timing_ok t'"
proof -
  obtain q k rt buf seqs where e: "add_ready q (td_ready t) = Some rt" "aset (td_seq t) (int k) buf = Some seqs" "t' = t\<lparr>td_ready := wrap_ready rt, td_seq := seqs\<rparr>"
    using assms(2) unfolding timing_ready_msg_def by (auto simp: bind_eq_Some_conv Let_def simp del: aref_of_nat aset_of_nat)
  then show ?thesis using assms(1) aset_length [OF e(2)] add_ready_keeps [OF _ e(1)] by (simp add: timing_ok_def)
qed

lemma timing_pretrigger_keeps:
  assumes "timing_ok t" "timing_pretrigger_msg m ws t = Some (t', ws', out)"
  shows "timing_ok t'"
proof -
  let ?qs = "ready_clients (td_ready t)"
  obtain t1 items where t1: "(if seq_id ?qs \<noteq> td_old_seq_id t then Option.bind (client_bufs t ?qs) (\<lambda>bufs. build_master bufs t) else Some t) = Some t1"
    "bad_items (td_bad t1) = Some items" "td_bad t' = td_bad t1" "td_ready t' = td_ready t1" "td_pulseseqs t' = td_pulseseqs t1" "td_seq t' = td_seq t1"
    using assms(2) unfolding timing_pretrigger_msg_def
    by (auto simp: Let_def bind_eq_Some_conv start_dma_def card_ops_def simp del: if_split split del: if_split)
  have room: "times_room (td_bad t)" using assms(1) by (simp add: timing_ok_def times_room_def)
  have "times_room (td_bad t1) \<and> td_ready t1 = td_ready t \<and> td_pulseseqs t1 = td_pulseseqs t \<and> td_seq t1 = td_seq t"
    using t1(1) room build_master_keeps [OF _ room] by (auto simp: bind_eq_Some_conv split: if_splits)
  moreover have "tr_length (td_bad t1) \<le> int (length (tr_start_usec (td_bad t1)))" using t1(2) by (simp add: bad_items_def split: if_splits)
  ultimately show ?thesis using assms(1) t1(3-6) by (simp add: timing_ok_def times_room_def)
qed

lemma int_handler_keeps: "timing_ok t \<Longrightarrow> timing_ok (int_handler rd t)"
  by (simp add: int_handler_def timing_ok_def card_ops_def Let_def)

lemma timing_msg_keeps:
  assumes "timing_ok t" "timing_msg rd dead ws t = Some (t', ws', out)"
  shows "timing_ok t'"
proof -
  have post: "timing_ok (t\<lparr>td_ready := clear_ready (td_ready t)\<rparr>)" using assms(1) clear_ready_keeps by (simp add: timing_ok_def)
  have plain: "timing_ok (t\<lparr>td_old_seq_id := x\<rparr>)" "timing_ok (card_ops ops (t\<lparr>td_writingFIFO := b\<rparr>))" "timing_ok (card_ops ops t)" for x ops b
    using assms(1) by (simp_all add: timing_ok_def card_ops_def)
  obtain m ws1 where m: "rx_msg ws = Some (m, ws1)" using assms(2) by (auto simp: timing_msg_def bind_eq_Some_conv)
  show ?thesis
    using assms unfolding timing_msg_def m
    by (auto simp: timing_end_msg_def timing_trigger_msg_def timing_wait_msg_def timing_posttrigger_msg_def Let_def plain post split: if_splits
        intro: timing_register_keeps [OF assms(1)] timing_ready_keeps [OF assms(1)] timing_pretrigger_keeps [OF assms(1)])
qed

lemma timing_start_ok: "timing_started t \<Longrightarrow> timing_ok t"
  by (auto simp: timing_started_def timing_start_def timing_ok_def times_room_def intro!: exI [of _ "[]"] holds_no_ready)

definition timing_ready_ok :: "wire list \<Rightarrow> timing \<Rightarrow> bool" where
  "timing_ready_ok ws t \<longleftrightarrow> (\<exists>m prm q. dm_type m = CtrlProg_READY_code \<and> stored (td_pulseseqs t) prm = Some q \<and>
     unpack_seq (pr_radar prm - 1) (pr_channel prm - 1) q \<noteq> None \<and> ws = [W_DriverMsg m, W_ControlPRM prm])"

definition timing_request_ok :: "bool \<Rightarrow> wire list \<Rightarrow> timing \<Rightarrow> bool" where
  "timing_request_ok dead ws t \<longleftrightarrow> register_ok ws \<or> timing_ready_ok ws t \<or> plain_ok [TRIGGER_code, GPS_TRIGGER_code, POSTTRIGGER_code] ws \<or>
     (plain_ok [WAIT_code] ws \<and> (dead \<or> \<not> td_writingFIFO t))"

lemma timing_register_answers:
  assumes "timing_ok t" "register_ok ws"
  shows "\<exists>t' m. timing_msg rd dead ws t = Some (t', [], [W_DriverMsg m])"
  using assms(2)
proof (rule register_okE)
  fix m prm index k and q :: TSGbuf assume a: "dm_type m = REGISTER_SEQ_code" "prm_cell prm = Some k" "k < maxclients" "0 \<le> index" "index < int MAX_SEQS"
    "int (length (tb_rep q)) = tb_len q" "int (length (tb_code q)) = tb_len q"
    and ws: "ws = [W_DriverMsg m, W_ControlPRM prm, W_int index, W_TSGbuf (tb_index q) (tb_len q) (tb_step q), W_bytes (tb_rep q), W_bytes (tb_code q)]"
  have "k < length (td_pulseseqs t)" "length (td_pulseseqs t ! k) = MAX_SEQS" using assms(1) a(3) by (simp_all add: timing_ok_def)
  then show ?thesis using a by (simp add: ws timing_msg_def timing_register_msg_def aset_def)
qed

lemma timing_ready_answers:
  assumes "timing_ok t" "timing_ready_ok ws t"
  shows "\<exists>t' m. timing_msg rd dead ws t = Some (t', [], [W_DriverMsg m])"
proof -
  obtain m prm q k row where m: "dm_type m = CtrlProg_READY_code" "ws = [W_DriverMsg m, W_ControlPRM prm]" and k: "prm_cell prm = Some k"
    "aref (td_pulseseqs t) (int k) = Some row" "aref row (pr_current_pulseseq_index prm) = Some (Some q)"
    "unpack_seq (pr_radar prm - 1) (pr_channel prm - 1) q \<noteq> None"
    using assms(2) by (auto simp: timing_ready_ok_def stored_def bind_eq_Some_conv simp del: aref_of_nat)
  obtain qs where "holds_list (td_ready t) qs" using assms(1) by (auto simp: timing_ok_def)
  then obtain rt where "add_ready prm (td_ready t) = Some rt" using add_ready_refines k(1) by blast
  moreover obtain xs where "unpack_seq (pr_radar prm - 1) (pr_channel prm - 1) q = Some xs" using k(4) by blast
  moreover have "k < length (td_seq t)" using prm_cell_less [OF k(1)] assms(1) by (simp add: timing_ok_def)
  ultimately show ?thesis using m k(1-3) by (simp add: timing_msg_def timing_ready_msg_def Let_def)
qed

interpretation timing_link: driver_link "\<lambda>(rd, dead). timing_msg rd dead" "\<lambda>(rd, dead). int_handler rd" timing_started timing_ok
  "\<lambda>(rd :: nat \<Rightarrow> u32, dead). timing_request_ok dead"
proof
  show "timing_started t \<Longrightarrow> timing_ok t" for t by (rule timing_start_ok)
  show "timing_ok t \<Longrightarrow> (case e of (rd, dead) \<Rightarrow> timing_msg rd dead) ws t = Some (t', rest, out) \<Longrightarrow> timing_ok t'" for t e ws t' rest out
    by (cases e) (auto intro: timing_msg_keeps)
  show "timing_ok t \<Longrightarrow> timing_ok ((case e of (rd, dead) \<Rightarrow> int_handler rd) t)" for t and e :: "(nat \<Rightarrow> u32) \<times> bool"
    by (cases e) (simp add: int_handler_keeps)
  show "\<exists>t' m. (case e of (rd, dead) \<Rightarrow> timing_msg rd dead) ws t = Some (t', [], [W_DriverMsg m])"
    if "timing_ok t" "(case e of (rd, dead) \<Rightarrow> timing_request_ok dead) ws t" for t ws and e :: "(nat \<Rightarrow> u32) \<times> bool"
  proof -
    obtain rd dead where e: "e = (rd, dead)" by (cases e)
    have "\<exists>t' m. timing_msg rd dead ws t = Some (t', [], [W_DriverMsg m])"
      if "plain_ok [TRIGGER_code, GPS_TRIGGER_code, POSTTRIGGER_code] ws \<or> (plain_ok [WAIT_code] ws \<and> (dead \<or> \<not> td_writingFIFO t))"
      using that by (auto simp: plain_ok_def timing_msg_def timing_trigger_msg_def timing_posttrigger_msg_def timing_wait_msg_def Let_def)
    then show ?thesis using that timing_register_answers timing_ready_answers unfolding e timing_request_ok_def by auto
  qed
qed

section \<open>Digital I/O\<close>

definition dio_ok :: "dio \<Rightarrow> bool" where
  "dio_ok t \<longleftrightarrow> (\<exists>qs. holds_list (di_ready t) qs) \<and> tables_ok (di_tables t) \<and> length (tx_stat (di_txstatus t)) = MAX_TRANSMITTERS \<and>
     length (tx_AGC (di_txstatus t)) = MAX_TRANSMITTERS \<and> length (tx_LOWPWR (di_txstatus t)) = MAX_TRANSMITTERS"

lemma status_loop_lengths:
  "status_loop rd radar as ret tx p = (ret', tx', p') \<Longrightarrow>
   length (tx_stat tx') = length (tx_stat tx) \<and> length (tx_AGC tx') = length (tx_AGC tx) \<and> length (tx_LOWPWR tx') = length (tx_LOWPWR tx)"
  by (induction rd radar as ret tx p rule: status_loop.induct) (auto simp: Let_def split: prod.splits if_splits)

lemma get_status_lengths:
  assumes "get_status rd radar tx p = (ret, tx', p')"
  shows "length (tx_stat tx') = length (tx_stat tx)" "length (tx_AGC tx') = length (tx_AGC tx)" "length (tx_LOWPWR tx') = length (tx_LOWPWR tx)"
  using assms status_loop_lengths [of rd radar "[0..<MAX_TRANSMITTERS]" 0 tx p ret tx' p'] by (auto simp: get_status_def split: if_splits)

lemma dio_msg_keeps:
  assumes "dio_ok t" "dio_msg rd ws t = Some (t', ws', out)"
  shows "dio_ok t'"
proof -
  obtain m ws1 where m: "rx_msg ws = Some (m, ws1)" using assms(2) by (auto simp: dio_msg_def bind_eq_Some_conv)
  have ready: "dio_ok t'" if "dio_ready_msg m ws1 t = Some (t', ws', out)"
    using that assms(1) add_ready_keeps [of "di_ready t"] by (auto simp: dio_ready_msg_def bind_eq_Some_conv dio_ok_def)
  have status: "dio_ok t'" if st: "dio_status_msg rd m ws1 t = Some (t', ws', out)"
  proof -
    obtain r ws2 where r: "rx_int ws1 = Some (r, ws2)" using st by (auto simp: dio_status_msg_def bind_eq_Some_conv)
    obtain ret tx p where g: "get_status rd r (di_txstatus t) (di_ports t) = (ret, tx, p)" by (rule prod_cases3)
    then have "t' = t\<lparr>di_txstatus := tx, di_ports := p\<rparr>" using st r by (simp add: dio_status_msg_def)
    with g show ?thesis using assms(1) get_status_lengths by (simp add: dio_ok_def)
  qed
  have pre: "dio_ok t'" if "dio_pretrigger_msg rd m ws1 t = Some (t', ws', out)"
    using that assms(1) clear_ready_keeps [of "di_ready t"] by (auto simp: dio_pretrigger_msg_def bind_eq_Some_conv dio_ok_def)
  have plain: "dio_ok (t\<lparr>di_ports := x\<rparr>)" "dio_ok (t\<lparr>di_ifmode := i, di_rf_addr := a, di_if_addr := b, di_ports := y\<rparr>)" for x y i a b
    using assms(1) by (simp_all add: dio_ok_def)
  show ?thesis
    using assms unfolding dio_msg_def m
    by (auto simp: dio_clrfreq_msg_def dio_rxfe_reset_msg_def dio_rxfe_settings_msg_def apply_rxfe_def bind_eq_Some_conv Let_def plain split: if_splits
        intro: ready status pre)
qed

lemma dio_start_ok: "dio_started t \<Longrightarrow> dio_ok t"
  by (auto simp: dio_started_def dio_start_def dio_ok_def apply_rxfe_def Let_def intro!: exI [of _ "[]"] holds_no_ready)

definition prm_ok :: "char \<Rightarrow> wire list \<Rightarrow> bool" where
  "prm_ok code ws \<longleftrightarrow> (\<exists>m prm. dm_type m = code \<and> prm_cell prm \<noteq> None \<and> ws = [W_DriverMsg m, W_ControlPRM prm])"

definition dio_request_ok :: "wire list \<Rightarrow> bool" where
  "dio_request_ok ws \<longleftrightarrow> prm_ok CtrlProg_READY_code ws \<or> prm_ok CLRFREQ_code ws \<or> rxfe_ok ws \<or> plain_ok [PRETRIGGER_code, RXFE_RESET_code] ws"

lemma prm_radar:
  assumes "prm_cell q \<noteq> None"
  shows "pr_radar q = 1 \<or> pr_radar q = 2"
  using assms by (auto simp: prm_cell_def cell_def site_consts split: if_splits)

lemma dio_prm_answers:
  assumes "dio_ok t" "prm_ok CtrlProg_READY_code ws \<or> prm_ok CLRFREQ_code ws"
  shows "\<exists>t' m. dio_msg rd ws t = Some (t', [], [W_DriverMsg m])"
proof -
  obtain m prm where m: "dm_type m \<in> {CtrlProg_READY_code, CLRFREQ_code}" "prm_cell prm \<noteq> None" "ws = [W_DriverMsg m, W_ControlPRM prm]"
    using assms(2) unfolding prm_ok_def by blast
  obtain qs where "holds_list (di_ready t) qs" using assms(1) by (auto simp: dio_ok_def)
  then obtain rt where rt: "add_ready prm (di_ready t) = Some rt" using add_ready_refines m(2) by blast
  obtain st p where "select_beam rd (di_tables t) prm (snd (select_card rd prm (di_ports t))) = Some (st, p)"
    using select_beam_shows [of "di_tables t" prm] assms(1) prm_radar [OF m(2)] unfolding dio_ok_def by blast
  then show ?thesis using m(1) rt by (auto simp: m(3) dio_msg_def dio_ready_msg_def dio_clrfreq_msg_def Let_def)
qed

lemma dio_pretrigger_answers:
  assumes "dio_ok t"
  shows "\<exists>t'. dio_pretrigger_msg rd m ws t = Some (t', ws, [W_DriverMsg (m\<lparr>dm_status := 1\<rparr>)])"
proof -
  have rs: "[1..int MAX_RADARS] = [1, 2]" by (simp add: site_consts upto_rec1)
  have tab: "tables_ok (di_tables t)" using assms by (simp add: dio_ok_def)
  let ?qs = "ready_clients (di_ready t)"
  obtain p1 where "point_radar rd (di_tables t) ?qs 1 (di_ports t) = Some p1" using point_radar_shows [OF tab, of 1] by blast
  moreover obtain p2 where "point_radar rd (di_tables t) ?qs 2 p1 = Some p2" using point_radar_shows [OF tab, of 2] by blast
  ultimately show ?thesis unfolding dio_pretrigger_msg_def rs by simp
qed

interpretation dio_link: driver_link dio_msg "\<lambda>_ t. t" dio_started dio_ok "\<lambda>_ ws _. dio_request_ok ws"
proof
  show "dio_started t \<Longrightarrow> dio_ok t" for t by (rule dio_start_ok)
  show "dio_ok t \<Longrightarrow> dio_msg rd ws t = Some (t', rest, out) \<Longrightarrow> dio_ok t'" for t rd ws t' rest out by (rule dio_msg_keeps)
  show "\<exists>t' m. dio_msg rd ws t = Some (t', [], [W_DriverMsg m])" if t: "dio_ok t" and ws: "dio_request_ok ws" for t rd ws
  proof -
    have "\<exists>t' m. dio_msg rd ws t = Some (t', [], [W_DriverMsg m])" if "plain_ok [PRETRIGGER_code, RXFE_RESET_code] ws"
      using that dio_pretrigger_answers [OF t, of rd _ "[]"] by (fastforce simp: plain_ok_def dio_msg_def dio_rxfe_reset_msg_def)
    moreover have "\<exists>t' m. dio_msg rd ws t = Some (t', [], [W_DriverMsg m])" if "rxfe_ok ws"
      using that by (auto simp: rxfe_ok_def dio_msg_def dio_rxfe_settings_msg_def)
    ultimately show ?thesis using ws dio_prm_answers [OF t] unfolding dio_request_ok_def by blast
  qed
qed

section \<open>Server functions\<close>

lemma deliver_simps [simp]:
  "sv_heap (deliver d ws s) = sv_heap s" "sv_out (deliver d ws s) = sv_out s" "sv_threads (deliver d ws s) = sv_threads s"
  "selected_seq (deliver d ws s) p = selected_seq s p" "sv_in (deliver d ws s) = (sv_in s)(Driver d := ws @ sv_in s (Driver d))"
  by (simp_all add: deliver_def selected_seq_def parameters_of_def state_of_def)

lemma in_step_cong:
  assumes "\<And>ans. call (deliver d ans s) = call' (deliver d ans s)"
  shows "in_step d handle call s t s' t' \<longleftrightarrow> in_step d handle call' s t s' t'"
  by (simp add: in_step_def assms)

lemma register_seq_request:
  assumes "selected_seq s p = Some (prm, Some q)" "prm_cell prm \<noteq> None" "0 \<le> pr_current_pulseseq_index prm" "pr_current_pulseseq_index prm < int MAX_SEQS"
    "int (length (tb_rep q)) = tb_len q" "int (length (tb_code q)) = tb_len q"
  obtains ws where "register_ok ws" "\<forall>ans. register_seq d p (deliver d ans s) = request d ws (deliver d ans s)"
proof -
  obtain ws where ws: "seq_items prm (pr_current_pulseseq_index prm) q = Some ws" using assms(5,6) by (simp add: seq_items_def)
  have "ws = W_DriverMsg \<lparr>dm_type = REGISTER_SEQ_code, dm_status = 1\<rparr> # tl ws" using ws by (auto simp: seq_items_def split: if_splits)
  then have "register_ok ws" using assms(2-4) ws unfolding register_ok_def
    by (intro exI [of _ "\<lparr>dm_type = REGISTER_SEQ_code, dm_status = 1\<rparr>"] exI [of _ prm] exI [of _ "pr_current_pulseseq_index prm"] exI [of _ q] exI [of _ ws]) simp
  then show thesis using that [of ws] assms(1) ws by (simp add: register_seq_def)
qed

lemma ready_request:
  assumes "selected_seq s p = Some (prm, Some q)"
  shows "ready_controlprogram d (Some p) (deliver d ans s) = request d [drv_msg CtrlProg_READY_code 1, W_ControlPRM prm] (deliver d ans s)"
  using assms by (simp add: ready_controlprogram_def)

lemma plain_ok_msg: "c \<in> set codes \<Longrightarrow> plain_ok codes [drv_msg c 1]"
  by (auto simp: plain_ok_def)

section \<open>Answers to a pretrigger\<close>

lemma client_bufs_returns:
  "None \<notin> prm_cell ` set qs \<Longrightarrow> length (td_seq t) = maxclients \<Longrightarrow> \<exists>bufs. client_bufs t qs = Some bufs"
proof (induction qs)
  case (Cons q qs)
  obtain k where "prm_cell q = Some k" using Cons.prems(1) by (cases "prm_cell q") auto
  then show ?case using Cons prm_cell_less by auto
qed simp

text \<open>Fewer pulses than the driver has room for, when it is going to build a new master sequence.\<close>

definition pulses_fit :: "timing \<Rightarrow> bool" where
  "pulses_fit t \<longleftrightarrow> seq_id (ready_clients (td_ready t)) = td_old_seq_id t \<or>
     (\<forall>bufs. client_bufs t (ready_clients (td_ready t)) = Some bufs \<longrightarrow>
        length (pulses (\<lambda>j. tr_on (merge_all bufs (td_master t) j)) (longest bufs)) < MAX_PULSES)"

lemma timing_pretrigger_answers:
  assumes "timing_ok t" "pulses_fit t"
  obtains t' and b :: TRTimes where "timing_pretrigger_msg m ws t = Some (t', ws, [W_int (tr_length b), W_uints (tr_start_usec b), W_uints (tr_duration_usec b), W_DriverMsg (m\<lparr>dm_status := 0\<rparr>)])"
    "tr_length b = int (length (tr_start_usec b))" "tr_length b = int (length (tr_duration_usec b))"
proof -
  let ?qs = "ready_clients (td_ready t)"
  obtain xs where "holds_list (td_ready t) xs" using assms(1) by (auto simp: timing_ok_def)
  note cells = ready_clients_cells [OF this]
  have room: "times_room (td_bad t)" "tr_length (td_bad t) \<le> int MAX_PULSES" using assms(1) by (simp_all add: timing_ok_def)
  obtain bufs where bufs: "client_bufs t ?qs = Some bufs" using client_bufs_returns [OF cells(2)] assms(1) by (auto simp: timing_ok_def)
  show thesis
  proof (cases "seq_id ?qs = td_old_seq_id t")
    case True
    let ?b = "td_bad t" and ?n = "nat (tr_length (td_bad t))"
    have "td_bad (start_dma t) = ?b" by (simp add: start_dma_def card_ops_def Let_def)
    then have "\<exists>t'. timing_pretrigger_msg m ws t = Some (t', ws, [W_int (tr_length ?b), W_uints (take ?n (tr_start_usec ?b)), W_uints (take ?n (tr_duration_usec ?b)), W_DriverMsg (m\<lparr>dm_status := 0\<rparr>)])"
      using True room by (simp add: timing_pretrigger_msg_def Let_def bad_items_def times_room_def)
    then show thesis using that [where b = "\<lparr>tr_length = tr_length ?b, tr_start_usec = take ?n (tr_start_usec ?b), tr_duration_usec = take ?n (tr_duration_usec ?b)\<rparr>"] room
      by (auto simp: times_room_def)
  next
    case False
    then have "length (pulses (\<lambda>j. tr_on (merge_all bufs (td_master t) j)) (longest bufs)) < MAX_PULSES" using assms(2) bufs by (auto simp: pulses_fit_def)
    from pretrigger_reports [OF False bufs _ _ this, of m ws] room obtain t' and ps :: "(nat \<times> nat) list" where
      "timing_pretrigger_msg m ws t = Some (t', ws, [W_int (int (length ps)), W_uints (map (int \<circ> fst) ps), W_uints (map (int \<circ> snd) ps), W_DriverMsg (m\<lparr>dm_status := 0\<rparr>)])"
      by (auto simp: times_room_def)
    then show thesis using that [where b = "\<lparr>tr_length = int (length ps), tr_start_usec = map (int \<circ> fst) ps, tr_duration_usec = map (int \<circ> snd) ps\<rparr>"] by simp
  qed
qed

lemma timing_pretrigger_in_step:
  assumes "timing_msg rd dead [drv_msg PRETRIGGER_code 1] t = Some (t', [], [W_int (tr_length b), W_uints (tr_start_usec b), W_uints (tr_duration_usec b), W_DriverMsg m])"
    "tr_length b = int (length (tr_start_usec b))" "tr_length b = int (length (tr_duration_usec b))"
  shows "in_step TIMING (timing_msg rd dead) timing_pretrigger s t (s\<lparr>sv_out := sv_out s @ [(Driver TIMING, drv_msg PRETRIGGER_code 1)], sv_bad_times := b\<rparr>) t'"
proof -
  let ?ans = "[W_int (tr_length b), W_uints (tr_start_usec b), W_uints (tr_duration_usec b), W_DriverMsg m]"
  have "timing_pretrigger (deliver TIMING ?ans s) = Some (s\<lparr>sv_out := sv_out s @ [(Driver TIMING, drv_msg PRETRIGGER_code 1)], sv_bad_times := b\<rparr>)"
    using assms(2,3) by (simp add: timing_pretrigger_def recv_from_def send_to_def deliver_def Let_def)
  then show ?thesis using assms(1) unfolding in_step_def by (intro exI [of _ "[drv_msg PRETRIGGER_code 1]"] exI [of _ ?ans]) simp
qed

lemma transmitter_status_in_step:
  assumes "0 < radar" "radar \<le> int (length (sv_txstatus s))"
  shows "\<exists>s' t'. in_step DIO (dio_msg rd) (DIO_transmitter_status radar) s t s' t'"
proof -
  obtain ret tx p where g: "get_status rd radar (di_txstatus t) (di_ports t) = (ret, tx, p)" by (rule prod_cases3)
  let ?t = "t\<lparr>di_txstatus := tx, di_ports := p\<rparr>" and ?ws = "[drv_msg GET_TX_STATUS_code 1, W_int radar]"
  let ?ans = "[W_tx tx, drv_msg GET_TX_STATUS_code ret]"
  have "dio_msg rd ?ws t = Some (?t, [], ?ans)" using g by (simp add: dio_msg_def dio_status_msg_def)
  moreover have "DIO_transmitter_status radar (deliver DIO ?ans s) =
      Some (s\<lparr>sv_out := sv_out s @ map (Pair (Driver DIO)) ?ws, sv_txstatus := (sv_txstatus s)[nat (radar - 1) := tx]\<rparr>)"
    using assms by (simp add: DIO_transmitter_status_def recv_from_def send_all_def deliver_def Let_def aset_def)
  ultimately show ?thesis
    unfolding in_step_def by (intro exI [of _ "s\<lparr>sv_out := sv_out s @ map (Pair (Driver DIO)) ?ws, sv_txstatus := (sv_txstatus s)[nat (radar - 1) := tx]\<rparr>"] exI [of _ ?t] exI [of _ ?ws] exI [of _ ?ans]) simp
qed

section \<open>Properties\<close>

text \<open>The server function and the driver are in step, and the driver goes on in a state it can reach.\<close>

definition stays_in_step :: "drv \<Rightarrow> (wire list \<Rightarrow> 's \<Rightarrow> ('s \<times> wire list \<times> wire list) option) \<Rightarrow> ('s \<Rightarrow> bool) \<Rightarrow> (server \<Rightarrow> server option) \<Rightarrow> server \<Rightarrow> 's \<Rightarrow> bool" where
  "stays_in_step d handle reach call s t \<longleftrightarrow> (\<exists>s' t'. in_step d handle call s t s' t' \<and> reach t')"

lemma stays_cong:
  assumes "stays_in_step d handle reach call s t" "\<And>ans. call' (deliver d ans s) = call (deliver d ans s)"
  shows "stays_in_step d handle reach call' s t"
  using assms(1) unfolding stays_in_step_def in_step_def assms(2) .

lemma stays_request:
  assumes "driver_link handle tick start invar ok" "driver_reaches handle tick start t" "ok e ws t"
  shows "stays_in_step d (handle e) (driver_reaches handle tick start) (request d ws) s t"
  unfolding stays_in_step_def by (rule driver_link.reaches_in_step [OF assms])

lemma timing_request:
  "timing_reaches t \<Longrightarrow> timing_request_ok dead ws t \<Longrightarrow> stays_in_step TIMING (timing_msg rd dead) timing_reaches (request TIMING ws) s t"
  using stays_request [OF timing_link.driver_link_axioms, of t "(rd, dead)" ws TIMING s] by simp

lemma dds_request:
  "dds_reaches us t \<Longrightarrow> dds_request_ok us ws t \<Longrightarrow> stays_in_step DDS (dds_msg us) (dds_reaches us) (request DDS ws) s t"
  using stays_request [OF dds_link.driver_link_axioms] by simp

lemma dio_request:
  "dio_reaches t \<Longrightarrow> dio_request_ok ws \<Longrightarrow> stays_in_step DIO (dio_msg rd) dio_reaches (request DIO ws) s t"
  using stays_request [OF dio_link.driver_link_axioms] by simp

lemma stays_register:
  assumes "\<And>ws. register_ok ws \<Longrightarrow> stays_in_step d handle reach (request d ws) s t"
    "selected_seq s p = Some (prm, Some q)" "prm_cell prm \<noteq> None" "0 \<le> pr_current_pulseseq_index prm" "pr_current_pulseseq_index prm < int MAX_SEQS"
    "int (length (tb_rep q)) = tb_len q" "int (length (tb_code q)) = tb_len q"
  shows "stays_in_step d handle reach (register_seq d p) s t"
proof -
  obtain ws where ws: "register_ok ws" "\<forall>ans. register_seq d p (deliver d ans s) = request d ws (deliver d ans s)"
    by (rule register_seq_request [OF assms(2-7), of d])
  show ?thesis by (rule stays_cong [OF assms(1) [OF ws(1)]]) (simp add: ws(2))
qed

lemma stays_ready:
  assumes "stays_in_step d handle reach (request d [drv_msg CtrlProg_READY_code 1, W_ControlPRM prm]) s t" "selected_seq s p = Some (prm, Some q)"
  shows "stays_in_step d handle reach (ready_controlprogram d (Some p)) s t"
  by (rule stays_cong [OF assms(1)]) (rule ready_request [OF assms(2)])

lemma stays_send:
  assumes "handle [w] t = Some (t', [], [])" "reach t'"
  shows "stays_in_step d handle reach (\<lambda>s. Some (send_to (Driver d) w s)) s t"
  unfolding stays_in_step_def using send_in_step [of handle w t t' d s, OF assms(1)] assms(2) by blast

lemma timing_pretrigger_stays:
  assumes "timing_reaches t" "pulses_fit t"
  shows "stays_in_step TIMING (timing_msg rd dead) timing_reaches timing_pretrigger s t"
proof -
  let ?m = "\<lparr>dm_type = PRETRIGGER_code, dm_status = 1\<rparr>"
  obtain t' and b :: TRTimes where t': "timing_pretrigger_msg ?m [] t =
      Some (t', [], [W_int (tr_length b), W_uints (tr_start_usec b), W_uints (tr_duration_usec b), W_DriverMsg (?m\<lparr>dm_status := 0\<rparr>)])"
    "tr_length b = int (length (tr_start_usec b))" "tr_length b = int (length (tr_duration_usec b))"
    by (rule timing_pretrigger_answers [OF timing_link.reaches_invar [OF assms(1)] assms(2)])
  then have h: "timing_msg rd dead [drv_msg PRETRIGGER_code 1] t =
      Some (t', [], [W_int (tr_length b), W_uints (tr_start_usec b), W_uints (tr_duration_usec b), drv_msg PRETRIGGER_code 0])" by (simp add: timing_msg_def)
  have "timing_reaches t'" using driver_reaches.handled [OF assms(1), of "(rd, dead)"] h by auto
  then show ?thesis using timing_pretrigger_in_step [OF h t'(2,3)] unfolding stays_in_step_def by blast
qed

lemma timing_trigger_stays:
  assumes "timing_reaches t" "ty \<in> {0, 1, 2}"
  shows "stays_in_step TIMING (timing_msg rd dead) timing_reaches (timing_trigger ty) s t"
proof -
  have "stays_in_step TIMING (timing_msg rd dead) timing_reaches (request TIMING [drv_msg (if ty = 2 then GPS_TRIGGER_code else TRIGGER_code) 1]) s t"
    by (rule timing_request [OF assms(1)]) (simp add: timing_request_ok_def plain_ok_msg)
  then show ?thesis by (rule stays_cong) (use assms(2) in \<open>auto simp: timing_trigger_def\<close>)
qed

lemma timing_end_stays:
  assumes "timing_reaches t"
  shows "stays_in_step TIMING (timing_msg rd dead) timing_reaches timing_end_controlprogram s t"
proof -
  have h: "timing_msg rd dead [drv_msg CtrlProg_END_code 1] t = Some (t\<lparr>td_old_seq_id := -10\<rparr>, [], [])" by (simp add: timing_msg_def timing_end_msg_def)
  have "timing_reaches (t\<lparr>td_old_seq_id := -10\<rparr>)" using driver_reaches.handled [OF assms, of "(rd, dead)"] h by auto
  with h show ?thesis unfolding timing_end_controlprogram_def by (rule stays_send)
qed

lemma dds_end_stays:
  assumes "dds_reaches us t"
  shows "stays_in_step DDS (dds_msg us) (dds_reaches us) dds_end_controlprogram s t"
proof -
  have h: "dds_msg us [drv_msg CtrlProg_END_code 1] t = Some (t\<lparr>dd_old_seq_id := -10\<rparr>, [], [])" by (simp add: dds_msg_def)
  have "dds_reaches us (t\<lparr>dd_old_seq_id := -10\<rparr>)" using driver_reaches.handled [OF assms] h by auto
  with h show ?thesis unfolding dds_end_controlprogram_def by (rule stays_send)
qed



text \<open>
  C16: the digital I/O driver and the server stay in step, in the same sense, for ready programs, pretriggers, the beam of a clear frequency
  search, the reset and the settings of the receiver front end, and the status of the transmitters of a radar.
\<close>

theorem dio_stays_in_step:
  assumes "dio_reaches t" "selected_seq s p = Some (prm, Some q)" "prm_cell prm \<noteq> None" "length (sv_txstatus s) = MAX_RADARS"
  shows "stays_in_step DIO (dio_msg rd) dio_reaches (DIO_ready_controlprogram (Some p)) s t \<and>
    stays_in_step DIO (dio_msg rd) dio_reaches DIO_pretrigger s t \<and>
    stays_in_step DIO (dio_msg rd) dio_reaches (DIO_clrfreq (Some p)) s t \<and>
    stays_in_step DIO (dio_msg rd) dio_reaches DIO_rxfe_reset s t \<and>
    stays_in_step DIO (dio_msg rd) dio_reaches (dio_rxfe_settings (Some x)) s t \<and>
    stays_in_step DIO (dio_msg rd) dio_reaches (DIO_transmitter_status (pr_radar prm)) s t"
proof (intro conjI)
  note req = dio_request [OF assms(1)]
  show "stays_in_step DIO (dio_msg rd) dio_reaches (DIO_ready_controlprogram (Some p)) s t"
    unfolding DIO_ready_controlprogram_def by (rule stays_ready [OF req assms(2)]) (use assms(3) in \<open>auto simp: dio_request_ok_def prm_ok_def\<close>)
  show "stays_in_step DIO (dio_msg rd) dio_reaches DIO_pretrigger s t"
    unfolding DIO_pretrigger_def by (rule req) (simp add: dio_request_ok_def plain_ok_msg)
  show "stays_in_step DIO (dio_msg rd) dio_reaches (DIO_clrfreq (Some p)) s t"
  proof -
    have "stays_in_step DIO (dio_msg rd) dio_reaches (request DIO [drv_msg CLRFREQ_code 1, W_ControlPRM prm]) s t"
      by (rule req) (use assms(3) in \<open>auto simp: dio_request_ok_def prm_ok_def\<close>)
    moreover obtain cp where "sv_heap s p = Some cp" "cp_parameters cp = Some prm" using assms(2) by (auto simp: selected_seq_def parameters_of_def bind_eq_Some_conv)
    ultimately show ?thesis by (elim stays_cong) (simp add: DIO_clrfreq_def)
  qed
  show "stays_in_step DIO (dio_msg rd) dio_reaches DIO_rxfe_reset s t"
    unfolding DIO_rxfe_reset_def by (rule req) (simp add: dio_request_ok_def plain_ok_msg)
  show "stays_in_step DIO (dio_msg rd) dio_reaches (dio_rxfe_settings (Some x)) s t"
    unfolding dio_rxfe_settings_def rxfe_settings_def option.case by (rule req) (auto simp: dio_request_ok_def rxfe_ok_def)
  have "0 < pr_radar prm" "pr_radar prm \<le> int (length (sv_txstatus s))" using prm_radar [OF assms(3)] assms(4) by (auto simp: site_consts)
  then obtain s' t' where st: "in_step DIO (dio_msg rd) (DIO_transmitter_status (pr_radar prm)) s t s' t'" using transmitter_status_in_step by blast
  then have "dio_reaches t'" using driver_reaches.handled [OF assms(1)] by (auto simp: in_step_def)
  then show "stays_in_step DIO (dio_msg rd) dio_reaches (DIO_transmitter_status (pr_radar prm)) s t" using st by (auto simp: stays_in_step_def)
qed

section \<open>A whole trigger\<close>

text \<open>A driver serves a series of requests; its answers follow each other on the socket.\<close>

fun serve :: "(wire list \<Rightarrow> 's \<Rightarrow> ('s \<times> wire list \<times> wire list) option) \<Rightarrow> wire list list \<Rightarrow> 's \<Rightarrow> ('s \<times> wire list) option" where
  "serve handle [] t = Some (t, [])"
| "serve handle (ws # wss) t = do {
     (t1, rest, out) \<leftarrow> handle ws t;
     (t2, outs) \<leftarrow> serve handle wss t1;
     if rest = [] then Some (t2, out @ outs) else None
   }"

definition timing_requests :: "int \<Rightarrow> wire list list" where
  "timing_requests ty = [[drv_msg PRETRIGGER_code 1], [drv_msg (if ty = 2 then GPS_TRIGGER_code else TRIGGER_code) 1], [drv_msg POSTTRIGGER_code 1]]"

definition dio_requests :: "int \<Rightarrow> wire list list" where
  "dio_requests radar = [[drv_msg PRETRIGGER_code 1], [drv_msg GET_TX_STATUS_code 1, W_int radar]]"

definition dds_requests :: "wire list list" where
  "dds_requests = [[drv_msg PRETRIGGER_code 1]]"

definition recv_requests :: "wire list list" where
  "recv_requests = [[drv_msg PRETRIGGER_code 1], [drv_msg POSTTRIGGER_code 1]]"

definition gps_requests :: "wire list list" where
  "gps_requests = [[drv_msg GET_EVENT_TIME_code 1]]"

lemma timing_serves:
  assumes "timing_reaches t" "seq_id (ready_clients (td_ready t)) \<noteq> td_old_seq_id t" "client_bufs t (ready_clients (td_ready t)) = Some bufs"
    "length (pulses (\<lambda>j. tr_on (merge_all bufs (td_master t) j)) (longest bufs)) < MAX_PULSES"
  obtains t' ps m1 m2 m3 where "serve (timing_msg rd dead) (timing_requests ty) t =
      Some (t', [W_int (int (length ps)), W_uints (map (int \<circ> fst) ps), W_uints (map (int \<circ> snd) ps), W_DriverMsg m1, W_DriverMsg m2, W_DriverMsg m3])"
    "separated ps" "covered ps = {j. j < td_max_seq_count t' \<and> tr_on (td_master t' j)}"
proof -
  let ?m = "\<lparr>dm_type = PRETRIGGER_code, dm_status = 1\<rparr>"
  have ok: "length (tr_start_usec (td_bad t)) = MAX_PULSES" "length (tr_duration_usec (td_bad t)) = MAX_PULSES"
    using timing_link.reaches_invar [OF assms(1)] by (simp_all add: timing_ok_def times_room_def)
  obtain t1 ps where t1: "timing_pretrigger_msg ?m [] t =
      Some (t1, [], [W_int (int (length ps)), W_uints (map (int \<circ> fst) ps), W_uints (map (int \<circ> snd) ps), W_DriverMsg (?m\<lparr>dm_status := 0\<rparr>)])"
    "separated ps" "covered ps = {j. j < td_max_seq_count t1 \<and> tr_on (td_master t1 j)}"
    using pretrigger_reports [OF assms(2,3) ok assms(4), of ?m "[]"] by blast
  let ?tr = "if ty = 2 then GPS_TRIGGER_code else TRIGGER_code"
  obtain t2 where t2: "timing_msg rd dead [drv_msg ?tr 1] t1 = Some (t2, [], [drv_msg ?tr 0])" "td_max_seq_count t2 = td_max_seq_count t1" "td_master t2 = td_master t1"
    by (simp add: timing_msg_def timing_trigger_msg_def card_ops_def)
  obtain t3 where t3: "timing_msg rd dead [drv_msg POSTTRIGGER_code 1] t2 = Some (t3, [], [drv_msg POSTTRIGGER_code 1])" "td_max_seq_count t3 = td_max_seq_count t2" "td_master t3 = td_master t2"
    by (simp add: timing_msg_def timing_posttrigger_msg_def)
  have "timing_msg rd dead [drv_msg PRETRIGGER_code 1] t =
      Some (t1, [], [W_int (int (length ps)), W_uints (map (int \<circ> fst) ps), W_uints (map (int \<circ> snd) ps), drv_msg PRETRIGGER_code 0])"
    using t1(1) by (simp add: timing_msg_def)
  then have "serve (timing_msg rd dead) (timing_requests ty) t =
      Some (t3, [W_int (int (length ps)), W_uints (map (int \<circ> fst) ps), W_uints (map (int \<circ> snd) ps), drv_msg PRETRIGGER_code 0, drv_msg ?tr 0, drv_msg POSTTRIGGER_code 1])"
    using t2(1) t3(1) by (simp add: timing_requests_def del: One_nat_def split del: if_split)
  then show thesis using that t1(2,3) t2(2,3) t3(2,3) by simp
qed

lemma dio_serves:
  assumes "dio_reaches u"
  obtains u' m1 tx m2 where "serve (dio_msg rp) (dio_requests radar) u = Some (u', [W_DriverMsg m1, W_tx tx, W_DriverMsg m2])"
proof -
  obtain u1 where "dio_msg rp [drv_msg PRETRIGGER_code 1] u = Some (u1, [], [drv_msg PRETRIGGER_code 1])"
    using dio_pretrigger_answers [OF dio_link.reaches_invar [OF assms], of rp "\<lparr>dm_type = PRETRIGGER_code, dm_status = 1\<rparr>" "[]"] by (auto simp: dio_msg_def)
  moreover obtain ret tx p where "get_status rp radar (di_txstatus u1) (di_ports u1) = (ret, tx, p)" by (rule prod_cases3)
  then have "dio_msg rp [drv_msg GET_TX_STATUS_code 1, W_int radar] u1 = Some (u1\<lparr>di_txstatus := tx, di_ports := p\<rparr>, [], [W_tx tx, drv_msg GET_TX_STATUS_code ret])"
    by (simp add: dio_msg_def dio_status_msg_def)
  ultimately show thesis using that by (simp add: dio_requests_def)
qed

lemma dds_serves:
  assumes "dds_reaches us v"
  obtains v' m where "serve (dds_msg us) dds_requests v = Some (v', [W_DriverMsg m])"
  using dds_pretrigger_returns [OF dds_link.reaches_invar [OF assms], of "\<lparr>dm_type = PRETRIGGER_code, dm_status = 1\<rparr>" "[]"] that
  by (auto simp: dds_requests_def dds_msg_def)

lemma filter_one: "distinct xs \<Longrightarrow> x \<in> set xs \<Longrightarrow> filter (\<lambda>y. y = x) xs = [x]"
  by (induction xs) (auto simp: filter_empty_conv)

lemma trigger_trace_sent:
  assumes "distinct sched" "set sched = {RECV, DDS, DIO, TIMING}"
  shows "map snd (filter (\<lambda>x. fst x = Driver TIMING) (trigger_trace sched ty (tx_items radar))) = concat (timing_requests ty)"
    "map snd (filter (\<lambda>x. fst x = Driver DIO) (trigger_trace sched ty (tx_items radar))) = concat (dio_requests radar)"
    "map snd (filter (\<lambda>x. fst x = Driver DDS) (trigger_trace sched ty (tx_items radar))) = concat dds_requests"
    "map snd (filter (\<lambda>x. fst x = Driver RECV) (trigger_trace sched ty (tx_items radar))) = concat recv_requests"
    "map snd (filter (\<lambda>x. fst x = Driver GPS) (trigger_trace sched ty (tx_items radar))) = concat gps_requests"
proof -
  have "map snd (filter (\<lambda>x. fst x = Driver d) (map (\<lambda>d. (Driver d, w)) sched)) = (if d = GPS then [] else [w])" for d and w :: wire
  proof (cases d)
    case GPS
    then have "filter (\<lambda>y. y = d) sched = []" using assms(2) by (auto simp: filter_empty_conv)
    then show ?thesis using GPS by (simp add: filter_map o_def)
  qed (use filter_one [OF assms(1), of d] assms(2) in \<open>simp_all add: filter_map o_def\<close>)
  note f = this
  show "map snd (filter (\<lambda>x. fst x = Driver TIMING) (trigger_trace sched ty (tx_items radar))) = concat (timing_requests ty)"
    "map snd (filter (\<lambda>x. fst x = Driver DIO) (trigger_trace sched ty (tx_items radar))) = concat (dio_requests radar)"
    "map snd (filter (\<lambda>x. fst x = Driver DDS) (trigger_trace sched ty (tx_items radar))) = concat dds_requests"
    "map snd (filter (\<lambda>x. fst x = Driver RECV) (trigger_trace sched ty (tx_items radar))) = concat recv_requests"
    "map snd (filter (\<lambda>x. fst x = Driver GPS) (trigger_trace sched ty (tx_items radar))) = concat gps_requests"
    by (simp_all add: f trigger_trace_def tx_items_def timing_requests_def dio_requests_def dds_requests_def recv_requests_def gps_requests_def)
qed

lemma progs_deliver [simp]: "progs_ok (deliver d ws s) = progs_ok s" "will_fire p (deliver d ws s) = will_fire p s" "programs (deliver d ws s) = programs s"
  "sv_trigger_state (deliver d ws s) = sv_trigger_state s" "sv_trigger_type (deliver d ws s) = sv_trigger_type s" "sv_txread (deliver d ws s) = sv_txread s"
  "sv_txstatus (deliver d ws s) = sv_txstatus s"
  by (simp_all add: deliver_def progs_ok_def will_fire_def programs_def is_active_def is_ready_def)

section \<open>Examples\<close>

text \<open>A program on the first channel with a short sequence, and drivers that have just been started, registered it and seen it ready.\<close>

definition short_seq :: TSGbuf where
  "short_seq = \<lparr>tb_index = 0, tb_len = 1, tb_step = 5, tb_code = [2], tb_rep = [1], tb_prm = None\<rparr>"

definition linked :: server where
  "linked = idle_server\<lparr>sv_heap := [7 \<mapsto> new_cp\<lparr>cp_parameters := Some (plain_prm 1 1 0), cp_state := Some (idle_state\<lparr>st_pulseseqs := [Some short_seq, None, None, None]\<rparr>)\<rparr>],
     sv_threads := [(1, 11, 60, 0, 7)], sv_txstatus := [some_tx, some_tx],
     sv_in := (\<lambda>_. [])\<rparr>"

lemma linked_ok:
  "selected_seq linked 7 = Some (plain_prm 1 1 0, Some short_seq)" "prm_cell (plain_prm 1 1 0) \<noteq> None" "pr_current_pulseseq_index (plain_prm 1 1 0) = 0"
  "length (sv_txstatus linked) = MAX_RADARS" "length (tb_rep short_seq) = 1" "length (tb_code short_seq) = 1" "tb_len short_seq = 1"
proof -
  have i: "pr_current_pulseseq_index (plain_prm 1 1 0) = 0" by (simp add: plain_prm_def)
  then show "selected_seq linked 7 = Some (plain_prm 1 1 0, Some short_seq)" by (simp add: linked_def selected_seq_def parameters_of_def state_of_def aref_def)
  show "pr_current_pulseseq_index (plain_prm 1 1 0) = 0" by (rule i)
qed (simp_all add: plain_cell linked_def short_seq_def site_consts)

definition timing_new :: timing where
  "timing_new = timing_start (\<lambda>_. 0) (replicate 8 (plain_prm 1 1 0)) (\<lambda>_. 0) (replicate MAX_PULSES 0) (replicate MAX_PULSES 0)"

lemma started_intros:
  "length clients = maxclients \<Longrightarrow> length starts = MAX_PULSES \<Longrightarrow> length durs = MAX_PULSES \<Longrightarrow> timing_started (timing_start rd clients master starts durs)"
  "length clients = maxclients \<Longrightarrow> length active = maxclients \<Longrightarrow> dds_started (dds_start clients active)"
  "length clients = maxclients \<Longrightarrow> tables_ok tables \<Longrightarrow> dio_started (dio_start clients tables ps)"
  unfolding timing_started_def dds_started_def dio_started_def by blast+

lemma timing_new_reaches: "timing_reaches timing_new"
  unfolding timing_new_def by (intro driver_reaches.started started_intros) simp_all

definition dds_new :: dds where
  "dds_new = dds_start (replicate 8 (plain_prm 1 1 0)) (replicate 8 (-1))"

lemma dds_new_reaches: "dds_reaches us dds_new"
  unfolding dds_new_def by (intro driver_reaches.started started_intros) simp_all

definition dio_new :: dio where
  "dio_new = dio_start (replicate 8 (plain_prm 1 1 0)) [None, None] (\<lambda>_. 0)"

lemma dio_new_reaches: "dio_reaches dio_new"
  unfolding dio_new_def by (intro driver_reaches.started started_intros) (simp_all add: tables_ok_def site_consts)



theorem dio_stays_in_step_witness:
  "stays_in_step DIO (dio_msg (\<lambda>p. p)) dio_reaches (DIO_clrfreq (Some 7)) linked dio_new \<and>
   stays_in_step DIO (dio_msg (\<lambda>p. p)) dio_reaches (DIO_transmitter_status (pr_radar (plain_prm 1 1 0))) linked dio_new"
  using dio_stays_in_step [OF dio_new_reaches linked_ok(1,2,4)] by blast

text \<open>The timing driver after the registration and the announcement of the program.\<close>

definition timing_armed :: timing where
  "timing_armed = timing_new\<lparr>td_pulseseqs := (replicate maxclients (replicate MAX_SEQS None))[0 := (replicate MAX_SEQS None)[0 := Some short_seq]],
     td_ready := \<lparr>rt_clients = replicate 8 (plain_prm 1 1 0), rt_num = 1, rt_index = 0 # replicate 7 (-1)\<rparr>,
     td_seq := [0, 0, 514] # replicate 7 []\<rparr>"

lemma short_unpack: "unpack_seq 0 0 short_seq = Some [0, 0, 514]"
proof -
  have "decodestate 0 0 2 = 514" by (simp add: decodestate_def)
  moreover have "seq_step 5 = 1" by (simp add: seq_step_def STATE_TIME_def cint_def)
  ultimately show ?thesis by (simp add: unpack_seq_def pad_two short_seq_def unpack_runs_def MAX_TIME_SEQ_LEN_def numeral_2_eq_2)
qed

lemma timing_armed_reaches: "timing_reaches timing_armed"
proof -
  let ?r = "[drv_msg REGISTER_SEQ_code 1, W_ControlPRM (plain_prm 1 1 0), W_int 0, W_TSGbuf 0 1 5, W_bytes [1], W_bytes [2]]"
  let ?t = "timing_new\<lparr>td_pulseseqs := (replicate maxclients (replicate MAX_SEQS None))[0 := (replicate MAX_SEQS None)[0 := Some short_seq]], td_old_seq_id := -10\<rparr>"
  have "timing_msg (\<lambda>_. 0) False ?r timing_new = Some (?t, [], [drv_msg REGISTER_SEQ_code 0])"
    by (simp add: timing_msg_def timing_register_msg_def plain_cell timing_new_def timing_start_def aset_def site_consts short_seq_def)
  then have t: "timing_reaches ?t" using driver_reaches.handled [OF timing_new_reaches, of "(\<lambda>_. 0, False)" ?r] by simp
  have "timing_msg (\<lambda>_. 0) False [drv_msg CtrlProg_READY_code 1, W_ControlPRM (plain_prm 1 1 0)] ?t = Some (timing_armed, [], [drv_msg CtrlProg_READY_code 0])"
  proof -
    have p: "pr_radar (plain_prm 1 1 0) = 1" "pr_channel (plain_prm 1 1 0) = 1" "pr_current_pulseseq_index (plain_prm 1 1 0) = 0" by (simp_all add: plain_prm_def)
    show ?thesis
      by (simp add: timing_msg_def timing_ready_msg_def plain_cell add_ready_def wrap_ready_def no_ready_def timing_new_def timing_start_def timing_armed_def
          aset_def aref_def site_consts p short_unpack Let_def replicate_Suc [symmetric] numeral_eq_Suc)
  qed
  then show ?thesis using driver_reaches.handled [OF t, of "(\<lambda>_. 0, False)"] by simp
qed

lemma armed_pulses:
  "ready_clients (td_ready timing_armed) = [plain_prm 1 1 0]" "client_bufs timing_armed [plain_prm 1 1 0] = Some [[0, 0, 514]]"
  "seq_id [plain_prm 1 1 0] \<noteq> td_old_seq_id timing_armed"
  "pulses (\<lambda>j. tr_on (merge_all [[0, 0, 514]] (td_master timing_armed) j)) (longest [[0, 0, 514]]) = [(2, 1)]"
proof -
  show "ready_clients (td_ready timing_armed) = [plain_prm 1 1 0]" by (simp add: timing_armed_def ready_clients_def)
  show "client_bufs timing_armed [plain_prm 1 1 0] = Some [[0, 0, 514]]" by (simp add: timing_armed_def plain_cell)
  show "seq_id [plain_prm 1 1 0] \<noteq> td_old_seq_id timing_armed" by (simp add: seq_id_def plain_prm_def timing_armed_def timing_new_def timing_start_def)
  have "tr_on (merge_all [[0, 0, 514]] m j) = (if j < 3 then j = 2 else tr_on (m j))" for m j
    by (auto simp: merge_all_def overwrite_def tr_on_def nth_Cons split: nat.splits)
  then show "pulses (\<lambda>j. tr_on (merge_all [[0, 0, 514]] (td_master timing_armed) j)) (longest [[0, 0, 514]]) = [(2, 1)]"
    by (simp add: longest_def numeral_3_eq_3)
qed

lemma linked_server:
  "progs_ok linked" "sv_trigger_state linked = 0" "sv_trigger_type linked = 0" "will_fire 7 linked" "programs linked = [7]" "length (sv_txread linked) = MAX_RADARS"
  "sv_heap linked 7 = Some (new_cp\<lparr>cp_parameters := Some (plain_prm 1 1 0), cp_state := Some (idle_state\<lparr>st_pulseseqs := [Some short_seq, None, None, None]\<rparr>)\<rparr>)"
  by (simp_all add: linked_def progs_ok_def programs_def idle_server_def will_fire_def is_active_def site_consts new_cp_def control_init_def)

end
