(* ===== verification/Startup.thy ===== *)
theory Startup
  imports Server_Runs Driver_Protocol Iniparser
begin

text \<open>
  The start of the server: the site settings of \<^verbatim>\<open>server/settings_handler.c\<close>, read from \<^verbatim>\<open>site.ini\<close> with the ini file
  loader, and the part of \<^verbatim>\<open>main\<close> in \<^verbatim>\<open>server/main.c\<close> before it accepts clients: the restricted frequencies of
  \<^verbatim>\<open>restrict.dat\<close>, the initial state, and the messages that tell the drivers the settings. The contents of the two
  files are arguments, with no contents for a file that cannot be opened. Files are written by \<open>ini_text\<close> and
  \<open>restrict_text\<close>, and what the server reads back from them is what they say.
\<close>

section \<open>Site settings\<close>

definition SITE_NAME :: string where "SITE_NAME = ''kod''"
definition IF_ENABLED :: int where "IF_ENABLED = 0"
definition SITE_NAME_SIZE :: nat where "SITE_NAME_SIZE = 80"

text \<open>
  The arguments of the ini file loader are those of \<^const>\<open>iniparser_load\<close>. The name is copied into an array
  of 80 characters, and the name of a section without a value is a null pointer.
\<close>

definition copy_name :: "cptr \<Rightarrow> string option" where
  "copy_name p = (case p of CStr n \<Rightarrow> if length n < SITE_NAME_SIZE then Some n else None | _ \<Rightarrow> None)"

definition settings_parse_ini_file :: "bool \<Rightarrow> char \<Rightarrow> string option \<Rightarrow> SiteSettings \<Rightarrow> (SiteSettings \<times> dictionary option) option" where
  "settings_parse_ini_file grow_ok stale file ss = do {
     ini \<leftarrow> iniparser_load grow_ok stale file;
     case ini of
       None \<Rightarrow> Some (ss, None)
     | Some d \<Rightarrow> do {
         mode \<leftarrow> iniparser_getboolean (Some d) ''site_settings:ifmode'' IF_ENABLED;
         name \<leftarrow> copy_name (iniparser_getstring (Some d) (Some ''site_settings:name'') (CStr SITE_NAME));
         Some (ss\<lparr>ss_ifmode := mode, ss_name := name\<rparr>, Some d)
       }
   }"

definition settings_rxfe_update_rf :: "dictionary option \<Rightarrow> RXFESettings \<Rightarrow> RXFESettings option" where
  "settings_rxfe_update_rf ini x = do {
     amp1 \<leftarrow> iniparser_getboolean ini ''rxfe_rf:enable_amp1'' 0;
     amp2 \<leftarrow> iniparser_getboolean ini ''rxfe_rf:enable_amp2'' 0;
     amp3 \<leftarrow> iniparser_getboolean ini ''rxfe_rf:enable_amp3'' 0;
     att1 \<leftarrow> iniparser_getboolean ini ''rxfe_rf:enable_att1'' 0;
     att2 \<leftarrow> iniparser_getboolean ini ''rxfe_rf:enable_att2'' 0;
     att3 \<leftarrow> iniparser_getboolean ini ''rxfe_rf:enable_att3'' 0;
     att4 \<leftarrow> iniparser_getboolean ini ''rxfe_rf:enable_att4'' 0;
     Some (x\<lparr>rx_ifmode := 0, rx_amp1 := amp1, rx_amp2 := amp2, rx_amp3 := amp3, rx_att1 := att1, rx_att2 := att2, rx_att3 := att3, rx_att4 := att4\<rparr>)
   }"

definition settings_rxfe_update_if :: "dictionary option \<Rightarrow> RXFESettings \<Rightarrow> RXFESettings option" where
  "settings_rxfe_update_if ini x = do {
     amp1 \<leftarrow> iniparser_getboolean ini ''rxfe_if:enable_amp1'' 0;
     amp2 \<leftarrow> iniparser_getboolean ini ''rxfe_if:enable_amp2'' 0;
     amp3 \<leftarrow> iniparser_getboolean ini ''rxfe_if:enable_amp3'' 0;
     att1 \<leftarrow> iniparser_getboolean ini ''rxfe_if:enable_att1'' 0;
     att2 \<leftarrow> iniparser_getboolean ini ''rxfe_if:enable_att2'' 0;
     att3 \<leftarrow> iniparser_getboolean ini ''rxfe_if:enable_att3'' 0;
     att4 \<leftarrow> iniparser_getboolean ini ''rxfe_if:enable_att4'' 0;
     Some (x\<lparr>rx_ifmode := 1, rx_amp1 := amp1, rx_amp2 := amp2, rx_amp3 := amp3, rx_att1 := att1, rx_att2 := att2, rx_att3 := att3, rx_att4 := att4\<rparr>)
   }"

text \<open>The settings before the file is read; static memory is zero.\<close>

definition zero_rxfe :: RXFESettings where
  "zero_rxfe = \<lparr>rx_ifmode = 0, rx_amp1 = 0, rx_amp2 = 0, rx_amp3 = 0, rx_att1 = 0, rx_att2 = 0, rx_att3 = 0, rx_att4 = 0\<rparr>"

definition default_settings :: SiteSettings where
  "default_settings = \<lparr>ss_name = SITE_NAME, ss_num_radars = 0, ss_ifmode = IF_ENABLED, ss_rf_settings = zero_rxfe, ss_if_settings = zero_rxfe\<lparr>rx_ifmode := 1\<rparr>\<rparr>"

definition load_settings :: "bool \<Rightarrow> char \<Rightarrow> string option \<Rightarrow> (SiteSettings \<times> dictionary option) option" where
  "load_settings grow_ok stale file = do {
     (ss, ini) \<leftarrow> settings_parse_ini_file grow_ok stale file default_settings;
     rf \<leftarrow> settings_rxfe_update_rf ini (ss_rf_settings ss);
     ifs \<leftarrow> settings_rxfe_update_if ini (ss_if_settings ss);
     Some (ss\<lparr>ss_rf_settings := rf, ss_if_settings := ifs\<rparr>, ini)
   }"

section \<open>Restricted frequencies\<close>

lemma get_line_nonempty: "0 < k \<Longrightarrow> str \<noteq> [] \<Longrightarrow> fst (get_line k str) \<noteq> []"
  by (cases k; cases str) (auto split: prod.splits)

lemma fgets_shorter: "(x, y) = get_line 119 str \<Longrightarrow> str \<noteq> [] \<Longrightarrow> length y < length str"
  using get_line_nonempty [of 119 str] get_line_shorter [of x y 119 str] by (metis fst_conv zero_less_numeral)

text \<open>The pieces \<^verbatim>\<open>fgets\<close> returns for a buffer of 120 characters.\<close>

function fgets_all :: "string \<Rightarrow> string list" where
  "fgets_all text = (if text = [] then [] else case get_line 119 text of (l, rest) \<Rightarrow> l # fgets_all rest)"
  by pat_completeness auto
termination
  by (relation "measure length") (auto dest: fgets_shorter)

declare fgets_all.simps [simp del]

text \<open>\<^verbatim>\<open>atoi\<close>, whose result is undefined outside the range of an \<^verbatim>\<open>int\<close>.\<close>

definition atoi :: "string \<Rightarrow> int option" where
  "atoi s0 =
    (let s = dropWhile isspace s0;
         v = (case s of [] \<Rightarrow> 0 | c # t \<Rightarrow> if c = CHR ''-'' then - digits_val 10 0 t else if c = CHR ''+'' then digits_val 10 0 t else digits_val 10 0 s)
     in if - (2 ^ 31) \<le> v \<and> v < 2 ^ 31 then Some v else None)"

text \<open>The next field of \<^verbatim>\<open>strtok_r(s," ",..)\<close> and what follows it; no field is a null pointer.\<close>

definition strtok_space :: "string \<Rightarrow> (string \<times> string) option" where
  "strtok_space s = (let t = dropWhile (\<lambda>c. c = CHR '' '') s in
     if t = [] then None else Some (takeWhile (\<lambda>c. c \<noteq> CHR '' '') t, drop 1 (dropWhile (\<lambda>c. c \<noteq> CHR '' '') t)))"

definition is_digit :: "char \<Rightarrow> bool" where
  "is_digit c \<longleftrightarrow> 48 \<le> (of_char c :: int) \<and> (of_char c :: int) \<le> 57"

type_synonym restriction = "int \<times> int \<times> cpid option"

definition restrict_line :: "string \<Rightarrow> restriction list option" where
  "restrict_line s =
    (case s of
       [] \<Rightarrow> Some []
     | c # _ \<Rightarrow> if c = CHR ''#'' then Some []
               else if is_digit c then do {
                 (f1, rest) \<leftarrow> strtok_space s;
                 start \<leftarrow> atoi f1;
                 (f2, rest2) \<leftarrow> strtok_space rest;
                 stop \<leftarrow> atoi f2;
                 Some [(start, stop, None)]
               } else Some [])"

fun restrict_lines :: "string list \<Rightarrow> restriction list option" where
  "restrict_lines [] = Some []"
| "restrict_lines (l # ls) = do { w \<leftarrow> restrict_line l; ws \<leftarrow> restrict_lines ls; Some (w @ ws) }"

text \<open>A missing file leads to \<^verbatim>\<open>fgets\<close> from a null pointer. The array has room for as many windows as the file has pieces, and for 120 more.\<close>

definition restrict_room :: "string \<Rightarrow> nat" where
  "restrict_room text = length (fgets_all text) + Max_Control_THREADS * 4"

definition load_restrict :: "string option \<Rightarrow> restriction list option" where
  "load_restrict file = do {
     text \<leftarrow> file;
     ws \<leftarrow> restrict_lines (fgets_all text);
     if length ws \<le> restrict_room text then Some ws else None
   }"

section \<open>The start of the server\<close>

definition FULL_CLR_FREQS :: nat where "FULL_CLR_FREQS = 20000 - 8000"
definition REFRESHRATE :: int where "REFRESHRATE = 1"
abbreviation GPS_SET_TRIGGER_RATE_code :: char where "GPS_SET_TRIGGER_RATE_code \<equiv> CHR ''R''"

definition zero_tx :: tx_status where
  "zero_tx = \<lparr>tx_LOWPWR = replicate MAX_TRANSMITTERS 0, tx_AGC = replicate MAX_TRANSMITTERS 0, tx_stat = replicate MAX_TRANSMITTERS 0\<rparr>"

definition main_init :: "SiteSettings \<Rightarrow> dictionary option \<Rightarrow> restriction list \<Rightarrow> (endpoint \<Rightarrow> wire list) \<Rightarrow> server" where
  "main_init ss ini bl inp =
    \<lparr>sv_heap = Map.empty, sv_threads = [], sv_channels = replicate nslots None, sv_ready_state = 0, sv_trigger_state = 0, sv_ready_count = 0,
     sv_trigger_type = 0, sv_txread = replicate MAX_RADARS 0, sv_txstatus = replicate MAX_RADARS zero_tx,
     sv_bad_times = \<lparr>tr_length = 0, tr_start_usec = [], tr_duration_usec = []\<rparr>, sv_site_settings = ss, sv_site_ini = ini,
     sv_clr_pwr = replicate MAX_RADARS (replicate FULL_CLR_FREQS 0), sv_blacklist = bl, sv_collection_count = 0, sv_error_count = 0,
     sv_out = [], sv_in = inp\<rparr>"

text \<open>The drivers are told the settings one after the other. All sockets could be opened.\<close>

definition main_start :: "bool \<Rightarrow> char \<Rightarrow> string option \<Rightarrow> string option \<Rightarrow> (endpoint \<Rightarrow> wire list) \<Rightarrow> server option" where
  "main_start grow_ok stale restrict site inp = do {
     bl \<leftarrow> load_restrict restrict;
     (ss, ini) \<leftarrow> load_settings grow_ok stale site;
     s1 \<leftarrow> request GPS [drv_msg GPS_SET_TRIGGER_RATE_code 1, W_int REFRESHRATE] (main_init ss ini bl inp);
     s2 \<leftarrow> receiver_rxfe_settings (Some ss) s1;
     s3 \<leftarrow> dds_rxfe_settings (Some ss) s2;
     dio_rxfe_settings (Some ss) s3
   }"

lemma load_settings_defaults: "load_settings grow_ok stale None = Some (default_settings, None)"
  by (simp add: load_settings_def settings_parse_ini_file_def settings_rxfe_update_rf_def settings_rxfe_update_if_def iniparser_load_def
      iniparser_getboolean_def iniparser_getstring_def default_settings_def zero_rxfe_def)

section \<open>Settings files\<close>

definition yes_no :: "int \<Rightarrow> string" where
  "yes_no b = (if b = 1 then ''yes'' else ''no'')"

definition rxfe_items :: "RXFESettings \<Rightarrow> ini_item list" where
  "rxfe_items x = [KV ''enable_amp1'' (yes_no (rx_amp1 x)), KV ''enable_amp2'' (yes_no (rx_amp2 x)), KV ''enable_amp3'' (yes_no (rx_amp3 x)),
     KV ''enable_att1'' (yes_no (rx_att1 x)), KV ''enable_att2'' (yes_no (rx_att2 x)), KV ''enable_att3'' (yes_no (rx_att3 x)), KV ''enable_att4'' (yes_no (rx_att4 x))]"

definition settings_items :: "SiteSettings \<Rightarrow> ini_item list" where
  "settings_items ss = [Sec ''site_settings'', KV ''name'' (ss_name ss), KV ''ifmode'' (yes_no (ss_ifmode ss)), Sec ''rxfe_rf''] @ rxfe_items (ss_rf_settings ss) @
     [Sec ''rxfe_if''] @ rxfe_items (ss_if_settings ss)"

definition zero_one :: "int \<Rightarrow> bool" where "zero_one b \<longleftrightarrow> b = 0 \<or> b = 1"

definition rxfe_bits :: "RXFESettings \<Rightarrow> bool" where
  "rxfe_bits x \<longleftrightarrow> list_all zero_one [rx_amp1 x, rx_amp2 x, rx_amp3 x, rx_att1 x, rx_att2 x, rx_att3 x, rx_att4 x]"

definition settings_ok :: "SiteSettings \<Rightarrow> bool" where
  "settings_ok ss \<longleftrightarrow> plain_value (ss_name ss) \<and> length (ss_name ss) < SITE_NAME_SIZE \<and> ss_num_radars ss = 0 \<and> zero_one (ss_ifmode ss) \<and>
     rxfe_bits (ss_rf_settings ss) \<and> rxfe_bits (ss_if_settings ss) \<and> rx_ifmode (ss_rf_settings ss) = 0 \<and> rx_ifmode (ss_if_settings ss) = 1"

lemma yes_no_value: "plain_value (yes_no b)"
proof -
  have "plain_value ''yes''" "plain_value ''no''" by code_simp+
  then show ?thesis by (simp add: yes_no_def)
qed

lemma settings_items_ok: "settings_ok ss \<Longrightarrow> list_all item_ok (settings_items ss)"
proof -
  have n: "plain_name ''site_settings''" "plain_name ''name''" "plain_name ''ifmode''" "plain_name ''rxfe_rf''" "plain_name ''rxfe_if''"
    "plain_name ''enable_amp1''" "plain_name ''enable_amp2''" "plain_name ''enable_amp3''" "plain_name ''enable_att1''" "plain_name ''enable_att2''"
    "plain_name ''enable_att3''" "plain_name ''enable_att4''" by code_simp+
  assume "settings_ok ss"
  then show ?thesis by (simp add: settings_items_def rxfe_items_def settings_ok_def n yes_no_value)
qed

definition rxfe_entries :: "string \<Rightarrow> RXFESettings \<Rightarrow> (string \<times> cptr) list" where
  "rxfe_entries sec x = [(sec @ '':enable_amp1'', CStr (yes_no (rx_amp1 x))), (sec @ '':enable_amp2'', CStr (yes_no (rx_amp2 x))),
     (sec @ '':enable_amp3'', CStr (yes_no (rx_amp3 x))), (sec @ '':enable_att1'', CStr (yes_no (rx_att1 x))), (sec @ '':enable_att2'', CStr (yes_no (rx_att2 x))),
     (sec @ '':enable_att3'', CStr (yes_no (rx_att3 x))), (sec @ '':enable_att4'', CStr (yes_no (rx_att4 x)))]"

lemma settings_entries:
  "ini_entries [] (settings_items ss) = [(''site_settings'', CNull), (''site_settings:name'', CStr (ss_name ss)), (''site_settings:ifmode'', CStr (yes_no (ss_ifmode ss))),
     (''rxfe_rf'', CNull)] @ rxfe_entries ''rxfe_rf'' (ss_rf_settings ss) @ [(''rxfe_if'', CNull)] @ rxfe_entries ''rxfe_if'' (ss_if_settings ss)"
  by (simp add: settings_items_def rxfe_items_def rxfe_entries_def)

lemma keys_lower:
  "strlwc ''site_settings:name'' = ''site_settings:name''" "strlwc ''site_settings:ifmode'' = ''site_settings:ifmode''"
  "strlwc ''rxfe_rf:enable_amp1'' = ''rxfe_rf:enable_amp1''" "strlwc ''rxfe_rf:enable_amp2'' = ''rxfe_rf:enable_amp2''" "strlwc ''rxfe_rf:enable_amp3'' = ''rxfe_rf:enable_amp3''"
  "strlwc ''rxfe_rf:enable_att1'' = ''rxfe_rf:enable_att1''" "strlwc ''rxfe_rf:enable_att2'' = ''rxfe_rf:enable_att2''" "strlwc ''rxfe_rf:enable_att3'' = ''rxfe_rf:enable_att3''"
  "strlwc ''rxfe_rf:enable_att4'' = ''rxfe_rf:enable_att4''"
  "strlwc ''rxfe_if:enable_amp1'' = ''rxfe_if:enable_amp1''" "strlwc ''rxfe_if:enable_amp2'' = ''rxfe_if:enable_amp2''" "strlwc ''rxfe_if:enable_amp3'' = ''rxfe_if:enable_amp3''"
  "strlwc ''rxfe_if:enable_att1'' = ''rxfe_if:enable_att1''" "strlwc ''rxfe_if:enable_att2'' = ''rxfe_if:enable_att2''" "strlwc ''rxfe_if:enable_att3'' = ''rxfe_if:enable_att3''"
  "strlwc ''rxfe_if:enable_att4'' = ''rxfe_if:enable_att4''"
  by code_simp+

lemma yes_no_bool:
  "zero_one b \<Longrightarrow> (case yes_no b of [] \<Rightarrow> n | c # _ \<Rightarrow> if c \<in> set ''yY1tT'' then 1 else if c \<in> set ''nN0fF'' then 0 else n) = b"
  by (auto simp: yes_no_def zero_one_def)

text \<open>A dictionary that answers every query from a list of entries, the last one first.\<close>

definition answers_from :: "dictionary \<Rightarrow> (string \<times> cptr) list \<Rightarrow> bool" where
  "answers_from d es \<longleftrightarrow> (\<forall>key def. iniparser_getstring (Some d) (Some key) def = (case map_of (rev es) (strlwc key) of None \<Rightarrow> def | Some v \<Rightarrow> v))"

lemma getboolean_from:
  assumes "answers_from d es" "strlwc key = key" "map_of (rev es) key = Some (CStr (yes_no b))" "zero_one b"
  shows "iniparser_getboolean (Some d) key n = Some b"
proof -
  have "iniparser_getstring (Some d) (Some key) CInvalid = CStr (yes_no b)" using assms(1-3) by (simp add: answers_from_def)
  then show ?thesis by (simp only: iniparser_getboolean_def cptr.case yes_no_bool [OF assms(4)])
qed

lemma rxfe_lookup:
  fixes ss :: SiteSettings
  defines "es \<equiv> ini_entries [] (settings_items ss)" and "rf \<equiv> ss_rf_settings ss" and "ifs \<equiv> ss_if_settings ss"
  shows "map_of (rev es) ''rxfe_rf:enable_amp1'' = Some (CStr (yes_no (rx_amp1 rf)))" "map_of (rev es) ''rxfe_rf:enable_amp2'' = Some (CStr (yes_no (rx_amp2 rf)))"
    "map_of (rev es) ''rxfe_rf:enable_amp3'' = Some (CStr (yes_no (rx_amp3 rf)))" "map_of (rev es) ''rxfe_rf:enable_att1'' = Some (CStr (yes_no (rx_att1 rf)))"
    "map_of (rev es) ''rxfe_rf:enable_att2'' = Some (CStr (yes_no (rx_att2 rf)))" "map_of (rev es) ''rxfe_rf:enable_att3'' = Some (CStr (yes_no (rx_att3 rf)))"
    "map_of (rev es) ''rxfe_rf:enable_att4'' = Some (CStr (yes_no (rx_att4 rf)))"
    "map_of (rev es) ''rxfe_if:enable_amp1'' = Some (CStr (yes_no (rx_amp1 ifs)))" "map_of (rev es) ''rxfe_if:enable_amp2'' = Some (CStr (yes_no (rx_amp2 ifs)))"
    "map_of (rev es) ''rxfe_if:enable_amp3'' = Some (CStr (yes_no (rx_amp3 ifs)))" "map_of (rev es) ''rxfe_if:enable_att1'' = Some (CStr (yes_no (rx_att1 ifs)))"
    "map_of (rev es) ''rxfe_if:enable_att2'' = Some (CStr (yes_no (rx_att2 ifs)))" "map_of (rev es) ''rxfe_if:enable_att3'' = Some (CStr (yes_no (rx_att3 ifs)))"
    "map_of (rev es) ''rxfe_if:enable_att4'' = Some (CStr (yes_no (rx_att4 ifs)))"
    "map_of (rev es) ''site_settings:name'' = Some (CStr (ss_name ss))" "map_of (rev es) ''site_settings:ifmode'' = Some (CStr (yes_no (ss_ifmode ss)))"
  by (simp_all add: es_def rf_def ifs_def settings_entries rxfe_entries_def)

lemma load_settings_back:
  assumes "settings_ok ss"
  obtains d where "load_settings True stale (Some (ini_text (settings_items ss))) = Some (ss, Some d)" "dict_inv d"
proof -
  obtain d where d: "iniparser_load True stale (Some (ini_text (settings_items ss))) = Some (Some d)" "dict_inv d" and es: "answers_from d (ini_entries [] (settings_items ss))"
    using ini_loads [OF settings_items_ok [OF assms]] unfolding answers_from_def by blast
  have b: "zero_one (ss_ifmode ss)" "rxfe_bits (ss_rf_settings ss)" "rxfe_bits (ss_if_settings ss)" "length (ss_name ss) < SITE_NAME_SIZE"
    "rx_ifmode (ss_rf_settings ss) = 0" "rx_ifmode (ss_if_settings ss) = 1" "ss_num_radars ss = 0" using assms by (simp_all add: settings_ok_def)
  note get = getboolean_from [OF es]
  have name: "copy_name (iniparser_getstring (Some d) (Some ''site_settings:name'') (CStr SITE_NAME)) = Some (ss_name ss)"
    using es b(4) rxfe_lookup(15) [of ss] by (simp add: answers_from_def keys_lower copy_name_def)
  have rf: "settings_rxfe_update_rf (Some d) zero_rxfe = Some (ss_rf_settings ss)"
    using b(2,5) by (simp add: settings_rxfe_update_rf_def get keys_lower rxfe_lookup rxfe_bits_def zero_rxfe_def)
  have ifs: "settings_rxfe_update_if (Some d) (zero_rxfe\<lparr>rx_ifmode := 1\<rparr>) = Some (ss_if_settings ss)"
    using b(3,6) by (simp add: settings_rxfe_update_if_def get keys_lower rxfe_lookup rxfe_bits_def zero_rxfe_def)
  have mode: "iniparser_getboolean (Some d) ''site_settings:ifmode'' IF_ENABLED = Some (ss_ifmode ss)" using b(1) by (simp add: get keys_lower rxfe_lookup)
  have "load_settings True stale (Some (ini_text (settings_items ss))) =
      Some (default_settings\<lparr>ss_ifmode := ss_ifmode ss, ss_name := ss_name ss, ss_rf_settings := ss_rf_settings ss, ss_if_settings := ss_if_settings ss\<rparr>, Some d)"
    unfolding load_settings_def settings_parse_ini_file_def d(1) using name rf ifs mode by (simp add: default_settings_def)
  moreover have "default_settings\<lparr>ss_ifmode := ss_ifmode ss, ss_name := ss_name ss, ss_rf_settings := ss_rf_settings ss, ss_if_settings := ss_if_settings ss\<rparr> = ss"
    using b(7) by (simp add: default_settings_def)
  ultimately show thesis using that d(2) by simp
qed

section \<open>Restriction files\<close>

text \<open>A remark, or the two edges of a window in kHz and what follows them on the line.\<close>

datatype restrict_item = Remark string | Window nat nat string

fun dec :: "nat \<Rightarrow> string" where
  "dec n = (if n < 10 then [char_of (48 + n)] else dec (n div 10) @ [char_of (48 + n mod 10)])"

declare dec.simps [simp del]

fun restrict_item_text :: "restrict_item \<Rightarrow> string" where
  "restrict_item_text (Remark c) = CHR ''#'' # c"
| "restrict_item_text (Window a b r) = dec a @ CHR '' '' # dec b @ r"

definition restrict_text :: "restrict_item list \<Rightarrow> string" where
  "restrict_text items = concat (map (\<lambda>x. restrict_item_text x @ [newline]) items)"

fun restrict_item_ok :: "restrict_item \<Rightarrow> bool" where
  "restrict_item_ok (Remark c) \<longleftrightarrow> newline \<notin> set c \<and> length c < 118"
| "restrict_item_ok (Window a b r) \<longleftrightarrow> a < 2 ^ 31 \<and> b < 2 ^ 31 \<and> newline \<notin> set r \<and> length r < 60 \<and> (r = [] \<or> hd r = CHR '' '')"

fun item_windows :: "restrict_item \<Rightarrow> restriction list" where
  "item_windows (Remark c) = []"
| "item_windows (Window a b r) = [(int a, int b, None)]"

lemma of_char_int: "(of_char c :: int) = int (of_char c)"
  by (simp only: of_nat_of_char)

lemma digit_char: "d < 10 \<Longrightarrow> of_char (char_of (48 + d :: nat) :: char) = int (48 + d)"
  by (simp only: of_char_int of_char_of) simp

lemma digit_val_char: "d < 10 \<Longrightarrow> digit_val (char_of (48 + d :: nat)) = Some (int d)"
  by (simp add: digit_val_def digit_char)

lemma is_digit_char: "d < 10 \<Longrightarrow> is_digit (char_of (48 + d :: nat))"
  by (simp add: is_digit_def digit_char)

lemma dec_digits: "c \<in> set (dec n) \<Longrightarrow> is_digit c"
proof (induction n rule: dec.induct)
  case (1 n)
  have "c \<in> set (if n < 10 then [char_of (48 + n)] else dec (n div 10) @ [char_of (48 + n mod 10)])"
    using 1(2) by (simp only: dec.simps [of n])
  then show ?case using 1(1) by (auto simp: is_digit_char split: if_splits)
qed

lemma dec_plain: "CHR '' '' \<notin> set (dec n)" "newline \<notin> set (dec n)" "CHR ''#'' \<notin> set (dec n)"
  using dec_digits [of "CHR '' ''" n] dec_digits [of newline n] dec_digits [of "CHR ''#''" n] by (auto simp: is_digit_def newline_def)

lemma dec_nonempty: "dec n \<noteq> []"
  by (subst dec.simps) simp

lemma dec_length: "n < 10 ^ k \<Longrightarrow> 0 < k \<Longrightarrow> length (dec n) \<le> k"
proof (induction n arbitrary: k rule: dec.induct)
  case (1 n)
  show ?case
  proof (cases "n < 10")
    case False
    obtain j where k: "k = Suc j" using 1(3) by (cases k) auto
    with False 1(2) have "n div 10 < 10 ^ j" "0 < j" by (cases j; simp add: less_mult_imp_div_less mult.commute)+
    then show ?thesis using 1(1) False k by (subst dec.simps) simp
  qed (use 1 in \<open>subst dec.simps, simp\<close>)
qed

lemma digits_val_append: "\<forall>c\<in>set s. is_digit c \<Longrightarrow> digits_val 10 acc (s @ t) = digits_val 10 (digits_val 10 acc s) t"
  by (induction s arbitrary: acc) (auto simp: is_digit_def digit_val_def Let_def)

lemma dec_value: "digits_val 10 0 (dec n) = int n"
proof (induction n rule: dec.induct)
  case (1 n)
  show ?case
  proof (cases "n < 10")
    case True
    then show ?thesis by (subst dec.simps) (simp add: digit_val_char)
  next
    case False
    have "digits_val 10 0 (dec n) = digits_val 10 (int (n div 10)) [char_of (48 + n mod 10)]"
      using False 1 dec_digits by (subst dec.simps) (simp add: digits_val_append del: digits_val.simps)
    also have "\<dots> = int (n div 10) * 10 + int (n mod 10)" by (simp add: digit_val_char)
    also have "\<dots> = int n" by (metis mult.commute of_nat_add of_nat_mult of_nat_numeral mult_div_mod_eq)
    finally show ?thesis .
  qed
qed

text \<open>A number followed by the end of its field, or by the newline of its line.\<close>

lemma atoi_dec:
  assumes "n < 2 ^ 31" "t = [] \<or> t = [newline]"
  shows "atoi (dec n @ t) = Some (int n)"
proof -
  obtain c s where c: "dec n = c # s" using dec_nonempty [of n] by (cases "dec n") auto
  have d: "is_digit c" using dec_digits [of c n] c by simp
  then have sp: "\<not> isspace c" "c \<noteq> CHR ''-''" "c \<noteq> CHR ''+''"
    by (auto simp: is_digit_def isspace_def of_char_int)
  have "digits_val 10 0 (dec n @ t) = int n"
    using assms(2) dec_digits dec_value [of n] by (auto simp: digits_val_append digit_val_def newline_def Let_def)
  then have v: "digits_val 10 0 (c # s @ t) = int n" by (simp add: c del: digits_val.simps)
  have "atoi (dec n @ t) = (if - (2 ^ 31) \<le> int n \<and> int n < 2 ^ 31 then Some (int n) else None)"
    unfolding atoi_def c append_Cons using sp by (simp add: v Let_def del: digits_val.simps)
  moreover have "int n < 2 ^ 31" using assms(1) by simp
  ultimately show ?thesis by simp
qed

text \<open>The pieces \<^verbatim>\<open>fgets\<close> returns for such a file are its lines.\<close>

lemma restrict_item_line:
  assumes "restrict_item_ok x"
  shows "newline \<notin> set (restrict_item_text x)" "length (restrict_item_text x) < 119"
proof -
  have len: "length (dec n) \<le> 10" if "n < 2 ^ 31" for n using that by (intro dec_length) simp_all
  show "newline \<notin> set (restrict_item_text x)" using assms dec_plain by (cases x) (auto simp: newline_def)
  show "length (restrict_item_text x) < 119"
  proof (cases x)
    case (Window a b r)
    then show ?thesis using assms len [of a] len [of b] by simp
  qed (use assms in simp)
qed

lemma fgets_all_line:
  assumes "restrict_item_ok x"
  shows "fgets_all (restrict_item_text x @ newline # r) = (restrict_item_text x @ [newline]) # fgets_all r"
  using get_line_nl [OF restrict_item_line [OF assms], of r] by (subst fgets_all.simps) simp

lemma fgets_all_text: "list_all restrict_item_ok items \<Longrightarrow> fgets_all (restrict_text items) = map (\<lambda>x. restrict_item_text x @ [newline]) items"
  by (induction items) (simp_all add: restrict_text_def fgets_all_line, simp add: fgets_all.simps)

lemma strtok_dec: "r = [] \<or> hd r = CHR '' '' \<Longrightarrow> strtok_space (dec n @ r) = Some (dec n, drop 1 r)"
proof -
  have sp: "\<forall>c\<in>set (dec n). c \<noteq> CHR '' ''" using dec_plain [of n] by auto
  have hd: "dropWhile (\<lambda>c. c = CHR '' '') (dec n @ r) = dec n @ r" using sp dec_nonempty [of n] by (cases "dec n") auto
  assume "r = [] \<or> hd r = CHR '' ''"
  then have "takeWhile (\<lambda>c. c \<noteq> CHR '' '') (dec n @ r) = dec n" "dropWhile (\<lambda>c. c \<noteq> CHR '' '') (dec n @ r) = r"
    using sp by (cases r; simp add: takeWhile_append dropWhile_append)+
  then show ?thesis by (simp add: strtok_space_def hd dec_nonempty)
qed

lemma strtok_newline: "strtok_space (dec n @ [newline]) = Some (dec n @ [newline], [])"
proof -
  have sp: "\<forall>c\<in>set (dec n @ [newline]). c \<noteq> CHR '' ''" using dec_plain [of n] by (auto simp: newline_def)
  then have "dropWhile (\<lambda>c. c = CHR '' '') (dec n @ [newline]) = dec n @ [newline]" by (cases "dec n") auto
  moreover have "takeWhile (\<lambda>c. c \<noteq> CHR '' '') (dec n @ [newline]) = dec n @ [newline]" "dropWhile (\<lambda>c. c \<noteq> CHR '' '') (dec n @ [newline]) = []"
    using sp by (simp_all only: takeWhile_eq_all_conv dropWhile_eq_Nil_conv)
  ultimately show ?thesis by (simp add: strtok_space_def)
qed

lemma restrict_line_item: "restrict_item_ok x \<Longrightarrow> restrict_line (restrict_item_text x @ [newline]) = Some (item_windows x)"
proof (cases x)
  case (Window a b r)
  assume ok: "restrict_item_ok x"
  obtain c s where c: "dec a = c # s" using dec_nonempty [of a] by (cases "dec a") auto
  have d: "is_digit c" "c \<noteq> CHR ''#''" using dec_digits [of c a] c by (auto simp: is_digit_def)
  have f1: "strtok_space (dec a @ CHR '' '' # dec b @ r @ [newline]) = Some (dec a, dec b @ r @ [newline])"
    using strtok_dec [of "CHR '' '' # dec b @ r @ [newline]" a] by simp
  obtain g rest where f2: "strtok_space (dec b @ r @ [newline]) = Some (g, rest)" "atoi g = Some (int b)"
  proof (cases r)
    case Nil
    then show thesis using that [of "dec b @ [newline]"] strtok_newline [of b] atoi_dec [of b "[newline]"] ok Window by simp
  next
    case (Cons y ys)
    then show thesis using that [of "dec b"] strtok_dec [of "r @ [newline]" b] atoi_dec [of b "[]"] ok Window by simp
  qed
  have "restrict_line (c # s @ CHR '' '' # dec b @ r @ [newline]) = Some [(int a, int b, None)]"
    using d f1 f2 atoi_dec [of a "[]"] ok Window by (simp add: restrict_line_def c)
  then show ?thesis by (simp add: Window c)
qed (simp add: restrict_line_def)

lemma load_restrict_text:
  assumes "list_all restrict_item_ok items"
  shows "load_restrict (Some (restrict_text items)) = Some (concat (map item_windows items))"
proof -
  have ls: "restrict_lines (map (\<lambda>x. restrict_item_text x @ [newline]) items) = Some (concat (map item_windows items))"
    using assms by (induction items) (simp_all add: restrict_line_item)
  have len: "length (item_windows x) \<le> 1" for x by (cases x) simp_all
  have "length (concat (map item_windows items)) \<le> length items"
  proof (induction items)
    case (Cons x xs)
    then show ?case using len [of x] by simp
  qed simp
  then show ?thesis by (simp add: load_restrict_def restrict_room_def fgets_all_text [OF assms] ls)
qed

section \<open>Properties\<close>

abbreviation rxfe_request :: "SiteSettings \<Rightarrow> wire list" where
  "rxfe_request ss \<equiv> [drv_msg RXFE_SETTINGS_code 1, W_int (ss_ifmode ss), W_RXFE (ss_rf_settings ss), W_RXFE (ss_if_settings ss)]"

lemma request_answered:
  "sv_in s (Driver d) = W_DriverMsg m # r \<Longrightarrow>
   request d ws s = Some (s\<lparr>sv_out := sv_out s @ map (Pair (Driver d)) ws, sv_in := (sv_in s)(Driver d := r)\<rparr>)"
  by (simp add: request_def recv_from_def send_all_def)

lemma main_start_files:
  assumes "settings_ok ss" "list_all restrict_item_ok items"
    and "inp (Driver GPS) = W_DriverMsg m1 # r1" "inp (Driver RECV) = W_DriverMsg m2 # r2"
    and "inp (Driver DDS) = W_DriverMsg m3 # r3" "inp (Driver DIO) = W_DriverMsg m4 # r4"
  shows "\<exists>s. main_start True stale (Some (restrict_text items)) (Some (ini_text (settings_items ss))) inp = Some s \<and>
    sv_site_settings s = ss \<and> sv_blacklist s = concat (map item_windows items) \<and>
    sv_out s = map (Pair (Driver GPS)) [drv_msg GPS_SET_TRIGGER_RATE_code 1, W_int REFRESHRATE] @
      concat (map (\<lambda>d. map (Pair (Driver d)) (rxfe_request ss)) [RECV, DDS, DIO]) \<and>
    sv_in s = inp(Driver GPS := r1, Driver RECV := r2, Driver DDS := r3, Driver DIO := r4) \<and>
    sv_threads s = [] \<and> sv_channels s = replicate nslots None"
proof -
  obtain d where "load_settings True stale (Some (ini_text (settings_items ss))) = Some (ss, Some d)" using load_settings_back [OF assms(1)] .
  then show ?thesis
    using load_restrict_text [OF assms(2)] assms(3-6)
    by (simp add: main_start_def main_init_def request_answered receiver_rxfe_settings_def dds_rxfe_settings_def dio_rxfe_settings_def rxfe_settings_def)
qed

text \<open>
  C19: the server starts from its two site files: the settings and the restricted windows it keeps are the ones written in the files,
  the receiver, the synthesisers and the digital I/O are told these settings after the GPS clock is set to one trigger a second, and
  whatever clients do afterwards, the books of the server stay in order.
\<close>

theorem startup_reads_site_files:
  assumes "settings_ok ss" "list_all restrict_item_ok items"
    and "inp (Driver GPS) = W_DriverMsg m1 # r1" "inp (Driver RECV) = W_DriverMsg m2 # r2"
    and "inp (Driver DDS) = W_DriverMsg m3 # r3" "inp (Driver DIO) = W_DriverMsg m4 # r4"
  shows "\<exists>s. main_start True stale (Some (restrict_text items)) (Some (ini_text (settings_items ss))) inp = Some s \<and>
    sv_site_settings s = ss \<and> sv_blacklist s = concat (map item_windows items) \<and>
    sv_out s = map (Pair (Driver GPS)) [drv_msg GPS_SET_TRIGGER_RATE_code 1, W_int REFRESHRATE] @
      concat (map (\<lambda>d. map (Pair (Driver d)) (rxfe_request ss)) [RECV, DDS, DIO]) \<and>
    (\<forall>r. ros_reach (ros_start s) r \<longrightarrow> runs_inv r)"
  using main_start_files [OF assms, of stale] runs_inv_start runs_inv_reach by blast

lemma dio_applies_settings:
  fixes u :: dio
  shows "\<exists>u' m. dio_msg rd (rxfe_request ss) u = Some (u', [], [W_DriverMsg m]) \<and>
    di_ports u' = (di_ports u)(PB_GRP 4 := of_int (build_RXFE_EEPROM_address (if ss_ifmode ss \<noteq> 0 then ss_if_settings ss else ss_rf_settings ss)))"
  by (simp add: dio_msg_def dio_rxfe_settings_msg_def apply_rxfe_def set_RXFE_EEPROM_address_def)

text \<open>
  C20: the settings of the site file reach the receiver front end: with drivers in any states they can reach, the server starts, both
  drivers consume what it sends them and it consumes what they answer, and the port of the front end then shows the byte
  of the settings that the file selects, with no other port changed.
\<close>

theorem site_settings_reach_front_end:
  fixes u :: dio and t :: dds
  assumes "settings_ok ss" "list_all restrict_item_ok items" "dds_reaches us t" "dio_reaches u"
    and "inp (Driver GPS) = [W_DriverMsg m1]" "inp (Driver RECV) = [W_DriverMsg m2]"
  shows "\<exists>s t' u' a b. dds_msg us (rxfe_request ss) t = Some (t', [], a) \<and> dio_msg rd (rxfe_request ss) u = Some (u', [], b) \<and>
    main_start True stale (Some (restrict_text items)) (Some (ini_text (settings_items ss))) (inp(Driver DDS := a, Driver DIO := b)) = Some s \<and>
    (\<forall>d. sv_in s (Driver d) = (if d = TIMING then inp (Driver d) else [])) \<and> dds_reaches us t' \<and> dio_reaches u' \<and>
    (\<forall>d \<in> {DDS, DIO}. map snd (filter (\<lambda>x. fst x = Driver d) (sv_out s)) = rxfe_request ss) \<and>
    (\<forall>p. di_ports u' p = (if p = PB_GRP 4
        then of_int (build_RXFE_EEPROM_address (if ss_ifmode ss = 1 then ss_if_settings ss else ss_rf_settings ss)) else di_ports u p))"
proof -
  have ok: "rxfe_ok (rxfe_request ss)" by (auto simp: rxfe_ok_def)
  obtain t' m3 where t': "dds_msg us (rxfe_request ss) t = Some (t', [], [W_DriverMsg m3])"
    using dds_link.request_answered [OF dds_link.reaches_invar [OF assms(3)], where us = us and ws = "rxfe_request ss"] ok by (auto simp: dds_request_ok_def)
  obtain u' m4 where u': "dio_msg rd (rxfe_request ss) u = Some (u', [], [W_DriverMsg m4])"
    and p: "di_ports u' = (di_ports u)(PB_GRP 4 := of_int (build_RXFE_EEPROM_address (if ss_ifmode ss \<noteq> 0 then ss_if_settings ss else ss_rf_settings ss)))"
    using dio_applies_settings by blast
  have r: "dds_reaches us t'" "dio_reaches u'"
    using driver_reaches.handled [OF assms(3), OF t'] driver_reaches.handled [OF assms(4), of rd, OF u'] by blast+
  let ?inp = "inp(Driver DDS := [W_DriverMsg m3], Driver DIO := [W_DriverMsg m4])"
  have in4: "?inp (Driver GPS) = W_DriverMsg m1 # []" "?inp (Driver RECV) = W_DriverMsg m2 # []" "?inp (Driver DDS) = W_DriverMsg m3 # []" "?inp (Driver DIO) = W_DriverMsg m4 # []"
    using assms(5,6) by simp_all
  obtain s where s: "main_start True stale (Some (restrict_text items)) (Some (ini_text (settings_items ss))) ?inp = Some s"
    "sv_out s = map (Pair (Driver GPS)) [drv_msg GPS_SET_TRIGGER_RATE_code 1, W_int REFRESHRATE] @
      concat (map (\<lambda>d. map (Pair (Driver d)) (rxfe_request ss)) [RECV, DDS, DIO])"
    "sv_in s = ?inp(Driver GPS := [], Driver RECV := [], Driver DDS := [], Driver DIO := [])"
    using main_start_files [OF assms(1,2) in4, of stale] by blast
  have "sv_in s (Driver d) = (if d = TIMING then inp (Driver d) else [])" for d by (cases d) (simp_all add: s(3))
  moreover have "ss_ifmode ss \<noteq> 0 \<longleftrightarrow> ss_ifmode ss = 1" using assms(1) by (auto simp: settings_ok_def zero_one_def)
  ultimately show ?thesis using t' u' s(1,2) r p by (intro exI [of _ s] exI [of _ t'] exI [of _ u'] exI [of _ "[W_DriverMsg m3]"] exI [of _ "[W_DriverMsg m4]"]) simp
qed

section \<open>Witnesses\<close>

definition some_settings :: SiteSettings where
  "some_settings = \<lparr>ss_name = ''kod'', ss_num_radars = 0, ss_ifmode = 1, ss_rf_settings = zero_rxfe\<lparr>rx_att1 := 1\<rparr>, ss_if_settings = zero_rxfe\<lparr>rx_ifmode := 1, rx_amp2 := 1\<rparr>\<rparr>"

definition some_restrictions :: "restrict_item list" where
  "some_restrictions = [Remark '' kodiak'', Window 8000 8200 [], Window 14000 14350 '' amateur'']"

lemma ok_inp: "(\<lambda>_. [ok_msg]) e = [drv_msg CHR ''0'' 1]"
  by (simp add: ok_msg_def)

lemma some_files_ok: "settings_ok some_settings" "list_all restrict_item_ok some_restrictions"
proof -
  have "plain_value ''kod''" by code_simp
  then show "settings_ok some_settings" by (simp add: settings_ok_def some_settings_def SITE_NAME_SIZE_def zero_one_def rxfe_bits_def zero_rxfe_def)
  show "list_all restrict_item_ok some_restrictions" by (simp add: some_restrictions_def newline_def)
qed

theorem startup_reads_site_files_witness:
  "\<exists>s. main_start True CHR ''x'' (Some (restrict_text some_restrictions)) (Some (ini_text (settings_items some_settings))) (\<lambda>_. [ok_msg]) = Some s \<and>
    sv_site_settings s = some_settings \<and> sv_blacklist s = [(8000, 8200, None), (14000, 14350, None)]"
proof -
  have w: "concat (map item_windows some_restrictions) = [(8000, 8200, None), (14000, 14350, None)]" by (simp add: some_restrictions_def)
  show ?thesis using startup_reads_site_files [OF some_files_ok, where inp = "\<lambda>_. [ok_msg]" and stale = "CHR ''x''", OF ok_inp ok_inp ok_inp ok_inp] unfolding w by blast
qed

theorem site_settings_reach_front_end_witness:
  "\<exists>s u' a b. dio_msg (\<lambda>p. p) (rxfe_request some_settings) dio_new = Some (u', [], b) \<and> di_ports u' (PB_GRP 4) = 111 \<and>
    main_start True CHR ''x'' (Some (restrict_text some_restrictions)) (Some (ini_text (settings_items some_settings))) ((\<lambda>_. [ok_msg])(Driver DDS := a, Driver DIO := b)) = Some s"
proof -
  have a: "of_int (build_RXFE_EEPROM_address (ss_if_settings some_settings)) = (111 :: u8)" "ss_ifmode some_settings = 1"
    by (simp_all add: some_settings_def build_RXFE_EEPROM_address_def zero_rxfe_def)
  obtain s t' u' a b where "dio_msg (\<lambda>p. p) (rxfe_request some_settings) dio_new = Some (u', [], b)"
    "main_start True CHR ''x'' (Some (restrict_text some_restrictions)) (Some (ini_text (settings_items some_settings))) ((\<lambda>_. [ok_msg])(Driver DDS := a, Driver DIO := b)) = Some s"
    "\<forall>p. di_ports u' p = (if p = PB_GRP 4
        then of_int (build_RXFE_EEPROM_address (if ss_ifmode some_settings = 1 then ss_if_settings some_settings else ss_rf_settings some_settings)) else di_ports dio_new p)"
    using site_settings_reach_front_end [OF some_files_ok dds_new_reaches dio_new_reaches,
        where us = 5 and inp = "\<lambda>_. [ok_msg]" and rd = "\<lambda>p. p" and stale = "CHR ''x''", OF ok_inp ok_inp] by (elim exE conjE) (rule that)
  then show ?thesis using a by (intro exI [of _ s] exI [of _ u'] exI [of _ a] exI [of _ b]) simp
qed

end
