(* ===== verification/Gps_Time.thy ===== *)
theory Gps_Time
  imports ROS_Prelude
begin

text \<open>
  Times of the GPS card. The C library's \<^verbatim>\<open>gmtime\<close> and \<^verbatim>\<open>mktime\<close>, the binary coded decimals of the card's registers, and the functions of
  \<^verbatim>\<open>gps_tcp_driver\<close> that turn one into the other: \<^verbatim>\<open>get_event_time\<close>, \<^verbatim>\<open>get_software_time\<close>, \<^verbatim>\<open>get_compare_time\<close> and
  \<^verbatim>\<open>set_time_compare_register\<close>. The lemmas at the end say that they are exact for every time a 32 bit \<^verbatim>\<open>time_t\<close> can hold from 1970 on.
\<close>

section \<open>Calendar\<close>

text \<open>
  \<^verbatim>\<open>gmtime\<close> and \<^verbatim>\<open>mktime\<close> of the C library, for a machine whose time zone is UTC and whose \<^verbatim>\<open>time_t\<close> has 32 bits.
  Days count from the first of January 1970.
\<close>

definition leap_year :: "int \<Rightarrow> bool" where
  "leap_year y \<longleftrightarrow> 4 dvd y \<and> (\<not> 100 dvd y \<or> 400 dvd y)"

definition leaps_before :: "int \<Rightarrow> int" where
  "leaps_before y = (y - 1) div 4 - (y - 1) div 100 + (y - 1) div 400"

definition year_start :: "int \<Rightarrow> int" where
  "year_start y = 365 * (y - 1970) + leaps_before y - leaps_before 1970"

definition month_start :: "bool \<Rightarrow> int list" where
  "month_start leap = (if leap then [0, 31, 60, 91, 121, 152, 182, 213, 244, 274, 305, 335]
                       else [0, 31, 59, 90, 120, 151, 181, 212, 243, 273, 304, 334])"

lemma year_length: "year_start (y + 1) = year_start y + (if leap_year y then 366 else 365)"
proof -
  have step: "y div n = (y - 1) div n + (if n dvd y then 1 else 0)" if n: "1 < n" for n :: int
  proof -
    have y: "y = n * (y div n) + y mod n" "0 \<le> y mod n" "y mod n < n" using n by simp_all
    have "(y - 1) div n = y div n - (if n dvd y then 1 else 0)"
    proof (cases "n dvd y")
      case True
      then have "y - 1 = n * (y div n - 1) + (n - 1)" by (simp add: right_diff_distrib)
      then have "(y - 1) div n = y div n - 1" using n by (intro int_div_pos_eq [where r = "n - 1"]) simp_all
      then show ?thesis using True by simp
    next
      case False
      then have "y mod n \<noteq> 0" by (simp add: dvd_eq_mod_eq_0)
      moreover have "y - 1 = n * (y div n) + (y mod n - 1)" by simp
      ultimately show ?thesis using y(2,3) False by (simp only: int_div_pos_eq [of "y - 1" n "y div n" "y mod n - 1"]) simp
    qed
    then show ?thesis by simp
  qed
  have count: "(a + (if P then 1 else 0)) - (b + (if Q then 1 else 0)) + (c + (if R then 1 else 0)) = (a - b + c) + (if P \<and> (\<not> Q \<or> R) then 1 else 0)"
    if "Q \<Longrightarrow> P" "R \<Longrightarrow> Q" for a b c :: int and P Q R using that by auto
  have "100 dvd y \<Longrightarrow> 4 dvd y" "400 dvd y \<Longrightarrow> 100 dvd y" by (auto intro: dvd_trans [of 4 100] dvd_trans [of 100 400])
  then have "leaps_before (y + 1) = leaps_before y + (if leap_year y then 1 else 0)"
    unfolding leaps_before_def leap_year_def add_diff_cancel_right' step [of 4, simplified] step [of 100, simplified] step [of 400, simplified] by (rule count)
  then show ?thesis by (simp add: year_start_def)
qed

lemma year_start_less: "year_start y < year_start (y + 1)"
  by (simp add: year_length)

function find_year :: "int \<Rightarrow> int \<Rightarrow> int" where
  "find_year y d = (if d < year_start (y + 1) then y else find_year (y + 1) d)"
  by pat_completeness auto
termination
  by (relation "measure (\<lambda>(y, d). nat (d - year_start y))") (use year_start_less in \<open>auto simp: not_less intro: order.strict_trans2\<close>)

declare find_year.simps [simp del]

record tm =
  tm_year :: int
  tm_yday :: int
  tm_hour :: int
  tm_min :: int
  tm_sec :: int

definition gmtime :: "int \<Rightarrow> tm" where
  "gmtime t = (let d = t div 86400; s = t mod 86400; y = find_year (if 0 \<le> d then 1970 else 1970 + d div 365) d in
     \<lparr>tm_year = y - 1900, tm_yday = d - year_start y, tm_hour = s div 3600, tm_min = s mod 3600 div 60, tm_sec = s mod 60\<rparr>)"

definition mktime :: "int \<Rightarrow> int \<Rightarrow> int \<Rightarrow> int \<Rightarrow> int \<Rightarrow> int \<Rightarrow> int" where
  "mktime year mon mday hour minute second =
    (let y = 1900 + year + mon div 12;
         d = year_start y + month_start (leap_year y) ! nat (mon mod 12) + mday - 1;
         t = 86400 * d + 3600 * hour + 60 * minute + second
     in if - (2 ^ 31) \<le> t \<and> t < 2 ^ 31 then t else -1)"

lemma find_year_bounds: "year_start y \<le> d \<Longrightarrow> year_start (find_year y d) \<le> d \<and> d < year_start (find_year y d + 1) \<and> y \<le> find_year y d"
proof (induction y d rule: find_year.induct)
  case (1 y d)
  then show ?case by (subst (1 2 3) find_year.simps) (auto simp: not_less)
qed

lemma year_start_mono: "y \<le> z \<Longrightarrow> year_start y \<le> year_start z"
proof (induction "nat (z - y)" arbitrary: z)
  case (Suc n)
  then have "year_start y \<le> year_start (z - 1)" by simp
  also have "\<dots> \<le> year_start z" using year_start_less [of "z - 1"] by simp
  finally show ?case .
qed simp

lemma gmtime_range:
  assumes "0 \<le> t" "t < 2 ^ 31"
  defines "y \<equiv> tm_year (gmtime t) + 1900"
  shows "1970 \<le> y" "y \<le> 2038" "0 \<le> tm_yday (gmtime t)" "tm_yday (gmtime t) < (if leap_year y then 366 else 365)"
    "0 \<le> tm_hour (gmtime t)" "tm_hour (gmtime t) < 24" "0 \<le> tm_min (gmtime t)" "tm_min (gmtime t) < 60" "0 \<le> tm_sec (gmtime t)" "tm_sec (gmtime t) < 60"
    "86400 * (year_start y + tm_yday (gmtime t)) + 3600 * tm_hour (gmtime t) + 60 * tm_min (gmtime t) + tm_sec (gmtime t) = t"
proof -
  define d where "d = t div 86400"
  define s where "s = t mod 86400"
  have d: "0 \<le> d" "d \<le> 24855" and s: "0 \<le> s" "s < 86400" and t: "t = 86400 * d + s" using assms(1,2) by (simp_all add: d_def s_def)
  have y: "y = find_year 1970 d" using d(1) by (simp add: y_def gmtime_def d_def Let_def)
  have y0: "year_start 1970 = 0" "year_start 2039 = 25202" by (simp_all add: year_start_def leaps_before_def)
  have b: "year_start y \<le> d" "d < year_start (y + 1)" "1970 \<le> y" using find_year_bounds [of 1970 d] y y0 d(1) by simp_all
  show "1970 \<le> y" by (rule b)
  show "y \<le> 2038" using year_start_mono [of 2039 y] y0 b(1) d(2) by (rule_tac ccontr) simp
  have f: "tm_yday (gmtime t) = d - year_start y" "tm_hour (gmtime t) = s div 3600" "tm_min (gmtime t) = s mod 3600 div 60" "tm_sec (gmtime t) = s mod 60"
    using d(1) y by (simp_all add: gmtime_def d_def s_def Let_def)
  show "0 \<le> tm_yday (gmtime t)" "tm_yday (gmtime t) < (if leap_year y then 366 else 365)" using b year_length [of y] by (simp_all add: f)
  show "0 \<le> tm_hour (gmtime t)" "tm_hour (gmtime t) < 24" "0 \<le> tm_min (gmtime t)" "tm_min (gmtime t) < 60" "0 \<le> tm_sec (gmtime t)" "tm_sec (gmtime t) < 60"
    using s by (simp_all add: f)
  have "s mod 3600 mod 60 = s mod 60" by (rule mod_mod_cancel) simp
  then have "60 * (s mod 3600 div 60) + s mod 60 = s mod 3600" using mult_div_mod_eq [of 60 "s mod 3600"] by simp
  then have "3600 * (s div 3600) + 60 * (s mod 3600 div 60) + s mod 60 = s" using mult_div_mod_eq [of 3600 s] by (simp only: add.assoc)
  then show "86400 * (year_start y + tm_yday (gmtime t)) + 3600 * tm_hour (gmtime t) + 60 * tm_min (gmtime t) + tm_sec (gmtime t) = t"
    unfolding f using t by simp
qed

section \<open>Registers of the card\<close>

text \<open>
  The registers hold binary coded decimals. A read is a 32 bit word at a byte offset; what it shows is up to the card.
\<close>

type_synonym regs = "nat \<Rightarrow> u32"

text \<open>\<^verbatim>\<open>(temp & 0xf000) >> 12\<close> and its like: the nibble at a position, from the right.\<close>

definition nib :: "u32 \<Rightarrow> nat \<Rightarrow> int" where
  "nib w k = uint (drop_bit (4 * k) (w AND push_bit (4 * k) 0xF))"

text \<open>\<^verbatim>\<open>((tsec & 0xf)<<28) + ... + (usec & 0xf)\<close>, from the right.\<close>

definition nibbles :: "int list \<Rightarrow> u32" where
  "nibbles ds = (\<Sum>k \<leftarrow> [0..<length ds]. push_bit (4 * k) (of_int (ds ! k) AND 0xF))"

lemma nib_div: "nib w k = uint w div 16 ^ k mod 16"
proof -
  have "drop_bit (4 * k) (w AND push_bit (4 * k) 0xF) = take_bit 4 (drop_bit (4 * k) w)"
  proof (rule bit_word_eqI)
    fix n
    have f: "(0xF :: u32) = mask 4" by (simp add: mask_eq_exp_minus_1)
    have "bit (0xF :: u32) n \<longleftrightarrow> n < 4" unfolding f by (auto simp: bit_mask_iff)
    then show "bit (drop_bit (4 * k) (w AND push_bit (4 * k) 0xF)) n \<longleftrightarrow> bit (take_bit 4 (drop_bit (4 * k) w)) n"
      using bit_imp_le_length [of w "4 * k + n"] by (auto simp: bit_simps)
  qed
  then have "nib w k = take_bit 4 (drop_bit (4 * k) (uint w))"
    using take_bit_int_eq_self [of "uint w" 32] uint_lt2p [of w] by (simp add: nib_def unsigned_take_bit_eq unsigned_drop_bit_eq)
  then show ?thesis by (simp add: take_bit_eq_mod drop_bit_eq_div power_mult)
qed

lemma nibble_word: "push_bit (4 * k) (of_int d AND (0xF :: u32)) = of_int (16 ^ k * (d mod 16))"
proof -
  have f: "(0xF :: u32) = mask 4" by (simp add: mask_eq_exp_minus_1)
  have "of_int d AND (0xF :: u32) = of_int (d mod 16)"
    unfolding f take_bit_eq_mask [symmetric] take_bit_of_int by (simp add: take_bit_eq_mod)
  then show ?thesis unfolding push_bit_eq_mult power_mult by simp
qed

lemma nibbles_value: "nibbles ds = of_int (\<Sum>k \<leftarrow> [0..<length ds]. 16 ^ k * (ds ! k mod 16))"
proof -
  have "(\<Sum>k \<leftarrow> ks. push_bit (4 * k) (of_int (ds ! k) AND (0xF :: u32))) = of_int (\<Sum>k \<leftarrow> ks. 16 ^ k * (ds ! k mod 16))" for ks
    by (induction ks) (simp_all only: list.map sum_list.Nil sum_list.Cons nibble_word of_int_0 of_int_add)
  then show ?thesis by (simp add: nibbles_def)
qed

lemma uint_small: "0 \<le> x \<Longrightarrow> x < 2 ^ 32 \<Longrightarrow> uint (of_int x :: u32) = x"
  by (simp add: uint_word_of_int)

text \<open>The eight digits of a register.\<close>

lemma nib_nibbles:
  assumes "length ds = 8" "\<forall>d \<in> set ds. 0 \<le> d \<and> d < 10" "k < 8"
  shows "nib (nibbles ds) k = ds ! k"
proof -
  obtain a b c d e f g h where ds: "ds = [a, b, c, d, e, f, g, h]" using assms(1) by (auto simp: length_Suc_conv eval_nat_numeral)
  have r: "0 \<le> x" "x < 10" "x mod 16 = x" if "x \<in> {a, b, c, d, e, f, g, h}" for x using assms(2) that by (auto simp: ds)
  let ?v = "a + 16 * (b + 16 * (c + 16 * (d + 16 * (e + 16 * (f + 16 * (g + 16 * h))))))"
  have v: "nibbles ds = of_int ?v" by (simp add: nibbles_value ds r(3) upt_rec)
  have "0 \<le> ?v" "?v < 2 ^ 32" using r(1,2) [of a] r(1,2) [of b] r(1,2) [of c] r(1,2) [of d] r(1,2) [of e] r(1,2) [of f] r(1,2) [of g] r(1,2) [of h] by simp_all
  then have u: "uint (nibbles ds) = ?v" unfolding v by (rule uint_small)
  have step: "(x + 16 * y) div 16 ^ Suc n mod 16 = y div 16 ^ n mod 16" "(x + 16 * y) mod 16 = x" if "x \<in> {a, b, c, d, e, f, g, h}" for x y n
    using r [OF that] by (simp_all add: zdiv_zmult2_eq)
  have "k \<in> {0, Suc 0, Suc (Suc 0), Suc (Suc (Suc 0)), Suc (Suc (Suc (Suc 0))), Suc (Suc (Suc (Suc (Suc 0)))), Suc (Suc (Suc (Suc (Suc (Suc 0))))), Suc (Suc (Suc (Suc (Suc (Suc (Suc 0))))))}"
    using assms(3) by auto
  then show ?thesis using r(3) [of h] unfolding nib_div u by (auto simp only: ds step insert_iff nth_Cons_0 nth_Cons_Suc simp_thms power_0 div_by_1)
qed

section \<open>Reading the time\<close>

text \<open>
  The day of the year is turned into a month and a day by comparing it with the last day of each month; every year divisible by four
  has 366 days. A day that is in no month leaves \<^verbatim>\<open>month\<close> unassigned, with the value \<open>junk\<close>.
\<close>

fun month_search :: "int \<Rightarrow> int list \<Rightarrow> int \<Rightarrow> int \<Rightarrow> int \<times> int" where
  "month_search junk (a # b # bs) m day = (if day \<le> b then (m, day - a) else month_search junk (b # bs) (m + 1) day)"
| "month_search junk _ m day = (junk, day)"

definition month_day :: "int \<Rightarrow> int \<Rightarrow> int \<Rightarrow> int \<times> int" where
  "month_day junk year day =
    (if year mod 4 = 0 then month_search junk [0, 31, 60, 91, 121, 152, 182, 213, 244, 274, 305, 335, 366] 0 day
     else month_search junk [0, 31, 59, 90, 120, 151, 181, 212, 243, 273, 304, 334, 365] 0 day)"

definition calendar_time :: "int \<Rightarrow> int \<Rightarrow> int \<Rightarrow> int \<Rightarrow> int \<Rightarrow> int \<Rightarrow> int \<Rightarrow> int" where
  "calendar_time junk year leap day hour minute second =
    (case month_day junk leap day of (mon, mday) \<Rightarrow> mktime (year - 1900) mon mday hour minute second)"

text \<open>
  \<open>base\<close> says whether the card is there (\<^verbatim>\<open>BASE1!=NULL\<close>); without it the system clock, which shows \<open>now\<close>, is taken. The result of \<open>get_event_time\<close> is
  what the function returns and what it stores in \<^verbatim>\<open>*sec\<close> and \<^verbatim>\<open>*nsec\<close>, which the caller has set to zero.
\<close>

definition get_event_time :: "int \<Rightarrow> (regs \<Rightarrow> regs) \<Rightarrow> bool \<Rightarrow> int \<times> int \<Rightarrow> regs \<Rightarrow> int \<times> int \<times> int \<times> regs" where
  "get_event_time junk rd base now m =
    (if \<not> base then (fst now, fst now, snd now, m)
     else if rd m 0xfe AND 1 \<noteq> 1 then (-1, 0, 0, m)
     else let a = rd m 0x174; b = rd m 0x178; c = rd m 0x17c;
              m1 = m(0xf8 := rd m 0xf8 OR 1);
              year = 1000 * nib c 3 + 100 * nib c 2 + 10 * nib c 1 + nib c 0;
              day = 100 * nib b 6 + 10 * nib b 5 + nib b 4;
              hour = 10 * nib b 3 + nib b 2;
              minute = 10 * nib b 1 + nib b 0;
              second = 10 * nib a 7 + nib a 6;
              nsecond = 100 * nib c 5 + 1000000 * nib a 3 + 100000 * nib a 2 + 10000 * nib a 1 + 1000 * nib a 0 + (100000000 * nib a 5 + 10000000 * nib a 4);
              t = calendar_time junk year year day hour minute second
          in (t, t, nsecond, m1))"

definition get_software_time :: "int \<Rightarrow> (regs \<Rightarrow> regs) \<Rightarrow> bool \<Rightarrow> int \<times> int \<Rightarrow> regs \<Rightarrow> int \<times> int \<times> regs" where
  "get_software_time junk rd base now m =
    (if \<not> base then (fst now, snd now, m) else
     let m1 = m(0xfc := m 0xfc AND 0xffffff00);
         c = rd m1 0x104; b = rd m1 0x100; a = rd m1 0xfc;
         year = 1000 * nib c 7 + 100 * nib c 6 + 10 * nib c 5 + nib c 4;
         day = 100 * nib c 2 + 10 * nib c 1 + nib c 0;
         hour = 10 * nib b 7 + nib b 6;
         minute = 10 * nib b 5 + nib b 4;
         second = 10 * nib b 3 + nib b 2;
         nsecond = 100 * nib a 7 + 1000000 * nib a 3 + 100000 * nib a 2 + 10000 * nib a 1 + 1000 * nib a 0 + (100000000 * nib b 1 + 10000000 * nib b 0)
     in (calendar_time junk year year day hour minute second, nsecond, m1))"

text \<open>The compare register has no year; the year of the system clock is taken, and its distance from 1900 decides about the leap day.\<close>

definition get_compare_time :: "int \<Rightarrow> (regs \<Rightarrow> regs) \<Rightarrow> bool \<Rightarrow> int \<times> int \<Rightarrow> regs \<Rightarrow> int \<times> int" where
  "get_compare_time junk rd base now m =
    (if \<not> base then now else
     let a = rd m 0x138; b = rd m 0x13c;
         year = tm_year (gmtime (fst now));
         day = 100 * nib b 6 + 10 * nib b 5 + nib b 4;
         hour = 10 * nib b 3 + nib b 2;
         minute = 10 * nib b 1 + nib b 0;
         second = 10 * nib a 7 + nib a 6;
         nsecond = 1000000 * nib a 3 + 100000 * nib a 2 + 10000 * nib a 1 + 1000 * nib a 0 + (100000000 * nib a 5 + 10000000 * nib a 4)
     in (calendar_time junk (year + 1900) year day hour minute second, nsecond))"

definition set_time_compare_register :: "bool \<Rightarrow> int \<Rightarrow> int \<times> int \<Rightarrow> regs \<Rightarrow> regs" where
  "set_time_compare_register base msk nexttime m =
    (if \<not> base then m else case nexttime of (nextsec, nextnsec) \<Rightarrow>
     let lt = gmtime nextsec; yday = tm_yday lt + 1;
         tsec = tm_sec lt div 10; sec = tm_sec lt - tsec * 10;
         tmins = tm_min lt div 10; mins = tm_min lt - tmins * 10;
         thours = tm_hour lt div 10; hours = tm_hour lt - thours * 10;
         hdays = yday div 100; yday1 = yday - hdays * 100;
         tdays = yday1 div 10; days = yday1 - tdays * 10;
         hmsec = nextnsec sdiv 100000000; n1 = nextnsec - hmsec * 100000000;
         tmsec = n1 sdiv 10000000; n2 = n1 - tmsec * 10000000;
         msec = n2 sdiv 1000000; n3 = n2 - msec * 1000000;
         husec = n3 sdiv 100000; n4 = n3 - husec * 100000;
         tusec = n4 sdiv 10000; n5 = n4 - tusec * 10000;
         usec = n5 sdiv 1000
     in m(0x138 := nibbles [usec, tusec, husec, msec, tmsec, hmsec, sec, tsec],
          0x13c := nibbles [mins, tmins, hours, thours, days, tdays, hdays, msk]))"

section \<open>Exactness\<close>

lemma month_search_found: "bs \<noteq> [] \<Longrightarrow> day \<le> last bs \<Longrightarrow> \<exists>k < length bs. month_search junk (a # bs) m day = (m + int k, day - (a # bs) ! k)"
proof (induction bs arbitrary: a m)
  case (Cons b bs)
  show ?case
  proof (cases "day \<le> b")
    case False
    then have "bs \<noteq> []" "day \<le> last bs" using Cons.prems by (auto split: if_splits)
    then obtain k where "k < length bs" "month_search junk (b # bs) (m + 1) day = (m + 1 + int k, day - (b # bs) ! k)" using Cons.IH [of b "m + 1"] by auto
    then show ?thesis using False by (intro exI [of _ "Suc k"]) simp
  qed (use Cons.prems in \<open>intro exI [of _ 0], simp\<close>)
qed simp

lemma month_start_length [simp]: "length (month_start b) = 12"
  by (simp add: month_start_def)

lemma month_day_found:
  assumes "day \<le> (if leap_year y then 366 else 365)" "leap_year y \<longleftrightarrow> l mod 4 = 0"
  obtains k where "k < 12" "month_day junk l day = (int k, day - month_start (leap_year y) ! k)"
proof -
  let ?n = "if leap_year y then 366 else 365 :: int" and ?ms = "month_start (leap_year y)"
  have md: "month_day junk l day = month_search junk (?ms @ [?n]) 0 day" using assms(2) by (simp add: month_day_def month_start_def)
  have "?ms @ [?n] = 0 # tl ?ms @ [?n]" by (simp add: month_start_def)
  then obtain k where k: "k < 12" "month_search junk (?ms @ [?n]) 0 day = (int k, day - (?ms @ [?n]) ! k)"
    using month_search_found [of "tl ?ms @ [?n]" day junk 0 0] assms(1) by auto
  then show thesis using that [of k] md by (simp add: nth_append)
qed

lemma leap_four: "1970 \<le> y \<Longrightarrow> y \<le> 2038 \<Longrightarrow> leap_year y \<longleftrightarrow> y mod 4 = 0"
proof -
  assume "1970 \<le> y" "y \<le> 2038"
  moreover from this have "100 dvd y \<Longrightarrow> y = 2000" by (auto elim!: dvdE)
  ultimately show ?thesis by (auto simp: leap_year_def dvd_eq_mod_eq_0)
qed

lemma calendar_exact:
  assumes "0 \<le> t" "t < 2 ^ 31" "l mod 4 = (tm_year (gmtime t) + 1900) mod 4"
  shows "calendar_time junk (tm_year (gmtime t) + 1900) l (tm_yday (gmtime t) + 1) (tm_hour (gmtime t)) (tm_min (gmtime t)) (tm_sec (gmtime t)) = t"
proof -
  let ?g = "gmtime t" and ?y = "tm_year (gmtime t) + 1900"
  note g = gmtime_range [OF assms(1,2)]
  have leap: "leap_year ?y \<longleftrightarrow> l mod 4 = 0" using leap_four [OF g(1,2)] assms(3) by simp
  obtain k where k: "k < 12" "month_day junk l (tm_yday ?g + 1) = (int k, tm_yday ?g + 1 - month_start (leap_year ?y) ! k)"
    using month_day_found [of "tm_yday ?g + 1" ?y l junk] g(4) leap by (auto split: if_splits)
  have "86400 * (year_start ?y + month_start (leap_year ?y) ! k + (tm_yday ?g + 1 - month_start (leap_year ?y) ! k) - 1) + 3600 * tm_hour ?g + 60 * tm_min ?g + tm_sec ?g = t"
    using g(11) by simp
  moreover have "1900 + (tm_year ?g + 1900 - 1900) + int k div 12 = ?y" "nat (int k mod 12) = k" using k(1) by simp_all
  ultimately show ?thesis using assms(1,2) unfolding calendar_time_def k(2) prod.case mktime_def Let_def by (simp only:) simp
qed

text \<open>The decimal digits the registers show for a time.\<close>

definition dig :: "int \<Rightarrow> nat \<Rightarrow> int" where
  "dig n k = n div 10 ^ k mod 10"

lemma dig_sum: "(\<Sum>i < k. 10 ^ i * dig n i) = n mod 10 ^ k"
proof (induction k)
  case (Suc k)
  have "n mod 10 ^ Suc k = 10 ^ k * (n div 10 ^ k mod 10) + n mod 10 ^ k" unfolding power_Suc2 by (rule zmod_zmult2_eq) simp
  then show ?case using Suc by (simp add: dig_def)
qed simp

lemma dig_range: "0 \<le> dig n k" "dig n k < 10"
  by (simp_all add: dig_def)

lemma digits:
  "0 \<le> n \<Longrightarrow> n < 100 \<Longrightarrow> 10 * dig n 1 + dig n 0 = n"
  "0 \<le> n \<Longrightarrow> n < 1000 \<Longrightarrow> 100 * dig n 2 + 10 * dig n 1 + dig n 0 = n"
  "0 \<le> n \<Longrightarrow> n < 10000 \<Longrightarrow> 1000 * dig n 3 + 100 * dig n 2 + 10 * dig n 1 + dig n 0 = n"
  using dig_sum [of n 2] dig_sum [of n 3] dig_sum [of n 4] by (simp_all add: eval_nat_numeral)

lemma fraction_digits:
  assumes "0 \<le> n" "n < 1000000000"
  shows "1000000 * dig n 6 + 100000 * dig n 5 + 10000 * dig n 4 + 1000 * dig n 3 + (100000000 * dig n 8 + 10000000 * dig n 7) = n - n mod 1000"
    "100 * dig n 2 + 1000000 * dig n 6 + 100000 * dig n 5 + 10000 * dig n 4 + 1000 * dig n 3 + (100000000 * dig n 8 + 10000000 * dig n 7) = n - n mod 100"
proof -
  have "(\<Sum>i < 9. 10 ^ i * dig n i) = n" using dig_sum [of n 9] assms by simp
  then show "1000000 * dig n 6 + 100000 * dig n 5 + 10000 * dig n 4 + 1000 * dig n 3 + (100000000 * dig n 8 + 10000000 * dig n 7) = n - n mod 1000"
    "100 * dig n 2 + 1000000 * dig n 6 + 100000 * dig n 5 + 10000 * dig n 4 + 1000 * dig n 3 + (100000000 * dig n 8 + 10000000 * dig n 7) = n - n mod 100"
    using dig_sum [of n 3] dig_sum [of n 2] by (simp_all add: eval_nat_numeral)
qed

definition event_shows :: "regs \<Rightarrow> int \<Rightarrow> int \<Rightarrow> bool" where
  "event_shows r t ns \<longleftrightarrow> (let g = gmtime t; y = tm_year g + 1900; d = tm_yday g + 1 in
     map (nib (r 0x17c)) [0, 1, 2, 3, 5] = [dig y 0, dig y 1, dig y 2, dig y 3, dig ns 2] \<and>
     map (nib (r 0x178)) [0, 1, 2, 3, 4, 5, 6] = [dig (tm_min g) 0, dig (tm_min g) 1, dig (tm_hour g) 0, dig (tm_hour g) 1, dig d 0, dig d 1, dig d 2] \<and>
     map (nib (r 0x174)) [0, 1, 2, 3, 4, 5, 6, 7] = [dig ns 3, dig ns 4, dig ns 5, dig ns 6, dig ns 7, dig ns 8, dig (tm_sec g) 0, dig (tm_sec g) 1])"

definition clock_shows :: "regs \<Rightarrow> int \<Rightarrow> int \<Rightarrow> bool" where
  "clock_shows r t ns \<longleftrightarrow> (let g = gmtime t; y = tm_year g + 1900; d = tm_yday g + 1 in
     map (nib (r 0x104)) [0, 1, 2, 4, 5, 6, 7] = [dig d 0, dig d 1, dig d 2, dig y 0, dig y 1, dig y 2, dig y 3] \<and>
     map (nib (r 0x100)) [0, 1, 2, 3, 4, 5, 6, 7] = [dig ns 7, dig ns 8, dig (tm_sec g) 0, dig (tm_sec g) 1, dig (tm_min g) 0, dig (tm_min g) 1, dig (tm_hour g) 0, dig (tm_hour g) 1] \<and>
     map (nib (r 0xfc)) [0, 1, 2, 3, 7] = [dig ns 3, dig ns 4, dig ns 5, dig ns 6, dig ns 2])"

lemma gmtime_digits:
  assumes "0 \<le> t" "t < 2 ^ 31"
  defines "g \<equiv> gmtime t" and "y \<equiv> tm_year (gmtime t) + 1900" and "d \<equiv> tm_yday (gmtime t) + 1"
  shows "1000 * dig y 3 + 100 * dig y 2 + 10 * dig y 1 + dig y 0 = y" "100 * dig d 2 + 10 * dig d 1 + dig d 0 = d"
    "10 * dig (tm_hour g) 1 + dig (tm_hour g) 0 = tm_hour g" "10 * dig (tm_min g) 1 + dig (tm_min g) 0 = tm_min g" "10 * dig (tm_sec g) 1 + dig (tm_sec g) 0 = tm_sec g"
  unfolding g_def y_def d_def using gmtime_range [OF assms(1,2)] by (intro digits; auto split: if_splits)+

lemma event_time_exact:
  assumes "0 \<le> t" "t < 2 ^ 31" "0 \<le> ns" "ns < 1000000000" "rd m 0xfe AND 1 = 1" "event_shows (rd m) t ns"
  shows "get_event_time junk rd True now m = (t, t, ns - ns mod 100, m(0xf8 := rd m 0xf8 OR 1))"
  using assms(5,6) calendar_exact [OF assms(1,2) refl, of junk] fraction_digits(2) [OF assms(3,4)] gmtime_digits [OF assms(1,2)]
  by (simp add: get_event_time_def event_shows_def Let_def)

lemma software_time_exact:
  assumes "0 \<le> t" "t < 2 ^ 31" "0 \<le> ns" "ns < 1000000000" "clock_shows (rd (m(0xfc := m 0xfc AND 0xffffff00))) t ns"
  shows "get_software_time junk rd True now m = (t, ns - ns mod 100, m(0xfc := m 0xfc AND 0xffffff00))"
  using assms(5) calendar_exact [OF assms(1,2) refl, of junk] fraction_digits(2) [OF assms(3,4)] gmtime_digits [OF assms(1,2)]
  by (simp add: get_software_time_def clock_shows_def Let_def)

lemma dig_peel:
  assumes "p = 10 ^ Suc k" "q = 10 ^ k"
  shows "n mod p sdiv q = dig n k" "n mod p - dig n k * q = n mod q"
proof -
  have n: "n mod p = dig n k * q + n mod q" unfolding assms power_Suc2 dig_def by (subst zmod_zmult2_eq) simp_all
  then show "n mod p - dig n k * q = n mod q" by simp
  have q: "0 < q" "0 < p" by (simp_all add: assms)
  have "n mod p sdiv q = n mod p div q" using q by (intro sdiv_nonneg) simp_all
  also have "\<dots> = dig n k" unfolding n using q by simp
  finally show "n mod p sdiv q = dig n k" .
qed

text \<open>The compare register holds the digits of the time it is set to.\<close>

lemma set_compare_digits:
  assumes "0 \<le> t" "t < 2 ^ 31" "0 \<le> ns" "ns < 1000000000" "m' = set_time_compare_register True 0 (t, ns) m"
  defines "g \<equiv> gmtime t" and "d \<equiv> tm_yday (gmtime t) + 1"
  shows "m' 0x138 = nibbles [dig ns 3, dig ns 4, dig ns 5, dig ns 6, dig ns 7, dig ns 8, dig (tm_sec g) 0, dig (tm_sec g) 1]"
    "m' 0x13c = nibbles [dig (tm_min g) 0, dig (tm_min g) 1, dig (tm_hour g) 0, dig (tm_hour g) 1, dig d 0, dig d 1, dig d 2, 0]"
proof -
  have two: "n div 10 = dig n 1" "n - n div 10 * 10 = dig n 0" if "0 \<le> n" "n < 100" for n
    using that by (simp_all add: dig_def minus_div_mult_eq_mod)
  have three: "n div 100 = dig n 2" "(n - n div 100 * 100) div 10 = dig n 1" "n - n div 100 * 100 - (n - n div 100 * 100) div 10 * 10 = dig n 0" if "0 \<le> n" "n < 1000" for n
  proof -
    show h: "n div 100 = dig n 2" using that by (simp add: dig_def)
    have r: "n - n div 100 * 100 = 10 * dig n 1 + dig n 0" using digits(2) [OF that] h by simp
    show "(n - n div 100 * 100) div 10 = dig n 1" "n - n div 100 * 100 - (n - n div 100 * 100) div 10 * 10 = dig n 0"
      unfolding r using dig_range [of n 0] by simp_all
  qed
  note gr = gmtime_range [OF assms(1,2)]
  have n9: "ns = ns mod 1000000000" using assms(3,4) by simp
  have peel: "ns mod 1000000000 sdiv 100000000 = dig ns 8" "ns mod 1000000000 - dig ns 8 * 100000000 = ns mod 100000000"
    "ns mod 100000000 sdiv 10000000 = dig ns 7" "ns mod 100000000 - dig ns 7 * 10000000 = ns mod 10000000"
    "ns mod 10000000 sdiv 1000000 = dig ns 6" "ns mod 10000000 - dig ns 6 * 1000000 = ns mod 1000000"
    "ns mod 1000000 sdiv 100000 = dig ns 5" "ns mod 1000000 - dig ns 5 * 100000 = ns mod 100000"
    "ns mod 100000 sdiv 10000 = dig ns 4" "ns mod 100000 - dig ns 4 * 10000 = ns mod 10000" "ns mod 10000 sdiv 1000 = dig ns 3"
    by (rule dig_peel; simp)+
  have chain: "ns sdiv 100000000 = dig ns 8" "ns - dig ns 8 * 100000000 = ns mod 100000000" using peel(1,2) by (simp_all only: n9 [symmetric])
  have d: "0 \<le> d" "d < 1000" using gr(3,4) by (auto simp: d_def split: if_splits)
  have m': "m' 0x138 = (let lt = g in nibbles [ns mod 10000 sdiv 1000, dig ns 4, dig ns 5, dig ns 6, dig ns 7, dig ns 8, tm_sec lt - tm_sec lt div 10 * 10, tm_sec lt div 10])"
    "m' 0x13c = (let lt = g in nibbles [tm_min lt - tm_min lt div 10 * 10, tm_min lt div 10, tm_hour lt - tm_hour lt div 10 * 10, tm_hour lt div 10,
       d - d div 100 * 100 - (d - d div 100 * 100) div 10 * 10, (d - d div 100 * 100) div 10, d div 100, 0])"
    unfolding assms(5) set_time_compare_register_def prod.case Let_def chain peel not_True_eq_False if_False by (simp_all add: g_def d_def)
  show "m' 0x138 = nibbles [dig ns 3, dig ns 4, dig ns 5, dig ns 6, dig ns 7, dig ns 8, dig (tm_sec g) 0, dig (tm_sec g) 1]"
    unfolding m'(1) Let_def peel using two [of "tm_sec g"] gr(9,10) by (simp add: g_def)
  show "m' 0x13c = nibbles [dig (tm_min g) 0, dig (tm_min g) 1, dig (tm_hour g) 0, dig (tm_hour g) 1, dig d 0, dig d 1, dig d 2, 0]"
    unfolding m'(2) Let_def using two [of "tm_min g"] two [of "tm_hour g"] three [OF d] gr(5-8) by (simp add: g_def)
qed

lemma compare_time_exact:
  assumes "0 \<le> t" "t < 2 ^ 31" "0 \<le> ns" "ns < 1000000000" "tm_year (gmtime (fst now)) = tm_year (gmtime t)"
    and "m' = set_time_compare_register True 0 (t, ns) m" "rd m' 0x138 = m' 0x138" "rd m' 0x13c = m' 0x13c"
  shows "get_compare_time junk rd True now m' = (t, ns - ns mod 1000)"
proof -
  note r = set_compare_digits [OF assms(1-4,6)] and z = dig_range
  have a: "nib (rd m' 0x138) k = [dig ns 3, dig ns 4, dig ns 5, dig ns 6, dig ns 7, dig ns 8, dig (tm_sec (gmtime t)) 0, dig (tm_sec (gmtime t)) 1] ! k" if "k < 8" for k
    unfolding assms(7) r(1) by (rule nib_nibbles [OF _ _ that]) (simp_all add: z)
  have b: "nib (rd m' 0x13c) k = [dig (tm_min (gmtime t)) 0, dig (tm_min (gmtime t)) 1, dig (tm_hour (gmtime t)) 0, dig (tm_hour (gmtime t)) 1,
      dig (tm_yday (gmtime t) + 1) 0, dig (tm_yday (gmtime t) + 1) 1, dig (tm_yday (gmtime t) + 1) 2, 0] ! k" if "k < 8" for k
    unfolding assms(8) r(2) by (rule nib_nibbles [OF _ _ that]) (simp_all add: z)
  have "tm_year (gmtime t) mod 4 = (tm_year (gmtime t) + 1900) mod 4" by presburger
  then show ?thesis
    using calendar_exact [OF assms(1,2), of "tm_year (gmtime t)" junk] fraction_digits(1) [OF assms(3,4)] gmtime_digits [OF assms(1,2)]
    by (simp add: get_compare_time_def a b assms(5) Let_def)
qed

end
