(* ===== verification/Gps_Driver.thy ===== *)
theory Gps_Driver
  imports Gps_Time Startup
begin

text \<open>
  The driver of the GPS card, \<^verbatim>\<open>gps_tcp_driver\<close>: the status of the card and the correction of the system clock (\<^verbatim>\<open>_refresh_state.c\<close>), the messages
  and the start (\<^verbatim>\<open>main.c\<close>), and the driver as a process in step with the server. The interrupt handler and the thread that monitors
  the compare register are not started by \<^verbatim>\<open>main\<close>.
\<close>

section \<open>Status of the card\<close>

definition get_hdw_stat :: "bool \<Rightarrow> regs \<Rightarrow> int" where
  "get_hdw_stat base r = (if base then uint (r 0x11c AND 0xF) else 0)"

definition get_lock_stat :: "bool \<Rightarrow> regs \<Rightarrow> int" where
  "get_lock_stat base r = (if base then uint (drop_bit 12 (r 0x104 AND 0x7000)) else 0)"

definition get_ant_stat :: "bool \<Rightarrow> regs \<Rightarrow> int" where
  "get_ant_stat base r = (if base then uint (drop_bit 20 (r 0xfc AND 0x300000)) else 0)"

definition get_sat_stat :: "bool \<Rightarrow> regs \<Rightarrow> int list \<times> real list \<Rightarrow> int list \<times> real list" where
  "get_sat_stat base r old =
    (if base then
       (map (\<lambda>i. 10 * nib (r (0x198 + 4 * i)) 1 + nib (r (0x198 + 4 * i)) 0) [0..<6],
        map (\<lambda>i. let w = r (0x198 + 4 * i) in 10 * real_of_int (nib w 7) + real_of_int (nib w 6) + 0.1 * real_of_int (nib w 5) + 0.01 * real_of_int (nib w 4)) [0..<6])
     else old)"

definition degrees :: "int \<Rightarrow> int \<Rightarrow> int \<Rightarrow> int \<Rightarrow> real" where
  "degrees deg minute sec tenthsec = real_of_int deg + real_of_int minute / 60 + (real_of_int sec + 0.1 * real_of_int tenthsec) / 3600"

definition get_lat :: "bool \<Rightarrow> regs \<Rightarrow> real" where
  "get_lat base r =
    (if base then
       let a = r 0x108; b = r 0x10c;
           degf = degrees (100 * nib a 2 + 10 * nib a 1 + nib a 0) (10 * nib a 5 + nib a 4) (10 * nib b 3 + nib b 2) (nib b 0)
       in if drop_bit 24 (a AND 0xff000000) = 0x53 then - degf else degf
     else 0)"

definition get_lon :: "bool \<Rightarrow> regs \<Rightarrow> real" where
  "get_lon base r =
    (if base then
       let a = r 0x10c; b = r 0x110;
           degf = degrees (100 * nib a 6 + 10 * nib a 5 + nib a 4) (10 * nib b 1 + nib b 0) (10 * nib b 7 + nib b 6) (nib b 4)
       in if drop_bit 8 (b AND 0xff00) = 0x45 then 360 - degf else degf
     else 0)"

definition get_alt :: "bool \<Rightarrow> regs \<Rightarrow> real" where
  "get_alt base r =
    (if base then
       let a = r 0x114;
           altf = real_of_int (10000 * nib a 1 + 1000 * nib a 0 + nib a 5 + 10 * nib a 6 + 100 * nib a 7) + 0.1 * real_of_int (nib a 4)
       in if drop_bit 8 (a AND 0xff00) = 0x2d then - altf else altf
     else 0)"

section \<open>State of the driver\<close>

text \<open>\<open>gp_clock_sets\<close> records the calls of \<^verbatim>\<open>clock_settime\<close>.\<close>

record gps =
  gp_configured :: bool
  gp_locked :: int
  gp_stat :: GPSStatus
  gp_regs :: regs
  gp_event :: "int \<times> int"
  gp_eventupdate :: int
  gp_clock_sets :: "(int \<times> int) list"

text \<open>
  What the hardware and the system do at a moment: what the registers show, two readings of the system clock, and the contents of two
  variables that are read before they are assigned, \<^verbatim>\<open>oldtimediff\<close> and \<^verbatim>\<open>month\<close>.
\<close>

record gps_env =
  ge_rd :: "regs \<Rightarrow> regs"
  ge_now :: "int \<times> int"
  ge_now2 :: "int \<times> int"
  ge_old :: real
  ge_junk :: int

definition MAX_ERR :: real where "MAX_ERR = 0.01"
definition MAX_SECDIFF :: real where "MAX_SECDIFF = 1000"

definition time_diff :: "int \<times> int \<Rightarrow> int \<times> int \<Rightarrow> real" where
  "time_diff a b = real_of_int (fst a - fst b) + real_of_int (snd a - snd b) / 1000000000"

definition mean :: "real \<Rightarrow> int \<Rightarrow> real \<Rightarrow> real" where
  "mean m cnt x = (m * real_of_int cnt + x) / (real_of_int cnt + 1)"

definition read_state :: "gps_env \<Rightarrow> gps \<Rightarrow> GPSStatus" where
  "read_state e t =
    (let st = gp_stat t; r = ge_rd e (gp_regs t); base = gp_configured t; cnt = gs_poscnt st;
         lock = get_lock_stat base r; (sv, signal) = get_sat_stat base r (gs_sv st, gs_signal st)
     in st\<lparr>gs_hardware := get_hdw_stat base r, gs_antenna := get_ant_stat base r, gs_lock := lock,
          gs_gps_lock := (if lock AND 1 = 1 then 1 else 0), gs_reference_lock := (if lock AND 2 = 2 then 1 else 0),
          gs_phase_lock := (if lock AND 4 = 4 then 1 else 0), gs_sv := sv, gs_signal := signal,
          gs_lat := get_lat base r, gs_mlat := mean (gs_mlat st) cnt (get_lat base r),
          gs_lon := get_lon base r, gs_mlon := mean (gs_mlon st) cnt (get_lon base r),
          gs_alt := get_alt base r, gs_malt := mean (gs_malt st) cnt (get_alt base r)\<rparr>)"

definition end_state :: "gps \<Rightarrow> gps" where
  "end_state t =
    (let st = (gp_stat t)\<lparr>gs_timecompareupdate := 0\<rparr> in
     if gp_eventupdate t \<noteq> 0
     then t\<lparr>gp_stat := st\<lparr>gs_lasttriggersecond := fst (gp_event t), gs_lasttriggernsecond := snd (gp_event t)\<rparr>, gp_eventupdate := 0\<rparr>
     else t\<lparr>gp_stat := st\<rparr>)"

definition get_state :: "gps_env \<Rightarrow> gps \<Rightarrow> gps" where
  "get_state e t =
    (let (gs, gn, m1) = get_software_time (ge_junk e) (ge_rd e) (gp_configured t) (ge_now e) (gp_regs t);
         diff = time_diff (ge_now e) (gs, gn);
         drift = 1000000 * (diff - ge_old e);
         st0 = read_state e t;
         st = st0\<lparr>gs_gpssecond := gs, gs_gpsnsecond := gn, gs_syssecond := fst (ge_now e), gs_sysnsecond := snd (ge_now e),
           gs_drift := drift, gs_mdrift := mean (gs_mdrift st0) (gs_poscnt st0) drift, gs_poscnt := gs_poscnt st0 + 1\<rparr>
     in if \<bar>diff\<bar> > MAX_ERR \<and> gs_reference_lock st \<noteq> 0 \<and> gs_gps_lock st \<noteq> 0 \<and> gs_phase_lock st \<noteq> 0
        then let sets = (if \<bar>diff\<bar> < MAX_SECDIFF then gp_clock_sets t @ [(gs, gn)] else gp_clock_sets t);
                 (gs2, gn2, m2) = get_software_time (ge_junk e) (ge_rd e) (gp_configured t) (ge_now2 e) m1
             in end_state (t\<lparr>gp_clock_sets := sets, gp_regs := m2,
                  gp_stat := st\<lparr>gs_lastsetsec := gs, gs_lastsetnsec := gn, gs_gpssecond := gs2, gs_gpsnsecond := gn2,
                    gs_syssecond := fst (ge_now2 e), gs_sysnsecond := snd (ge_now2 e)\<rparr>\<rparr>)
        else end_state (t\<lparr>gp_regs := m1, gp_stat := st\<rparr>))"

text \<open>The refresh thread looks at the card once a second.\<close>

definition refresh_state :: "gps_env \<Rightarrow> gps \<Rightarrow> gps" where
  "refresh_state e t = (if gp_configured t then get_state e t else t)"

section \<open>Messages\<close>

abbreviation GPS_GET_SOFT_TIME_code :: char where "GPS_GET_SOFT_TIME_code \<equiv> CHR ''t''"
abbreviation GPS_GET_HDW_STATUS_code :: char where "GPS_GET_HDW_STATUS_code \<equiv> CHR ''S''"
abbreviation GPS_TRIGGER_NOW_code :: char where "GPS_TRIGGER_NOW_code \<equiv> CHR ''n''"

type_synonym gps_reply = "(gps \<times> wire list \<times> wire list) option"

definition gps_soft_msg :: "gps_env \<Rightarrow> DriverMsg \<Rightarrow> wire list \<Rightarrow> gps \<Rightarrow> gps_reply" where
  "gps_soft_msg e msg ws t =
    (if gp_configured t \<and> gp_locked t \<noteq> 0
     then case get_software_time (ge_junk e) (ge_rd e) True (ge_now e) (gp_regs t) of
       (sec, nsec, m) \<Rightarrow> Some (t\<lparr>gp_regs := m\<rparr>, ws, [W_int sec, W_int nsec, W_DriverMsg (msg\<lparr>dm_status := sec\<rparr>)])
     else Some (t, ws, [W_int 0, W_int 0, W_DriverMsg (msg\<lparr>dm_status := -1\<rparr>)]))"

definition gps_event_msg :: "gps_env \<Rightarrow> DriverMsg \<Rightarrow> wire list \<Rightarrow> gps \<Rightarrow> gps_reply" where
  "gps_event_msg e msg ws t =
    (if gp_configured t \<and> gp_locked t \<noteq> 0
     then case get_event_time (ge_junk e) (ge_rd e) (gp_configured t) (ge_now e) (gp_regs t) of
       (st, sec, nsec, m) \<Rightarrow> Some (t\<lparr>gp_regs := m\<rparr>, ws, [W_int sec, W_int nsec, W_DriverMsg (msg\<lparr>dm_status := st\<rparr>)])
     else case get_software_time (ge_junk e) (ge_rd e) (gp_configured t) (ge_now e) (gp_regs t) of
       (sec, nsec, m) \<Rightarrow> Some (t\<lparr>gp_regs := m\<rparr>, ws, [W_int sec, W_int nsec, W_DriverMsg (msg\<lparr>dm_status := sec\<rparr>)]))"

definition gps_rate_msg :: "DriverMsg \<Rightarrow> wire list \<Rightarrow> gps \<Rightarrow> gps_reply" where
  "gps_rate_msg msg ws t = do {
     (rate, ws) \<leftarrow> rx_int ws;
     let t1 = t\<lparr>gp_stat := (gp_stat t)\<lparr>gs_ratesynthrate := rate\<rparr>\<rparr>;
     Some (if gp_configured t \<and> gp_locked t \<noteq> 0 then t1\<lparr>gp_regs := (gp_regs t)(0x128 := of_int rate)\<rparr> else t1, ws, [W_DriverMsg msg])
   }"

definition gps_status_msg :: "gps_env \<Rightarrow> DriverMsg \<Rightarrow> wire list \<Rightarrow> gps \<Rightarrow> gps_reply" where
  "gps_status_msg e msg ws t = (let t1 = get_state e t in Some (t1, ws, [W_GPSStatus (gp_stat t1), W_DriverMsg msg]))"

definition gps_msg :: "gps_env \<Rightarrow> wire list \<Rightarrow> gps \<Rightarrow> gps_reply" where
  "gps_msg e ws t = do {
     (msg, ws) \<leftarrow> rx_msg ws;
     let t = t\<lparr>gp_locked := gp_locked t OR gs_gps_lock (gp_stat t)\<rparr>;
     (if dm_type msg = GPS_GET_SOFT_TIME_code then gps_soft_msg e msg ws t
      else if dm_type msg = GET_EVENT_TIME_code then gps_event_msg e msg ws t
      else if dm_type msg = GPS_SET_TRIGGER_RATE_code then gps_rate_msg msg ws t
      else if dm_type msg = GPS_GET_HDW_STATUS_code then gps_status_msg e msg ws t
      else if dm_type msg = GPS_TRIGGER_NOW_code then Some (t, ws, [W_int 0])
      else Some (t, ws, []))
   }"

section \<open>Start\<close>

text \<open>
  \<^verbatim>\<open>displaystat\<close> is static memory. The seconds of the first compare time are those of an uninitialised variable. Before the first
  connection is accepted the status is read once, and the driver does not wait for the lock.
\<close>

definition zero_status :: GPSStatus where
  "zero_status = \<lparr>gs_hardware = 0, gs_antenna = 0, gs_lock = 0, gs_gps_lock = 0, gs_phase_lock = 0, gs_reference_lock = 0, gs_sv = replicate 6 0, gs_signal = replicate 6 0,
     gs_lat = 0, gs_lon = 0, gs_alt = 0, gs_mlat = 0, gs_mlon = 0, gs_malt = 0, gs_poscnt = 0, gs_gpssecond = 0, gs_gpsnsecond = 0, gs_syssecond = 0, gs_sysnsecond = 0,
     gs_lastsetsec = 0, gs_lastsetnsec = 0, gs_nextcomparesec = 0, gs_nextcomparensec = 0, gs_drift = 0, gs_mdrift = 0, gs_tcpupdate = 0, gs_tcpconnected = 0,
     gs_timecompareupdate = 0, gs_timecompareupdateerror = 0, gs_lasttriggersecond = 0, gs_lasttriggernsecond = 0, gs_lasttcpmsg = 0, gs_intervalmode = 0,
     gs_scheduledintervalmode = 0, gs_oneshot = 0, gs_settimecomparetime = 0, gs_triggermode = 0, gs_ratesynthrate = 0\<rparr>"

definition set_time_compare :: "int \<Rightarrow> int \<times> int \<Rightarrow> gps \<Rightarrow> gps" where
  "set_time_compare msk nexttime t = t\<lparr>gp_regs := set_time_compare_register (gp_configured t) msk nexttime (gp_regs t),
     gp_stat := (gp_stat t)\<lparr>gs_nextcomparesec := fst nexttime, gs_nextcomparensec := snd nexttime\<rparr>\<rparr>"

definition gps_card_init :: "(regs \<Rightarrow> regs) \<Rightarrow> int \<Rightarrow> gps \<Rightarrow> gps" where
  "gps_card_init rd junk t =
    (let t1 = set_time_compare 0 (junk, 0) (t\<lparr>gp_regs := (gp_regs t)(0x118 := 0x90000021)\<rparr>);
         m = gp_regs t1;
         m1 = m(0xf8 := (m 0xf8 AND 0xffffff00) OR ((rd m 0xf8 AND 0xff) OR 0x02))
     in t1\<lparr>gp_regs := m1(0x128 := 10, 0x12c := 0x0200ff00)\<rparr>)"

definition gps_start :: "bool \<Rightarrow> gps_env \<Rightarrow> int \<Rightarrow> regs \<Rightarrow> gps" where
  "gps_start configured e junk m =
    (let t = \<lparr>gp_configured = configured, gp_locked = 0, gp_stat = zero_status, gp_regs = m, gp_event = (0, 0), gp_eventupdate = 0, gp_clock_sets = []\<rparr> in
     if configured then (get_state e (gps_card_init (ge_rd e) junk t))\<lparr>gp_locked := 1\<rparr> else t)"

definition gps_started :: "gps \<Rightarrow> bool" where
  "gps_started t \<longleftrightarrow> (\<exists>c e junk m. t = gps_start c e junk m)"

abbreviation gps_reaches :: "gps \<Rightarrow> bool" where
  "gps_reaches \<equiv> driver_reaches gps_msg refresh_state gps_started"

section \<open>The driver process\<close>

definition gps_ok :: "gps \<Rightarrow> bool" where
  "gps_ok t \<longleftrightarrow> (gp_configured t \<longrightarrow> gp_locked t \<noteq> 0)"

lemma end_state_frame: "gp_configured (end_state t) = gp_configured t" "gp_locked (end_state t) = gp_locked t" "gp_clock_sets (end_state t) = gp_clock_sets t"
  by (simp_all add: end_state_def Let_def)

lemma get_state_frame: "gp_configured (get_state e t) = gp_configured t" "gp_locked (get_state e t) = gp_locked t"
  by (simp_all add: get_state_def Let_def end_state_frame split: prod.splits)

lemma or_nonzero: "(a :: int) \<noteq> 0 \<Longrightarrow> a OR b \<noteq> 0"
  by (simp add: or_eq_0_iff)

lemma gps_msg_keeps:
  assumes "gps_ok t" "gps_msg e ws t = Some (t', rest, out)"
  shows "gps_ok t'" "gp_configured t' = gp_configured t"
proof -
  let ?t = "t\<lparr>gp_locked := gp_locked t OR gs_gps_lock (gp_stat t)\<rparr>"
  have t: "gps_ok ?t" using assms(1) by (auto simp: gps_ok_def or_nonzero)
  have "gp_configured t' = gp_configured ?t \<and> gp_locked t' = gp_locked ?t"
    using assms(2) unfolding gps_msg_def Let_def
    by (auto simp: gps_soft_msg_def gps_event_msg_def gps_rate_msg_def gps_status_msg_def Let_def bind_eq_Some_conv get_state_frame split: if_splits prod.splits)
  then show "gps_ok t'" "gp_configured t' = gp_configured t" using t by (simp_all add: gps_ok_def)
qed

lemma gps_start_ok: "gps_started t \<Longrightarrow> gps_ok t"
  by (auto simp: gps_started_def gps_start_def gps_ok_def Let_def split: if_splits)

definition rate_ok :: "wire list \<Rightarrow> bool" where
  "rate_ok ws \<longleftrightarrow> (\<exists>st n. ws = [drv_msg GPS_SET_TRIGGER_RATE_code st, W_int n])"

interpretation gps_link: driver_link gps_msg refresh_state gps_started gps_ok "\<lambda>_ ws _. rate_ok ws"
proof
  show "gps_started t \<Longrightarrow> gps_ok t" for t by (rule gps_start_ok)
  show "gps_ok t \<Longrightarrow> gps_msg e ws t = Some (t', rest, out) \<Longrightarrow> gps_ok t'" for t e ws t' rest out by (rule gps_msg_keeps)
  show "gps_ok t \<Longrightarrow> gps_ok (refresh_state e t)" for t e by (auto simp: refresh_state_def gps_ok_def get_state_frame)
  show "\<exists>t' m. gps_msg e ws t = Some (t', [], [W_DriverMsg m])" if "rate_ok ws" for t e ws
    using that by (auto simp: rate_ok_def gps_msg_def gps_rate_msg_def Let_def)
qed

lemma event_msg_answers: "\<exists>t' sec nsec m. gps_msg e [drv_msg GET_EVENT_TIME_code st] t = Some (t', [], [W_int sec, W_int nsec, W_DriverMsg m])"
  by (auto simp: gps_msg_def gps_event_msg_def Let_def split: prod.splits)

lemma event_msg_exact:
  assumes "gps_ok t" "gp_configured t" "0 \<le> s" "s < 2 ^ 31" "0 \<le> ns" "ns < 1000000000" "ge_rd e (gp_regs t) 0xfe AND 1 = 1" "event_shows (ge_rd e (gp_regs t)) s ns"
  shows "\<exists>t'. gps_msg e [drv_msg GET_EVENT_TIME_code st] t = Some (t', [], [W_int s, W_int (ns - ns mod 100), drv_msg GET_EVENT_TIME_code s]) \<and>
    gp_regs t' = (gp_regs t)(0xf8 := ge_rd e (gp_regs t) 0xf8 OR 1)"
proof -
  have "gp_locked t OR gs_gps_lock (gp_stat t) \<noteq> 0" using assms(1,2) by (simp add: gps_ok_def or_nonzero)
  then show ?thesis using event_time_exact [of s ns "ge_rd e" "gp_regs t" "ge_junk e" "ge_now e", OF assms(3-8)] assms(2)
    by (simp add: gps_msg_def gps_event_msg_def Let_def)
qed

lemma gps_time_in_step:
  assumes "gps_reaches t"
  shows "\<exists>s' t' x. in_step GPS (gps_msg e) (\<lambda>s. map_option snd (gps_event_time s)) s t s' t' \<and> gps_reaches t'"
proof -
  obtain t' sec nsec m where h: "gps_msg e [drv_msg GET_EVENT_TIME_code 1] t = Some (t', [], [W_int sec, W_int nsec, W_DriverMsg m])" using event_msg_answers by blast
  have "gps_event_time (deliver GPS [W_int sec, W_int nsec, W_DriverMsg m] s) = Some ((sec, nsec), s\<lparr>sv_out := sv_out s @ [(Driver GPS, drv_msg GET_EVENT_TIME_code 1)]\<rparr>)"
    by (simp add: gps_event_time_def recv_from_def send_to_def deliver_def)
  then show ?thesis using h driver_reaches.handled [OF assms h] unfolding in_step_def by force
qed

lemma lock_bits:
  "gs_reference_lock (read_state e t) \<noteq> 0 \<and> gs_gps_lock (read_state e t) \<noteq> 0 \<and> gs_phase_lock (read_state e t) \<noteq> 0 \<longleftrightarrow>
   get_lock_stat (gp_configured t) (ge_rd e (gp_regs t)) = 7"
proof -
  define lock where "lock = get_lock_stat (gp_configured t) (ge_rd e (gp_regs t))"
  have "uint (w AND 7) \<le> 7" for w :: u32 using word_and_le1 [of w 7] by (simp add: word_le_def)
  then have "0 \<le> lock" "lock \<le> 7" by (auto simp: lock_def get_lock_stat_def)
  then have "lock \<in> {0, 1, 2, 3, 4, 5, 6, 7}" by auto
  then have "lock AND 1 = 1 \<and> lock AND 2 = 2 \<and> lock AND 4 = 4 \<longleftrightarrow> lock = 7" by auto
  then show ?thesis by (auto simp: read_state_def Let_def lock_def split: prod.splits)
qed

lemma get_state_clock:
  assumes "get_software_time (ge_junk e) (ge_rd e) (gp_configured t) (ge_now e) (gp_regs t) = (gs, gn, m)"
  shows "gp_clock_sets (get_state e t) = gp_clock_sets t @
    (if get_lock_stat (gp_configured t) (ge_rd e (gp_regs t)) = 7 \<and> MAX_ERR < \<bar>time_diff (ge_now e) (gs, gn)\<bar> \<and> \<bar>time_diff (ge_now e) (gs, gn)\<bar> < MAX_SECDIFF
     then [(gs, gn)] else [])"
  using lock_bits [of e t] unfolding get_state_def assms by (auto simp: Let_def end_state_frame split: prod.splits)

section \<open>Properties\<close>

text \<open>
  The GPS driver stays in step with the server. In every state the driver can reach, it consumes the server's request for the trigger rate and for
  the time of the event, and the server consumes exactly its answer.
\<close>

lemma gps_stays_in_step:
  assumes "gps_reaches t"
  shows "stays_in_step GPS (gps_msg e) gps_reaches (request GPS [drv_msg GPS_SET_TRIGGER_RATE_code 1, W_int n]) s t \<and>
    stays_in_step GPS (gps_msg e) gps_reaches (\<lambda>s. map_option snd (gps_event_time s)) s t"
proof
  show "stays_in_step GPS (gps_msg e) gps_reaches (request GPS [drv_msg GPS_SET_TRIGGER_RATE_code 1, W_int n]) s t"
    using stays_request [OF gps_link.driver_link_axioms assms] by (auto simp: rate_ok_def)
  show "stays_in_step GPS (gps_msg e) gps_reaches (\<lambda>s. map_option snd (gps_event_time s)) s t"
    using gps_time_in_step [OF assms] by (auto simp: stays_in_step_def)
qed

text \<open>
  C11: event times are exact. Let the card show an event at a time from 1970 to 2038 in decimal digits. A driver that has found the card answers a request
  for the event time with that time, down to a tenth of a microsecond, and clears the flag for the next event.
\<close>

theorem gps_event_time_exact:
  assumes "gps_reaches t" "gp_configured t" "0 \<le> s" "s < 2 ^ 31" "0 \<le> ns" "ns < 1000000000" "ge_rd e (gp_regs t) 0xfe AND 1 = 1" "event_shows (ge_rd e (gp_regs t)) s ns"
  shows "\<exists>t'. gps_msg e [drv_msg GET_EVENT_TIME_code st] t = Some (t', [], [W_int s, W_int (ns - ns mod 100), drv_msg GET_EVENT_TIME_code s]) \<and>
    gp_regs t' = (gp_regs t)(0xf8 := ge_rd e (gp_regs t) 0xf8 OR 1)"
  by (rule event_msg_exact [OF gps_link.reaches_invar [OF assms(1)] assms(2-8)])

text \<open>
  The time compare register reads back. A time from 1970 to 2038 that is written to the register is read from it, down to a microsecond, while the
  system clock shows the same year.
\<close>

lemma compare_time_roundtrip:
  assumes "gp_configured t" "0 \<le> s" "s < 2 ^ 31" "0 \<le> ns" "ns < 1000000000" "tm_year (gmtime (fst now)) = tm_year (gmtime s)"
    and "\<forall>m. rd m 0x138 = m 0x138 \<and> rd m 0x13c = m 0x13c"
  shows "get_compare_time junk rd True now (gp_regs (set_time_compare 0 (s, ns) t)) = (s, ns - ns mod 1000)"
  using compare_time_exact [OF assms(2-6) refl] assms(1,7) by (simp add: set_time_compare_def)

text \<open>
  C18: the system clock follows GPS time. When the registers show a time, looking at the card sets the clock to it exactly when the GPS, reference and
  phase locks are all on and the clock is off by more than 10 milliseconds and less than 1000 seconds; otherwise the clock is left alone.
\<close>

theorem clock_follows_gps:
  assumes "gp_configured t" "0 \<le> s" "s < 2 ^ 31" "0 \<le> ns" "ns < 1000000000" "ns mod 100 = 0"
    and "clock_shows (ge_rd e ((gp_regs t)(0xfc := gp_regs t 0xfc AND 0xffffff00))) s ns"
  shows "gp_clock_sets (refresh_state e t) = gp_clock_sets t @
    (if get_lock_stat True (ge_rd e (gp_regs t)) = 7 \<and> 0.01 < \<bar>time_diff (ge_now e) (s, ns)\<bar> \<and> \<bar>time_diff (ge_now e) (s, ns)\<bar> < 1000
     then [(s, ns)] else [])"
  using get_state_clock [of e t s ns] software_time_exact [where rd = "ge_rd e" and m = "gp_regs t" and junk = "ge_junk e" and now = "ge_now e", OF assms(2-5,7)] assms(1,6)
  by (simp add: refresh_state_def MAX_ERR_def MAX_SECDIFF_def)

section \<open>Witnesses\<close>

text \<open>A card that shows the 29th of February 2008, 12:34:56.1234567, as the time and as the time of an event, with all locks on.\<close>

definition leap_regs :: regs where
  "leap_regs = (\<lambda>_. 0)(0xfe := 1, 0x17c := 0x702008, 0x178 := 0x0601234, 0x174 := 0x56123456, 0x104 := 0x20087060, 0x100 := 0x12345612, 0xfc := 0x70003456)"

definition leap_env :: gps_env where
  "leap_env = \<lparr>ge_rd = (\<lambda>_. leap_regs), ge_now = (1204288490, 0), ge_now2 = (0, 0), ge_old = 0, ge_junk = 0\<rparr>"

lemma leap_shows: "event_shows leap_regs 1204288496 123456700" "clock_shows leap_regs 1204288496 123456700" "leap_regs 0xfe AND 1 = 1" "get_lock_stat True leap_regs = 7"
  by code_simp+

definition gps_new :: gps where
  "gps_new = gps_start True leap_env 0 (\<lambda>_. 0)"

lemma gps_new_reaches: "gps_reaches gps_new" "gp_configured gps_new"
proof -
  show "gps_reaches gps_new" by (rule driver_reaches.started) (auto simp: gps_started_def gps_new_def)
  show "gp_configured gps_new" by (simp add: gps_new_def gps_start_def Let_def get_state_frame gps_card_init_def set_time_compare_def)
qed

theorem gps_stays_in_step_witness:
  "stays_in_step GPS (gps_msg leap_env) gps_reaches (\<lambda>s. map_option snd (gps_event_time s)) linked gps_new"
  using gps_stays_in_step [OF gps_new_reaches(1)] by blast

theorem gps_event_time_exact_witness:
  "\<exists>t'. gps_msg leap_env [drv_msg GET_EVENT_TIME_code 1] gps_new = Some (t', [], [W_int 1204288496, W_int 123456700, drv_msg GET_EVENT_TIME_code 1204288496])"
proof -
  have "ge_rd leap_env (gp_regs gps_new) = leap_regs" by (simp add: leap_env_def)
  then show ?thesis using gps_event_time_exact [OF gps_new_reaches, of 1204288496 123456700 leap_env 1] leap_shows by auto
qed

theorem compare_time_roundtrip_witness:
  "get_compare_time 0 (\<lambda>m. m) True (1204288490, 0) (gp_regs (set_time_compare 0 (1204288496, 123456789) gps_new)) = (1204288496, 123456000)"
proof -
  have "tm_year (gmtime (fst (1204288490, 0 :: int))) = tm_year (gmtime 1204288496)" by code_simp
  then show ?thesis using compare_time_roundtrip [OF gps_new_reaches(2), of 1204288496 123456789 "(1204288490, 0)" "\<lambda>m. m" 0] by simp
qed

theorem clock_follows_gps_witness:
  "gp_clock_sets (refresh_state leap_env gps_new) = gp_clock_sets gps_new @ [(1204288496, 123456700)]"
proof -
  have "time_diff (1204288490, 0) (1204288496, 123456700) = -6 - 1234567 / 10000000" by (simp add: time_diff_def)
  then show ?thesis
    using clock_follows_gps [OF gps_new_reaches(2), of 1204288496 123456700 leap_env] leap_shows by (simp add: leap_env_def)
qed

end
