(* ===== verification/Receiver_Driver.thy ===== *)
theory Receiver_Driver
  imports Gps_Driver
begin

text \<open>
  The receiver driver (\<^verbatim>\<open>gc314_tcp_driver/main.c\<close> and the \<^verbatim>\<open>gc314*.c\<close> functions beside it), as it is built for the digital receivers of a radar without
  imaging (\<^verbatim>\<open>IMAGING\<close> is 0, \<^verbatim>\<open>__QNX__\<close> is defined). Each card has the receivers of one radar; every \<^verbatim>\<open>gc314\<close> function is one command to a card. The driver keeps the
  programs that are ready, programs the cards before a trigger, stops them after it, tells the server where the samples are, and measures the spectrum
  of a clear frequency search. This theory holds the model, the commands a message gives to the cards, and the invariant of the process.
\<close>

section \<open>The cards\<close>

definition MAX_CARDS :: int where "MAX_CARDS = 2"
definition RECV_SAMPLE_FREQ :: int where "RECV_SAMPLE_FREQ = 100000"
definition RECV_SAMPLE_HEADER :: int where "RECV_SAMPLE_HEADER = 2"
definition CLR_SAMP_OFFSET :: int where "CLR_SAMP_OFFSET = 10"
definition main_input :: int where "main_input = 2"
definition back_input :: int where "back_input = 1"

datatype sync = SYNC1_SIA_ONETIME | SYNC1_SIA_HOLD

datatype recv_op = ChannelAbort int | ChannelOn int | LoadGC4016s | ExternalTrigger bool | Filters int int int | Frequency int int | GlobalReset bool
  | OutputRate real int | SetRDA int | Samples int int | Sync1 bool | SyncMask sync | StartCollection | UpdateChannel int | WaitForData int

text \<open>
  The state of the driver: which cards could be opened and which commands they confirm, the ready clients, and a record of the commands given to the cards. \<open>rv_main\<close> is the variable
  \<^verbatim>\<open>main\<close>, the buffer (card, input and channel) whose samples are looked at; it keeps its value from one message to the next.
\<close>

record recv =
  rv_cards :: "bool list"
  rv_accepts :: "int \<Rightarrow> recv_op \<Rightarrow> bool"
  rv_ready :: ready_table
  rv_ifmode :: int
  rv_armed :: int
  rv_main :: "(int \<times> int \<times> int) option"
  rv_post_clr :: "int list"
  rv_ops :: "(int \<times> recv_op) list"

text \<open>
  What the hardware does while a message is handled: what each call of \<^verbatim>\<open>gc314WaitForData\<close> returns, the samples in each buffer, the address of each
  buffer, the addresses of the test buffers used without cards, and the Fourier transform of the FFTW library.
\<close>

record recv_env =
  re_wait :: "nat \<Rightarrow> int"
  re_buf :: "int \<times> int \<times> int \<Rightarrow> nat \<Rightarrow> u32"
  re_phys :: "int \<times> int \<times> int \<Rightarrow> u32"
  re_test :: "bool \<Rightarrow> int \<Rightarrow> int \<Rightarrow> int"
  re_fft :: "(real \<times> real) list \<Rightarrow> (real \<times> real) list"

definition rv_configured :: "recv \<Rightarrow> bool" where
  "rv_configured t \<longleftrightarrow> list_all (\<lambda>b. b) (rv_cards t)"

text \<open>A command to a card that is not open, or one the card does not confirm, ends the process.\<close>

definition recv_devctl :: "int \<Rightarrow> recv_op \<Rightarrow> recv \<Rightarrow> recv option" where
  "recv_devctl crd op t = do {
     b \<leftarrow> aref (rv_cards t) crd;
     if b \<and> rv_accepts t crd op then Some (t\<lparr>rv_ops := rv_ops t @ [(crd, op)]\<rparr>) else None
   }"

definition gc314ChannelAbort :: "int \<Rightarrow> int \<Rightarrow> recv \<Rightarrow> recv option" where
  "gc314ChannelAbort crd c = recv_devctl crd (ChannelAbort c)"
definition gc314ChannelOn :: "int \<Rightarrow> int \<Rightarrow> recv \<Rightarrow> recv option" where
  "gc314ChannelOn crd c = recv_devctl crd (ChannelOn c)"
definition gc314LoadGC4016s :: "int \<Rightarrow> recv \<Rightarrow> recv option" where
  "gc314LoadGC4016s crd = recv_devctl crd LoadGC4016s"
definition gc314SetExternalTrigger :: "int \<Rightarrow> bool \<Rightarrow> recv \<Rightarrow> recv option" where
  "gc314SetExternalTrigger crd on = recv_devctl crd (ExternalTrigger on)"
definition gc314SetFilters :: "int \<Rightarrow> int \<Rightarrow> int \<Rightarrow> int \<Rightarrow> recv \<Rightarrow> recv option" where
  "gc314SetFilters crd bandwidth c match = recv_devctl crd (Filters bandwidth c match)"
definition gc314SetFrequency :: "int \<Rightarrow> int \<Rightarrow> int \<Rightarrow> recv \<Rightarrow> recv option" where
  "gc314SetFrequency crd freq c = recv_devctl crd (Frequency freq c)"
definition gc314SetGlobalReset :: "int \<Rightarrow> bool \<Rightarrow> recv \<Rightarrow> recv option" where
  "gc314SetGlobalReset crd on = recv_devctl crd (GlobalReset on)"
definition gc314SetOutputRate :: "int \<Rightarrow> real \<Rightarrow> int \<Rightarrow> recv \<Rightarrow> recv option" where
  "gc314SetOutputRate crd rate c = recv_devctl crd (OutputRate rate c)"
definition gc314SetRDA :: "int \<Rightarrow> int \<Rightarrow> recv \<Rightarrow> recv option" where
  "gc314SetRDA crd c = recv_devctl crd (SetRDA c)"
definition gc314SetSamples :: "int \<Rightarrow> int \<Rightarrow> int \<Rightarrow> recv \<Rightarrow> recv option" where
  "gc314SetSamples crd n c = recv_devctl crd (Samples n c)"
definition gc314SetSync1 :: "int \<Rightarrow> bool \<Rightarrow> recv \<Rightarrow> recv option" where
  "gc314SetSync1 crd on = recv_devctl crd (Sync1 on)"
definition gc314SetSyncMask :: "int \<Rightarrow> sync \<Rightarrow> recv \<Rightarrow> recv option" where
  "gc314SetSyncMask crd m = recv_devctl crd (SyncMask m)"
definition gc314StartCollection :: "int \<Rightarrow> recv \<Rightarrow> recv option" where
  "gc314StartCollection crd = recv_devctl crd StartCollection"
definition gc314UpdateChannel :: "int \<Rightarrow> int \<Rightarrow> recv \<Rightarrow> recv option" where
  "gc314UpdateChannel crd c = recv_devctl crd (UpdateChannel c)"
definition gc314WaitForData :: "int \<Rightarrow> int \<Rightarrow> int \<Rightarrow> recv \<Rightarrow> (int \<times> recv) option" where
  "gc314WaitForData status crd c t = map_option (Pair status) (recv_devctl crd (WaitForData c) t)"

text \<open>A loop over cards or clients.\<close>

fun for_each :: "('a \<Rightarrow> recv \<Rightarrow> recv option) \<Rightarrow> 'a list \<Rightarrow> recv \<Rightarrow> recv option" where
  "for_each f [] t = Some t"
| "for_each f (x # xs) t = Option.bind (f x t) (for_each f xs)"

abbreviation all_cards :: "int list" where "all_cards \<equiv> [0..MAX_CARDS - 1]"

section \<open>Messages\<close>

type_synonym recv_reply = "(recv \<times> wire list \<times> wire list) option"

definition recv_end_msg :: "wire list \<Rightarrow> recv \<Rightarrow> recv_reply" where
  "recv_end_msg ws t = do {
     (q, ws) \<leftarrow> rx_prm ws;
     t \<leftarrow> gc314ChannelAbort (pr_radar q - 1) (pr_channel q - 1) t;
     Some (t, ws, [])
   }"

definition recv_rxfe_msg :: "DriverMsg \<Rightarrow> wire list \<Rightarrow> recv \<Rightarrow> recv_reply" where
  "recv_rxfe_msg m ws t = do {
     (mode, ws) \<leftarrow> rx_int ws;
     (rf, ws) \<leftarrow> rx_rxfe ws;
     (ifs, ws) \<leftarrow> rx_rxfe ws;
     Some (t\<lparr>rv_ifmode := mode\<rparr>, ws, [W_DriverMsg m])
   }"

definition recv_ready_msg :: "DriverMsg \<Rightarrow> wire list \<Rightarrow> recv \<Rightarrow> recv_reply" where
  "recv_ready_msg m ws t = do {
     (q, ws) \<leftarrow> rx_prm ws;
     let q = (if rv_ifmode t \<noteq> 0 then q\<lparr>pr_rfreq := - RECV_SAMPLE_FREQ + IF_FREQ\<rparr> else q);
     r \<leftarrow> add_ready q (rv_ready t);
     let m = (if rt_num r \<ge> int maxclients then m\<lparr>dm_status := -2\<rparr> else m);
     Some (t\<lparr>rv_ready := wrap_ready r\<rparr>, ws, [W_DriverMsg m])
   }"

definition setup_client :: "ControlPRM \<Rightarrow> recv \<Rightarrow> recv option" where
  "setup_client q t = (let crd = pr_radar q - 1; c = pr_channel q - 1 in do {
     t \<leftarrow> gc314SetFilters crd (pr_filter_bandwidth q) c (pr_match_filter q) t;
     t \<leftarrow> gc314SetOutputRate crd (pr_baseband_samplerate q) c t;
     t \<leftarrow> gc314SetFrequency crd (pr_rfreq q * 1000) c t;
     t \<leftarrow> gc314UpdateChannel crd c t;
     gc314SetSamples crd (pr_number_of_samples q + RECV_SAMPLE_HEADER) c t
   })"

definition recv_arm :: "recv \<Rightarrow> recv option" where
  "recv_arm t0 = (let qs = ready_clients (rv_ready t0) in do {
     t \<leftarrow> for_each (\<lambda>crd. gc314SetExternalTrigger crd False) all_cards t0;
     t \<leftarrow> for_each setup_client qs t;
     t \<leftarrow> for_each (\<lambda>crd. gc314SetSyncMask crd SYNC1_SIA_HOLD) all_cards t;
     t \<leftarrow> for_each (\<lambda>crd. gc314SetGlobalReset crd True) all_cards t;
     t \<leftarrow> for_each gc314LoadGC4016s all_cards t;
     t \<leftarrow> for_each (\<lambda>crd. gc314SetGlobalReset crd False) all_cards t;
     t \<leftarrow> for_each (\<lambda>crd. gc314SetSync1 crd False) all_cards t;
     t \<leftarrow> for_each (\<lambda>q. gc314SetRDA (pr_radar q - 1) (pr_channel q - 1)) qs t;
     t \<leftarrow> for_each (\<lambda>crd. gc314SetSyncMask crd SYNC1_SIA_ONETIME) all_cards t;
     t \<leftarrow> for_each (\<lambda>q. gc314ChannelOn (pr_radar q - 1) (pr_channel q - 1)) qs t;
     t \<leftarrow> for_each gc314StartCollection all_cards t;
     for_each (\<lambda>crd. gc314SetExternalTrigger crd True) all_cards t
   })"

definition recv_pretrigger_msg :: "DriverMsg \<Rightarrow> wire list \<Rightarrow> recv \<Rightarrow> recv_reply" where
  "recv_pretrigger_msg m ws t =
    (if rv_configured t then map_option (\<lambda>t. (t\<lparr>rv_armed := 1\<rparr>, ws, [W_DriverMsg m])) (recv_arm t)
     else Some (t\<lparr>rv_armed := 1\<rparr>, ws, [W_DriverMsg (m\<lparr>dm_status := 0\<rparr>)]))"

definition recv_posttrigger_msg :: "DriverMsg \<Rightarrow> wire list \<Rightarrow> recv \<Rightarrow> recv_reply" where
  "recv_posttrigger_msg m ws t = do {
     t \<leftarrow> for_each (\<lambda>crd. gc314SetExternalTrigger crd False) all_cards (t\<lparr>rv_armed := 0, rv_ready := clear_ready (rv_ready t)\<rparr>);
     Some (t, ws, [W_DriverMsg (m\<lparr>dm_status := 0\<rparr>)])
   }"

text \<open>
  Without cards the addresses of the test buffers are sent with the size of an \<^verbatim>\<open>unsigned int\<close>.
\<close>

definition recv_data_msg :: "recv_env \<Rightarrow> DriverMsg \<Rightarrow> wire list \<Rightarrow> recv \<Rightarrow> recv_reply" where
  "recv_data_msg e m ws t = do {
     (q, ws) \<leftarrow> rx_prm ws;
     let r = pr_radar q - 1;
     let c = pr_channel q - 1;
     (if rv_configured t then do {
        (status, t) \<leftarrow> gc314WaitForData (re_wait e 0) r c t;
        (if status = 0 then do {
           k \<leftarrow> cell r c;
           Some (t\<lparr>rv_main := Some (r, main_input, c)\<rparr>, ws,
             [W_int status, W_int 0, W_int RECV_SAMPLE_HEADER, W_int 0, W_int (pr_number_of_samples q),
              W_ptr (ucast (re_phys e (r, main_input, c))), W_ptr (ucast (re_phys e (r, back_input, c))), W_DriverMsg (m\<lparr>dm_status := status\<rparr>)])
         } else Some (t, ws, [W_int status, W_DriverMsg (m\<lparr>dm_status := status\<rparr>)]))
      } else do {
        k \<leftarrow> cell r c;
        Some (t, ws, [W_int 0, W_int 1, W_int RECV_SAMPLE_HEADER, W_int 0, W_int (pr_number_of_samples q),
          W_int (re_test e True r c), W_int (re_test e False r c), W_DriverMsg (m\<lparr>dm_status := 0\<rparr>)])
      })
   }"

section \<open>Clear frequency search\<close>

text \<open>\<^verbatim>\<open>pow(2,ceil(log10(1.25*bandwidth)/log10(2)))\<close>: the smallest power of two that is not below 1.25 times the bandwidth.\<close>

function pow2_above :: "int \<Rightarrow> int \<Rightarrow> int" where
  "pow2_above n bw = (if 0 < n \<and> 4 * n < 5 * bw then pow2_above (2 * n) bw else n)"
  by pat_completeness auto
termination
  by (relation "measure (\<lambda>(n, bw). nat (5 * bw - 4 * n))") auto

declare pow2_above.simps [simp del]

text \<open>
  The number of points, the usable bandwidth and the parameters of the search. A bandwidth of zero leaves a transform of no points, whose plan is the null
  pointer; below zero the logarithm is not a number.
\<close>

record clr_plan =
  cs_centre :: int
  cs_N :: int
  cs_usable :: int
  cs_prm :: CLRFreqPRM

definition clr_search_plan :: "CLRFreqPRM \<Rightarrow> clr_plan option" where
  "clr_search_plan c = do {
     centre \<leftarrow> cdiv (cl_end c + cl_start c) 2;
     half \<leftarrow> cdiv (cl_end c - cl_start c) 2;
     let bw = half * 2;
     (if bw \<le> 0 then None
      else let n = pow2_above 1 bw;
               (n, bw) = (if n > 1024 then (512, 300) else (n, bw));
               start = cint (real_of_int centre - real_of_int n / 2 + 0.49999);
               stop = cint (real_of_int centre + real_of_int n / 2 + 0.49999)
           in Some \<lparr>cs_centre = centre, cs_N = n, cs_usable = bw, cs_prm = c\<lparr>cl_start := start, cl_end := stop, cl_nave := 4\<rparr>\<rparr>)
   }"

definition clr_collect :: "clr_plan \<Rightarrow> int \<Rightarrow> int \<Rightarrow> recv \<Rightarrow> recv option" where
  "clr_collect cs crd c t = (let bw = cs_N cs * 1000 in do {
     t \<leftarrow> gc314SetExternalTrigger crd False t;
     t \<leftarrow> gc314SetFilters crd bw c 0 t;
     t \<leftarrow> gc314SetOutputRate crd (real_of_int bw) c t;
     t \<leftarrow> gc314SetFrequency crd (cs_centre cs * 1000) c t;
     t \<leftarrow> gc314UpdateChannel crd c t;
     t \<leftarrow> gc314SetSamples crd (4 * cs_N cs + RECV_SAMPLE_HEADER + CLR_SAMP_OFFSET) c t;
     t \<leftarrow> gc314SetSyncMask crd SYNC1_SIA_ONETIME t;
     t \<leftarrow> gc314SetSync1 crd True t;
     t \<leftarrow> gc314SetGlobalReset crd True t;
     t \<leftarrow> gc314LoadGC4016s crd t;
     t \<leftarrow> gc314SetGlobalReset crd False t;
     t \<leftarrow> gc314SetSync1 crd False t;
     t \<leftarrow> gc314SetRDA crd c t;
     t \<leftarrow> gc314SetSyncMask crd SYNC1_SIA_ONETIME t;
     t \<leftarrow> gc314ChannelOn crd c t;
     t \<leftarrow> gc314StartCollection crd t;
     t \<leftarrow> gc314SetSync1 crd True t;
     gc314SetSync1 crd False t
   })"

text \<open>At most ten attempts, until the data come without an error.\<close>

fun clr_tries :: "(nat \<Rightarrow> int) \<Rightarrow> clr_plan \<Rightarrow> int \<Rightarrow> int \<Rightarrow> nat list \<Rightarrow> recv \<Rightarrow> (int \<times> recv) option" where
  "clr_tries wait cs crd c [] t = Some (-1, t)"
| "clr_tries wait cs crd c (k # ks) t = do {
     t \<leftarrow> clr_collect cs crd c t;
     (status, t) \<leftarrow> gc314WaitForData (wait k) crd c t;
     if status < 0 then clr_tries wait cs crd c ks t else Some (status, t)
   }"

text \<open>Sample \<open>j\<close> of block \<open>ii\<close>: two signed 16 bit numbers in a word.\<close>

definition iq_sample :: "u32 \<Rightarrow> real \<times> real" where
  "iq_sample w = (let i = sint (ucast (drop_bit 16 (w AND 0xffff0000)) :: 16 word); q = sint (ucast (w AND 0x0000ffff) :: 16 word)
     in (real_of_int q, real_of_int i))"

definition clr_block :: "(nat \<Rightarrow> u32) \<Rightarrow> nat \<Rightarrow> nat \<Rightarrow> (real \<times> real) list" where
  "clr_block buf n ii = map (\<lambda>j. iq_sample (buf (ii * n + j + nat RECV_SAMPLE_HEADER + nat CLR_SAMP_OFFSET))) [0..<n]"

definition magnitude :: "real \<times> real \<Rightarrow> real" where
  "magnitude z = sqrt (fst z * fst z + snd z * snd z)"

definition add_power :: "nat \<Rightarrow> (real \<times> real) list \<Rightarrow> real list \<Rightarrow> real list" where
  "add_power n out pwr = map (\<lambda>j. pwr ! j + magnitude (out ! j) / real n) [0..<n]"

definition clr_power :: "((real \<times> real) list \<Rightarrow> (real \<times> real) list) \<Rightarrow> (nat \<Rightarrow> u32) \<Rightarrow> nat \<Rightarrow> real list" where
  "clr_power fft buf n = map (\<lambda>p. p / 4) (fold (\<lambda>ii. add_power n (fft (clr_block buf n ii))) [0..<4] (replicate n 0))"

text \<open>The two halves change places.\<close>

definition fftshift :: "nat \<Rightarrow> real list \<Rightarrow> real list" where
  "fftshift n pwr = map (\<lambda>i. if i < n div 2 then pwr ! (n div 2 + i) else pwr ! (i - n div 2)) [0..<n]"

text \<open>The samples come from the receiver of the radar, unless it is armed for a trigger.\<close>

definition clr_acquire :: "(nat \<Rightarrow> int) \<Rightarrow> clr_plan \<Rightarrow> int \<Rightarrow> recv \<Rightarrow> (int \<times> recv) option" where
  "clr_acquire wait cs r t =
    (if rv_armed t = 0 then do {
       (st, t) \<leftarrow> clr_tries wait cs r 0 [0..<10] t;
       Some (if 0 \<le> st then (1, t\<lparr>rv_main := Some (r, main_input, 0)\<rparr>) else (-1, t))
     } else Some (-1, t))"

text \<open>The powers of the usable bandwidth, in the order of the frequencies.\<close>

definition clr_spectrum :: "((real \<times> real) list \<Rightarrow> (real \<times> real) list) \<Rightarrow> (nat \<Rightarrow> u32) \<Rightarrow> clr_plan \<Rightarrow> real list" where
  "clr_spectrum fft buf cs = (let n = nat (cs_N cs); pwr2 = fftshift n (clr_power fft buf n)
     in take (nat (cs_usable cs)) (drop (nat ((cs_N cs - cs_usable cs) div 2)) pwr2))"

text \<open>
  An armed receiver, or one that fails ten times, reports status -1, and goes on with the buffer that was looked at last: the test
  \<^verbatim>\<open>if(msg.status)\<close> does not tell -1 from 1. Without such a buffer the pointer is not valid.
\<close>

definition recv_clr_msg :: "recv_env \<Rightarrow> DriverMsg \<Rightarrow> wire list \<Rightarrow> recv \<Rightarrow> recv_reply" where
  "recv_clr_msg e m ws t = do {
     (c, ws) \<leftarrow> rx_clr ws;
     (q, ws) \<leftarrow> rx_prm ws;
     cs \<leftarrow> clr_search_plan c;
     (status, t) \<leftarrow> clr_acquire (re_wait e) cs (pr_radar q - 1) t;
     b \<leftarrow> rv_main t;
     Some (t\<lparr>rv_post_clr := [1, 1, 1, 1]\<rparr>, ws,
       [W_CLRFreqPRM (cs_prm cs), W_int (cs_usable cs), W_doubles (clr_spectrum (re_fft e) (re_buf e b) cs), W_DriverMsg (m\<lparr>dm_status := status\<rparr>)])
   }"

definition recv_msg :: "recv_env \<Rightarrow> wire list \<Rightarrow> recv \<Rightarrow> recv_reply" where
  "recv_msg e ws t = do {
     (m, ws) \<leftarrow> rx_msg ws;
     (if dm_type m = CtrlProg_END_code then recv_end_msg ws t
      else if dm_type m = RXFE_SETTINGS_code then recv_rxfe_msg m ws t
      else if dm_type m = CtrlProg_READY_code then recv_ready_msg m ws t
      else if dm_type m = PRETRIGGER_code then recv_pretrigger_msg m ws t
      else if dm_type m = POSTTRIGGER_code then recv_posttrigger_msg m ws t
      else if dm_type m = GET_DATA_code then recv_data_msg e m ws t
      else if dm_type m = CLRFREQ_code then recv_clr_msg e m ws t
      else Some (t, ws, [W_DriverMsg (m\<lparr>dm_status := 0\<rparr>)]))
   }"

section \<open>Start\<close>

definition recv_start :: "bool list \<Rightarrow> (int \<Rightarrow> recv_op \<Rightarrow> bool) \<Rightarrow> ControlPRM list \<Rightarrow> recv" where
  "recv_start cards accepts clients = \<lparr>rv_cards = cards, rv_accepts = accepts, rv_ready = no_ready clients, rv_ifmode = IF_ENABLED, rv_armed = 0, rv_main = None, rv_post_clr = [0, 0, 0, 0], rv_ops = []\<rparr>"

definition recv_started :: "recv \<Rightarrow> bool" where
  "recv_started t \<longleftrightarrow> (\<exists>cards accepts clients. length cards = nat MAX_CARDS \<and> length clients = maxclients \<and> t = recv_start cards accepts clients)"

abbreviation recv_reaches :: "recv \<Rightarrow> bool" where
  "recv_reaches \<equiv> driver_reaches recv_msg (\<lambda>_ t. t) recv_started"

section \<open>Commands\<close>

definition opened :: "recv \<Rightarrow> bool" where
  "opened t \<longleftrightarrow> length (rv_cards t) = nat MAX_CARDS \<and> rv_configured t \<and> rv_accepts t = (\<lambda>_ _. True)"

text \<open>A step that only gives commands to the cards, and those it gives when the cards are open.\<close>

definition commands :: "(recv \<Rightarrow> recv option) \<Rightarrow> bool" where
  "commands f \<longleftrightarrow> (\<forall>t t'. f t = Some t' \<longrightarrow> (\<exists>ops. t' = t\<lparr>rv_ops := ops\<rparr>))"

definition issues :: "(recv \<Rightarrow> recv option) \<Rightarrow> (int \<times> recv_op) list \<Rightarrow> bool" where
  "issues f ops \<longleftrightarrow> (\<forall>t. opened t \<longrightarrow> f t = Some (t\<lparr>rv_ops := rv_ops t @ ops\<rparr>))"

lemma opened_ops [simp]: "opened (t\<lparr>rv_ops := ops\<rparr>) = opened t"
  by (simp add: opened_def rv_configured_def)

lemma commands_devctl [intro]: "commands (recv_devctl c op)"
  by (auto simp: commands_def recv_devctl_def bind_eq_Some_conv split: if_splits)

lemma commands_bind [intro]:
  assumes "commands f" "commands g"
  shows "commands (\<lambda>t. Option.bind (f t) g)"
  unfolding commands_def
proof (intro allI impI)
  fix t t'
  assume "Option.bind (f t) g = Some t'"
  then obtain u where u: "f t = Some u" "g u = Some t'" by (auto simp: bind_eq_Some_conv)
  obtain a where a: "u = t\<lparr>rv_ops := a\<rparr>" using assms(1) u(1) unfolding commands_def by blast
  obtain b where b: "t' = u\<lparr>rv_ops := b\<rparr>" using assms(2) u(2) unfolding commands_def by blast
  have "t' = t\<lparr>rv_ops := b\<rparr>" unfolding b a by simp
  then show "\<exists>ops. t' = t\<lparr>rv_ops := ops\<rparr>" by blast
qed

lemma commands_none: "commands Some"
proof -
  have "t = t\<lparr>rv_ops := rv_ops t\<rparr>" for t :: recv by simp
  then show ?thesis unfolding commands_def by blast
qed

lemma commands_each [intro]: "(\<And>x. x \<in> set xs \<Longrightarrow> commands (f x)) \<Longrightarrow> commands (for_each f xs)"
proof (induction xs)
  case (Cons x xs)
  then have "commands (\<lambda>t. Option.bind (f x t) (for_each f xs))" by (intro commands_bind) auto
  then show ?case by (simp add: commands_def)
qed (use commands_none in \<open>simp add: commands_def\<close>)

lemma issues_devctl: "0 \<le> c \<Longrightarrow> c < MAX_CARDS \<Longrightarrow> issues (recv_devctl c op) [(c, op)]"
  by (auto simp: issues_def opened_def recv_devctl_def rv_configured_def list_all_length aref_def)

lemma issues_bind: "issues f xs \<Longrightarrow> issues g ys \<Longrightarrow> issues (\<lambda>t. Option.bind (f t) g) (xs @ ys)"
  by (simp add: issues_def)

lemma issues_each: "(\<And>x. x \<in> set xs \<Longrightarrow> issues (f x) (ops x)) \<Longrightarrow> issues (for_each f xs) (concat (map ops xs))"
proof (induction xs)
  case (Cons x xs)
  then have "issues (\<lambda>t. Option.bind (f x t) (for_each f xs)) (ops x @ concat (map ops xs))" by (intro issues_bind) auto
  then show ?case by (simp add: issues_def)
qed (simp add: issues_def)

lemmas gc314_defs = gc314ChannelAbort_def gc314ChannelOn_def gc314LoadGC4016s_def gc314SetExternalTrigger_def gc314SetFilters_def gc314SetFrequency_def
  gc314SetGlobalReset_def gc314SetOutputRate_def gc314SetRDA_def gc314SetSamples_def gc314SetSync1_def gc314SetSyncMask_def gc314StartCollection_def gc314UpdateChannel_def

text \<open>What the pretrigger tells the cards.\<close>

definition client_ops :: "ControlPRM \<Rightarrow> (int \<times> recv_op) list" where
  "client_ops q = (let c = pr_channel q - 1 in map (Pair (pr_radar q - 1))
     [Filters (pr_filter_bandwidth q) c (pr_match_filter q), OutputRate (pr_baseband_samplerate q) c, Frequency (pr_rfreq q * 1000) c, UpdateChannel c,
      Samples (pr_number_of_samples q + RECV_SAMPLE_HEADER) c])"

definition arm_ops :: "ControlPRM list \<Rightarrow> (int \<times> recv_op) list" where
  "arm_ops qs = (let cards = (\<lambda>op. map (\<lambda>c. (c, op)) all_cards) in
     cards (ExternalTrigger False) @ concat (map client_ops qs) @ cards (SyncMask SYNC1_SIA_HOLD) @ cards (GlobalReset True) @ cards LoadGC4016s @
     cards (GlobalReset False) @ cards (Sync1 False) @ map (\<lambda>q. (pr_radar q - 1, SetRDA (pr_channel q - 1))) qs @ cards (SyncMask SYNC1_SIA_ONETIME) @
     map (\<lambda>q. (pr_radar q - 1, ChannelOn (pr_channel q - 1))) qs @ cards StartCollection @ cards (ExternalTrigger True))"

lemma radar_card: "prm_cell q \<noteq> None \<Longrightarrow> 0 \<le> pr_radar q - 1 \<and> pr_radar q - 1 < MAX_CARDS"
  by (auto simp: prm_cell_def cell_def site_consts MAX_CARDS_def split: if_splits)

lemma issues_card: "issues (for_each (\<lambda>c. recv_devctl c op) all_cards) (map (\<lambda>c. (c, op)) all_cards)"
  using issues_each [of all_cards "\<lambda>c. recv_devctl c op" "\<lambda>c. [(c, op)]"] issues_devctl by (simp add: concat_map_singleton)

lemma issues_clients:
  assumes "\<forall>q \<in> set qs. prm_cell q \<noteq> None"
  shows "issues (for_each (\<lambda>q. recv_devctl (pr_radar q - 1) (op q)) qs) (map (\<lambda>q. (pr_radar q - 1, op q)) qs)"
  using issues_each [of qs "\<lambda>q. recv_devctl (pr_radar q - 1) (op q)" "\<lambda>q. [(pr_radar q - 1, op q)]"] issues_devctl radar_card assms
  by (simp add: concat_map_singleton)

lemma issues_setup: "prm_cell q \<noteq> None \<Longrightarrow> issues (setup_client q) (client_ops q)"
proof -
  assume "prm_cell q \<noteq> None"
  then have d: "issues (recv_devctl (pr_radar q - 1) op) [(pr_radar q - 1, op)]" for op by (intro issues_devctl) (use radar_card in blast)+
  show ?thesis unfolding issues_def setup_client_def gc314_defs Let_def client_ops_def using d by (simp add: issues_def)
qed

lemma recv_arm_ops:
  assumes "opened t" "\<forall>q \<in> set (ready_clients (rv_ready t)). prm_cell q \<noteq> None"
  shows "recv_arm t = Some (t\<lparr>rv_ops := rv_ops t @ arm_ops (ready_clients (rv_ready t))\<rparr>)"
proof -
  let ?qs = "ready_clients (rv_ready t)"
  have s: "issues (for_each setup_client ?qs) (concat (map client_ops ?qs))" using assms(2) by (intro issues_each issues_setup) blast
  have c: "for_each (\<lambda>c. recv_devctl c op) all_cards u = Some (u\<lparr>rv_ops := rv_ops u @ map (\<lambda>c. (c, op)) all_cards\<rparr>)" if "opened u" for u op
    using issues_card [of op] that unfolding issues_def by blast
  have q: "for_each (\<lambda>q. recv_devctl (pr_radar q - 1) (op q)) ?qs u = Some (u\<lparr>rv_ops := rv_ops u @ map (\<lambda>q. (pr_radar q - 1, op q)) ?qs\<rparr>)" if "opened u" for u op
    using issues_clients [OF assms(2), of op] that unfolding issues_def by blast
  have s': "for_each setup_client ?qs u = Some (u\<lparr>rv_ops := rv_ops u @ concat (map client_ops ?qs)\<rparr>)" if "opened u" for u using s that unfolding issues_def by blast
  show ?thesis
    unfolding recv_arm_def Let_def gc314_defs gc314LoadGC4016s_def gc314StartCollection_def
    using assms(1) by (simp add: c q s' arm_ops_def Let_def del: upto.simps)
qed

lemma commands_setup: "commands (setup_client q)"
  unfolding setup_client_def Let_def gc314_defs by (intro commands_bind commands_devctl)

lemma commands_arm: "recv_arm t = Some t' \<Longrightarrow> \<exists>ops. t' = t\<lparr>rv_ops := ops\<rparr>"
proof -
  have "commands (\<lambda>u. do {
     t \<leftarrow> for_each (\<lambda>crd. gc314SetExternalTrigger crd False) all_cards u;
     t \<leftarrow> for_each setup_client qs t;
     t \<leftarrow> for_each (\<lambda>crd. gc314SetSyncMask crd SYNC1_SIA_HOLD) all_cards t;
     t \<leftarrow> for_each (\<lambda>crd. gc314SetGlobalReset crd True) all_cards t;
     t \<leftarrow> for_each gc314LoadGC4016s all_cards t;
     t \<leftarrow> for_each (\<lambda>crd. gc314SetGlobalReset crd False) all_cards t;
     t \<leftarrow> for_each (\<lambda>crd. gc314SetSync1 crd False) all_cards t;
     t \<leftarrow> for_each (\<lambda>q. gc314SetRDA (pr_radar q - 1) (pr_channel q - 1)) qs t;
     t \<leftarrow> for_each (\<lambda>crd. gc314SetSyncMask crd SYNC1_SIA_ONETIME) all_cards t;
     t \<leftarrow> for_each (\<lambda>q. gc314ChannelOn (pr_radar q - 1) (pr_channel q - 1)) qs t;
     t \<leftarrow> for_each gc314StartCollection all_cards t;
     for_each (\<lambda>crd. gc314SetExternalTrigger crd True) all_cards t
   })" for qs unfolding gc314_defs by (intro commands_bind commands_each commands_devctl commands_setup)
  then show "recv_arm t = Some t' \<Longrightarrow> \<exists>ops. t' = t\<lparr>rv_ops := ops\<rparr>" unfolding recv_arm_def Let_def commands_def by blast
qed

section \<open>The driver process\<close>

definition recv_ok :: "recv \<Rightarrow> bool" where
  "recv_ok t \<longleftrightarrow> length (rv_cards t) = nat MAX_CARDS \<and> (\<exists>qs. holds_list (rv_ready t) qs)"

definition same_recv :: "recv \<Rightarrow> recv \<Rightarrow> bool" where
  "same_recv t t' \<longleftrightarrow> rv_cards t' = rv_cards t \<and> rv_accepts t' = rv_accepts t \<and> rv_ready t' = rv_ready t"

lemma commands_same: "commands f \<Longrightarrow> f t = Some t' \<Longrightarrow> same_recv t t'"
  unfolding commands_def same_recv_def by fastforce

lemma commands_collect: "commands (clr_collect cs crd c)"
  unfolding clr_collect_def Let_def gc314_defs by (intro commands_bind commands_devctl)

lemma clr_tries_same: "clr_tries wait cs crd c ks t = Some (st, t') \<Longrightarrow> same_recv t t' \<and> rv_main t' = rv_main t \<and> rv_armed t' = rv_armed t"
proof (induction ks arbitrary: t)
  case (Cons k ks)
  obtain t1 t2 where t: "clr_collect cs crd c t = Some t1" "recv_devctl crd (WaitForData c) t1 = Some t2"
    "if wait k < 0 then clr_tries wait cs crd c ks t2 = Some (st, t') else t' = t2"
    using Cons.prems by (auto simp: gc314WaitForData_def bind_eq_Some_conv split: if_splits)
  obtain ops ops' where "t1 = t\<lparr>rv_ops := ops\<rparr>" "t2 = t1\<lparr>rv_ops := ops'\<rparr>" using t(1,2) commands_collect commands_devctl unfolding commands_def by meson
  then show ?case using t(3) Cons.IH [of t2] by (auto simp: same_recv_def split: if_splits)
qed (simp add: same_recv_def)

definition keeps_ready :: "recv \<Rightarrow> recv \<Rightarrow> bool" where
  "keeps_ready t t' \<longleftrightarrow> rv_cards t' = rv_cards t \<and> (rv_ready t' = rv_ready t \<or> rv_ready t' = clear_ready (rv_ready t) \<or>
     (\<exists>q r. add_ready q (rv_ready t) = Some r \<and> rv_ready t' = wrap_ready r))"

lemma same_keeps: "same_recv t t' \<Longrightarrow> keeps_ready t t'"
  by (simp add: same_recv_def keeps_ready_def)

lemma devctl_same: "recv_devctl crd op t = Some u \<Longrightarrow> same_recv t u"
  by (rule commands_same [OF commands_devctl])

lemma cards_same: "for_each (\<lambda>crd. recv_devctl crd op) xs t = Some u \<Longrightarrow> same_recv t u"
  by (rule commands_same [where f = "for_each (\<lambda>crd. recv_devctl crd op) xs"]) (intro commands_each commands_devctl)

lemma recv_end_keeps: "recv_end_msg ws t = Some (t', rest, out) \<Longrightarrow> keeps_ready t t'"
  by (auto simp: recv_end_msg_def gc314_defs bind_eq_Some_conv dest!: devctl_same intro: same_keeps)

lemma recv_rxfe_keeps: "recv_rxfe_msg m ws t = Some (t', rest, out) \<Longrightarrow> keeps_ready t t'"
  by (auto simp: recv_rxfe_msg_def keeps_ready_def bind_eq_Some_conv)

lemma recv_ready_keeps: "recv_ready_msg m ws t = Some (t', rest, out) \<Longrightarrow> keeps_ready t t'"
proof -
  assume "recv_ready_msg m ws t = Some (t', rest, out)"
  then obtain q r where "add_ready q (rv_ready t) = Some r" "t' = t\<lparr>rv_ready := wrap_ready r\<rparr>"
    unfolding recv_ready_msg_def Let_def by (auto simp: bind_eq_Some_conv)
  then have "add_ready q (rv_ready t) = Some r" "rv_cards t' = rv_cards t" "rv_ready t' = wrap_ready r" by simp_all
  then show ?thesis unfolding keeps_ready_def by blast
qed

lemma recv_pretrigger_keeps: "recv_pretrigger_msg m ws t = Some (t', rest, out) \<Longrightarrow> keeps_ready t t'"
proof -
  assume a: "recv_pretrigger_msg m ws t = Some (t', rest, out)"
  have arm: "rv_cards u = rv_cards t \<and> rv_ready u = rv_ready t" if "recv_arm t = Some u" for u using commands_arm [OF that] by auto
  show ?thesis using a arm unfolding recv_pretrigger_msg_def keeps_ready_def by (auto split: if_splits)
qed

lemma recv_posttrigger_keeps: "recv_posttrigger_msg m ws t = Some (t', rest, out) \<Longrightarrow> keeps_ready t t'"
  by (auto simp: recv_posttrigger_msg_def gc314_defs keeps_ready_def bind_eq_Some_conv same_recv_def dest!: cards_same)

lemma recv_data_keeps: "recv_data_msg e m ws t = Some (t', rest, out) \<Longrightarrow> keeps_ready t t'"
  by (auto simp: recv_data_msg_def gc314WaitForData_def keeps_ready_def bind_eq_Some_conv Let_def same_recv_def split: if_splits dest!: devctl_same)

lemma clr_acquire_same:
  assumes "clr_acquire wait cs r t = Some (st, t')"
  shows "same_recv t t' \<and> rv_armed t' = rv_armed t"
proof (cases "rv_armed t = 0")
  case True
  then obtain s u where u: "clr_tries wait cs r 0 [0..<10] t = Some (s, u)" "Some (if 0 \<le> s then (1, u\<lparr>rv_main := Some (r, main_input, 0)\<rparr>) else (-1, u)) = Some (st, t')"
    using assms unfolding clr_acquire_def by (auto simp only: simp_thms if_True bind_eq_Some_conv prod.case split: prod.splits)
  then show ?thesis using clr_tries_same [OF u(1)] by (auto simp: same_recv_def split: if_splits)
qed (use assms in \<open>simp add: clr_acquire_def same_recv_def\<close>)

lemma recv_clr_keeps: "recv_clr_msg e m ws t = Some (t', rest, out) \<Longrightarrow> keeps_ready t t'"
  by (auto simp: recv_clr_msg_def keeps_ready_def bind_eq_Some_conv same_recv_def dest!: clr_acquire_same)

lemma recv_msg_same:
  assumes "recv_msg e ws t = Some (t', rest, out)"
  shows "keeps_ready t t'"
proof -
  obtain m ws' where m: "rx_msg ws = Some (m, ws')" using assms by (auto simp: recv_msg_def bind_eq_Some_conv)
  have "keeps_ready t t" by (simp add: keeps_ready_def)
  then show ?thesis using assms unfolding recv_msg_def m
    by (auto split: if_splits elim: recv_end_keeps recv_rxfe_keeps recv_ready_keeps recv_pretrigger_keeps recv_posttrigger_keeps recv_data_keeps recv_clr_keeps)
qed

lemma recv_msg_keeps: "recv_ok t \<Longrightarrow> recv_msg e ws t = Some (t', rest, out) \<Longrightarrow> recv_ok t'"
  using recv_msg_same [of e ws t t' rest out] add_ready_keeps clear_ready_keeps unfolding recv_ok_def keeps_ready_def by metis

lemma recv_start_ok: "recv_started t \<Longrightarrow> recv_ok t"
  by (auto simp: recv_started_def recv_start_def recv_ok_def intro!: exI [of _ "[]"] holds_no_ready)

definition recv_ready_ok :: "wire list \<Rightarrow> bool" where
  "recv_ready_ok ws \<longleftrightarrow> (\<exists>m q. dm_type m = CtrlProg_READY_code \<and> prm_cell q \<noteq> None \<and> ws = [W_DriverMsg m, W_ControlPRM q])"

definition recv_request_ok :: "wire list \<Rightarrow> recv \<Rightarrow> bool" where
  "recv_request_ok ws t \<longleftrightarrow> opened t \<and> (rxfe_ok ws \<or> recv_ready_ok ws \<or> plain_ok [PRETRIGGER_code, POSTTRIGGER_code] ws)"

lemma recv_ready_answers:
  assumes "recv_ok t" "recv_ready_ok ws"
  shows "\<exists>t' m. recv_msg e ws t = Some (t', [], [W_DriverMsg m])"
proof -
  obtain m q where q: "dm_type m = CtrlProg_READY_code" "prm_cell q \<noteq> None" "ws = [W_DriverMsg m, W_ControlPRM q]" using assms(2) by (auto simp: recv_ready_ok_def)
  let ?q = "if rv_ifmode t \<noteq> 0 then q\<lparr>pr_rfreq := - RECV_SAMPLE_FREQ + IF_FREQ\<rparr> else q"
  have "prm_cell ?q = prm_cell q" by (simp add: prm_cell_def)
  then obtain k where "prm_cell ?q = Some k" using q(2) by auto
  then obtain r where "add_ready ?q (rv_ready t) = Some r" using assms(1) add_ready_refines unfolding recv_ok_def by blast
  then show ?thesis using q by (auto simp: recv_msg_def recv_ready_msg_def Let_def)
qed

lemma recv_clients_cells: "recv_ok t \<Longrightarrow> \<forall>q \<in> set (ready_clients (rv_ready t)). prm_cell q \<noteq> None"
  unfolding recv_ok_def by (metis ready_clients_cells(2) imageI)

lemma recv_pretrigger_runs:
  assumes "recv_ok t" "opened t"
  shows "recv_msg e [W_DriverMsg (m\<lparr>dm_type := PRETRIGGER_code\<rparr>)] t =
    Some (t\<lparr>rv_ops := rv_ops t @ arm_ops (ready_clients (rv_ready t)), rv_armed := 1\<rparr>, [], [W_DriverMsg (m\<lparr>dm_type := PRETRIGGER_code\<rparr>)])"
  using recv_arm_ops [OF assms(2) recv_clients_cells [OF assms(1)]] assms(2) by (simp add: recv_msg_def recv_pretrigger_msg_def opened_def)

lemma recv_posttrigger_runs:
  assumes "recv_ok t" "opened t"
  shows "recv_msg e [W_DriverMsg (m\<lparr>dm_type := POSTTRIGGER_code\<rparr>)] t =
    Some (t\<lparr>rv_armed := 0, rv_ready := clear_ready (rv_ready t), rv_ops := rv_ops t @ map (\<lambda>c. (c, ExternalTrigger False)) all_cards\<rparr>, [],
      [W_DriverMsg (m\<lparr>dm_type := POSTTRIGGER_code, dm_status := 0\<rparr>)])"
proof -
  have "opened (t\<lparr>rv_armed := 0, rv_ready := clear_ready (rv_ready t)\<rparr>)" using assms(2) by (simp add: opened_def rv_configured_def)
  then show ?thesis using issues_card [of "ExternalTrigger False"] by (simp add: issues_def recv_msg_def recv_posttrigger_msg_def gc314_defs)
qed

interpretation recv_link: driver_link recv_msg "\<lambda>_ t. t" recv_started recv_ok "\<lambda>_. recv_request_ok"
proof
  show "recv_started t \<Longrightarrow> recv_ok t" for t by (rule recv_start_ok)
  show "recv_ok t \<Longrightarrow> recv_msg e ws t = Some (t', rest, out) \<Longrightarrow> recv_ok t'" for t e ws t' rest out by (rule recv_msg_keeps)
  show "\<exists>t' m. recv_msg e ws t = Some (t', [], [W_DriverMsg m])" if t: "recv_ok t" and ws: "recv_request_ok ws t" for t e ws
  proof -
    have c: "opened t" using ws by (simp add: recv_request_ok_def)
    have "\<exists>t' m. recv_msg e ws t = Some (t', [], [W_DriverMsg m])" if p: "plain_ok [PRETRIGGER_code, POSTTRIGGER_code] ws"
    proof -
      obtain m where m: "ws = [W_DriverMsg m]" "dm_type m = PRETRIGGER_code \<or> dm_type m = POSTTRIGGER_code" using p unfolding plain_ok_def by auto
      then have "m = m\<lparr>dm_type := PRETRIGGER_code\<rparr> \<or> m = m\<lparr>dm_type := POSTTRIGGER_code\<rparr>" by (cases m) auto
      with m(1) show ?thesis using recv_pretrigger_runs [OF t c, of e m] recv_posttrigger_runs [OF t c, of e m] by metis
    qed
    moreover have "\<exists>t' m. recv_msg e ws t = Some (t', [], [W_DriverMsg m])" if "rxfe_ok ws"
      using that by (auto simp: rxfe_ok_def recv_msg_def recv_rxfe_msg_def)
    ultimately show ?thesis using ws recv_ready_answers [OF t] unfolding recv_request_ok_def by blast
  qed
qed

end
