(* ===== verification/Clear_Search.thy ===== *)
theory Clear_Search
  imports Receiver_Driver
begin

text \<open>
  What the receiver driver does for the server: the plan of a clear frequency search and the meaning of the powers it reports, the state of the cards after a
  pretrigger, and the conversations of the server and the driver.
\<close>

section \<open>The search\<close>

lemma pow2_above_power:
  "\<exists>j \<ge> k. pow2_above (2 ^ k) bw = 2 ^ j \<and> 5 * bw \<le> 4 * 2 ^ j \<and> (k < j \<longrightarrow> 4 * 2 ^ (j - 1) < 5 * bw)"
proof (induction "nat (5 * bw - 4 * 2 ^ k)" arbitrary: k rule: less_induct)
  case less
  show ?case
  proof (cases "4 * 2 ^ k < 5 * bw")
    case True
    then obtain j where j: "j \<ge> Suc k" "pow2_above (2 ^ Suc k) bw = 2 ^ j" "5 * bw \<le> 4 * 2 ^ j" "Suc k < j \<longrightarrow> 4 * 2 ^ (j - 1) < 5 * bw"
      using less [of "Suc k"] by auto
    have "pow2_above (2 ^ k) bw = 2 ^ j" using True j(2) by (subst pow2_above.simps) simp
    moreover have "4 * 2 ^ (j - 1) < 5 * bw" using j(1,4) True by (cases "j = Suc k") auto
    ultimately show ?thesis using j(1,3) by (intro exI [of _ j]) simp
  next
    case False
    then have "pow2_above (2 ^ k) bw = 2 ^ k" by (subst pow2_above.simps) simp
    with False show ?thesis by (intro exI [of _ k]) simp
  qed
qed

text \<open>The number of points is the power of two that the code computes with logarithms.\<close>

lemma pow2_above_log:
  assumes "0 < bw"
  shows "real_of_int (pow2_above 1 bw) = 2 powr real_of_int \<lceil>log 10 (1.25 * real_of_int bw) / log 10 2\<rceil>"
proof -
  let ?x = "1.25 * real_of_int bw"
  obtain j where j: "pow2_above 1 bw = 2 ^ j" "5 * bw \<le> 4 * 2 ^ j" "0 < j \<longrightarrow> 4 * 2 ^ (j - 1) < 5 * bw" using pow2_above_power [of 0 bw] by auto
  have "0 < j" using j(2) assms by (cases j) auto
  then have lo: "real_of_int (4 * 2 ^ (j - 1)) < real_of_int (5 * bw)" using j(3) by (simp only: of_int_less_iff)
  have hi: "real_of_int (5 * bw) \<le> real_of_int (4 * 2 ^ j)" using j(2) by (simp only: of_int_le_iff)
  have x: "0 < ?x" "2 ^ (j - 1) < ?x" "?x \<le> 2 ^ j" using assms lo hi by simp_all
  have "real (j - 1) = log 2 (2 ^ (j - 1))" "real j = log 2 (2 ^ j)" by simp_all
  moreover have "log 2 (2 ^ (j - 1)) < log 2 ?x" "log 2 ?x \<le> log 2 (2 ^ j)" using x by (simp_all del: log_pow_cancel)
  ultimately have "real (j - 1) < log 2 ?x" "log 2 ?x \<le> real j" by linarith+
  then have "\<lceil>log 2 ?x\<rceil> = int j" using \<open>0 < j\<close> by (intro ceiling_unique) (simp_all add: of_nat_diff)
  moreover have "log 10 ?x / log 10 2 = log 2 ?x" by (simp add: log_def)
  ultimately show ?thesis using j(1) by (simp add: powr_realpow)
qed

text \<open>The plan of a search: a power of two of points, at most 1024, with the usable bandwidth centred among them.\<close>

definition plan_ok :: "CLRFreqPRM \<Rightarrow> clr_plan \<Rightarrow> bool" where
  "plan_ok c cs \<longleftrightarrow> (\<exists>j. cs_N cs = 2 ^ j \<and> 2 \<le> j \<and> j \<le> 10) \<and> even (cs_usable cs) \<and> 2 \<le> cs_usable cs \<and> 5 * cs_usable cs \<le> 4 * cs_N cs \<and>
     cs_usable cs = (let bw = (cl_end c - cl_start c) div 2 * 2 in if bw < 820 then bw else 300) \<and> cs_centre cs = (cl_start c + cl_end c) div 2 \<and>
     cl_start (cs_prm cs) = cs_centre cs - cs_N cs div 2 \<and> cl_end (cs_prm cs) = cs_centre cs + cs_N cs div 2 \<and> cl_nave (cs_prm cs) = 4"

lemma cint_near: "0 \<le> k \<Longrightarrow> cint (real_of_int k + 49999 / 100000) = k"
  by (simp add: cint_def floor_eq_iff)

lemma cint_half:
  assumes "even n" "0 \<le> c - n div 2" "0 \<le> n"
  shows "cint (real_of_int c - real_of_int n / 2 + 49999 / 100000) = c - n div 2" "cint (real_of_int c + real_of_int n / 2 + 49999 / 100000) = c + n div 2"
proof -
  have h: "real_of_int n / 2 = real_of_int (n div 2)" using assms(1) by (auto elim!: evenE)
  show "cint (real_of_int c - real_of_int n / 2 + 49999 / 100000) = c - n div 2" unfolding h using cint_near [OF assms(2)] by simp
  show "cint (real_of_int c + real_of_int n / 2 + 49999 / 100000) = c + n div 2" unfolding h using cint_near [of "c + n div 2"] assms(2,3) by simp
qed

lemma search_points:
  assumes "even bw" "2 \<le> bw" "(n, b) = (if pow2_above 1 bw > 1024 then (512, 300) else (pow2_above 1 bw, bw))"
  shows "\<exists>j. n = 2 ^ j \<and> 2 \<le> j \<and> j \<le> 10" "even b" "2 \<le> b" "5 * b \<le> 4 * n" "b = (if bw < 820 then bw else 300)"
proof -
  obtain j where j: "pow2_above 1 bw = 2 ^ j" "5 * bw \<le> 4 * 2 ^ j" "0 < j \<longrightarrow> 4 * 2 ^ (j - 1) < 5 * bw" using pow2_above_power [of 0 bw] by auto
  have j2: "2 \<le> j"
  proof (rule ccontr)
    assume "\<not> 2 \<le> j"
    then have "j = 0 \<or> j = 1" by auto
    then show False using j(2) assms(2) by auto
  qed
  have "(\<exists>j. n = 2 ^ j \<and> 2 \<le> j \<and> j \<le> 10) \<and> even b \<and> 2 \<le> b \<and> 5 * b \<le> 4 * n \<and> b = (if bw < 820 then bw else 300)"
  proof (cases "pow2_above 1 bw > 1024")
    case True
    then have "(2 :: int) ^ 10 < 2 ^ j" using j(1) by simp
    then have "10 < j" by (simp only: power_strict_increasing_iff numeral_less_iff)
    then have "(2 :: int) ^ 10 \<le> 2 ^ (j - 1)" by (intro power_increasing) auto
    then have "820 \<le> bw" using j(3) j2 by simp
    moreover have "n = 2 ^ 9" "b = 300" using True assms(3) by auto
    ultimately show ?thesis by (intro conjI exI [of _ 9]) simp_all
  next
    case False
    then have "(2 :: int) ^ j \<le> 2 ^ 10" using j(1) by simp
    then have "j \<le> 10" by (simp only: power_increasing_iff numeral_less_iff)
    moreover have "bw < 820" using False j(1,2) by linarith
    ultimately show ?thesis using False assms j(1,2) j2 by auto
  qed
  then show "\<exists>j. n = 2 ^ j \<and> 2 \<le> j \<and> j \<le> 10" "even b" "2 \<le> b" "5 * b \<le> 4 * n" "b = (if bw < 820 then bw else 300)" by blast+
qed

lemma clr_plan_made:
  assumes "512 \<le> cl_start c" "cl_start c + 2 \<le> cl_end c"
  shows "\<exists>cs. clr_search_plan c = Some cs \<and> plan_ok c cs"
proof -
  let ?bw = "(cl_end c - cl_start c) div 2 * 2" and ?centre = "(cl_end c + cl_start c) div 2"
  obtain n b where nb: "(n, b) = (if pow2_above 1 ?bw > 1024 then (512, 300) else (pow2_above 1 ?bw, ?bw))" by (metis surj_pair)
  have bw: "even ?bw" "2 \<le> ?bw" using assms(2) by auto
  note p = search_points [OF bw(1,2) nb]
  obtain j where j: "n = 2 ^ j" "2 \<le> j" "j \<le> 10" using p(1) by blast
  have n: "even n" "n \<le> 1024" "0 \<le> n" using j power_increasing [of j 10 "2 :: int"] by auto
  then have "0 \<le> ?centre - n div 2" using assms by linarith
  note h = cint_half [OF n(1) this n(3)]
  let ?cs = "\<lparr>cs_centre = ?centre, cs_N = n, cs_usable = b, cs_prm = c\<lparr>cl_start := ?centre - n div 2, cl_end := ?centre + n div 2, cl_nave := 4\<rparr>\<rparr>"
  have "\<not> ?bw \<le> 0" using bw(2) by simp
  then have "clr_search_plan c = Some ?cs"
    using assms unfolding clr_search_plan_def by (simp add: nb [symmetric] h Let_def)
  moreover have "plan_ok c ?cs" using p(1-5) unfolding plan_ok_def by (simp add: add.commute Let_def)
  ultimately show ?thesis by blast
qed

lemma issues_collect:
  assumes "0 \<le> crd" "crd < MAX_CARDS"
  shows "\<exists>ops. issues (clr_collect cs crd c) ops"
proof -
  have d: "issues (recv_devctl crd op) [(crd, op)]" for op by (rule issues_devctl [OF assms])
  have b: "\<exists>ops. issues f ops \<Longrightarrow> \<exists>ops. issues g ops \<Longrightarrow> \<exists>ops. issues (\<lambda>t. Option.bind (f t) g) ops" for f g using issues_bind by blast
  show ?thesis unfolding clr_collect_def Let_def gc314_defs by (intro b) (use d in blast)+
qed

lemma clr_tries_good:
  assumes "opened t" "0 \<le> crd" "crd < MAX_CARDS" "k \<in> set ks" "0 \<le> wait k"
  shows "\<exists>st ops. clr_tries wait cs crd c ks t = Some (st, t\<lparr>rv_ops := ops\<rparr>) \<and> 0 \<le> st"
  using assms(1,4)
proof (induction ks arbitrary: t)
  case (Cons j ks)
  obtain ops where "issues (clr_collect cs crd c) ops" using issues_collect [OF assms(2,3)] by blast
  then have "clr_collect cs crd c t = Some (t\<lparr>rv_ops := rv_ops t @ ops\<rparr>)" using Cons.prems(1) by (simp add: issues_def)
  moreover define u where "u = t\<lparr>rv_ops := (rv_ops t @ ops) @ [(crd, WaitForData c)]\<rparr>"
  moreover have "recv_devctl crd (WaitForData c) (t\<lparr>rv_ops := rv_ops t @ ops\<rparr>) = Some u"
    using issues_devctl [OF assms(2,3), of "WaitForData c"] Cons.prems(1) by (simp add: issues_def u_def)
  ultimately have step: "clr_tries wait cs crd c (j # ks) t = (if wait j < 0 then clr_tries wait cs crd c ks u else Some (wait j, u))"
    by (simp add: gc314WaitForData_def)
  show ?case
  proof (cases "wait j < 0")
    case True
    then have "k \<in> set ks" using Cons.prems(2) assms(5) by auto
    moreover have "opened u" using Cons.prems(1) by (simp add: u_def)
    ultimately obtain st ops' where "clr_tries wait cs crd c ks u = Some (st, u\<lparr>rv_ops := ops'\<rparr>)" "0 \<le> st" using Cons.IH by blast
    then show ?thesis using True step by (auto simp: u_def)
  next
    case False
    then have "clr_tries wait cs crd c (j # ks) t = Some (wait j, t\<lparr>rv_ops := (rv_ops t @ ops) @ [(crd, WaitForData c)]\<rparr>)" using step by (simp add: u_def)
    then show ?thesis using False by (intro exI conjI) auto
  qed
qed simp

lemma clr_acquire_good:
  assumes "opened t" "0 \<le> crd" "crd < MAX_CARDS" "k < 10" "0 \<le> wait k" "rv_armed t = 0"
  shows "\<exists>ops. clr_acquire wait cs crd t = Some (1, t\<lparr>rv_ops := ops, rv_main := Some (crd, main_input, 0)\<rparr>)"
proof -
  have "k \<in> set [0..<10]" using assms(4) by simp
  from clr_tries_good [where wait = wait, OF assms(1-3) this assms(5)] obtain st ops where
    "clr_tries wait cs crd 0 [0..<10] t = Some (st, t\<lparr>rv_ops := ops\<rparr>)" "0 \<le> st" by blast
  then have "clr_acquire wait cs crd t = Some (1, t\<lparr>rv_ops := ops, rv_main := Some (crd, main_input, 0)\<rparr>)"
    unfolding clr_acquire_def by (simp only: assms(6) simp_thms if_True Option.bind.bind_lunit prod.case)
  then show ?thesis by blast
qed

section \<open>The spectrum\<close>

lemma add_power_fold:
  "length pwr = n \<Longrightarrow> j < n \<Longrightarrow>
   length (fold (\<lambda>ii. add_power n (f ii)) is pwr) = n \<and> fold (\<lambda>ii. add_power n (f ii)) is pwr ! j = pwr ! j + (\<Sum>ii\<leftarrow>is. magnitude (f ii ! j) / real n)"
  by (induction "is" arbitrary: pwr) (simp_all add: add_power_def)

lemma clr_power_nth:
  assumes "j < n"
  shows "clr_power fft buf n ! j = (\<Sum>ii<4. magnitude (fft (clr_block buf n ii) ! j) / real n) / 4"
proof -
  have "(\<Sum>ii\<leftarrow>[0..<4]. g ii) = (\<Sum>ii<4. g ii)" for g :: "nat \<Rightarrow> real" by (simp add: interv_sum_list_conv_sum_set_nat atLeast0LessThan)
  then show ?thesis
    using add_power_fold [of "replicate n 0" n j "\<lambda>ii. fft (clr_block buf n ii)" "[0..<4]"] assms unfolding clr_power_def
    by (simp del: upt_rec_numeral fold_simps)
qed

lemma fftshift_nth:
  assumes "even n" "i < n"
  shows "fftshift n p ! i = p ! ((i + n div 2) mod n)"
proof (cases "i < n div 2")
  case True
  then have "i + n div 2 < n" by linarith
  then show ?thesis using True assms(2) by (simp add: fftshift_def add.commute)
next
  case False
  then have "i + n div 2 = (i - n div 2) + n" using assms(1) by (auto elim!: evenE)
  moreover have "i - n div 2 < n" using assms(2) by simp
  ultimately have "(i + n div 2) mod n = i - n div 2" by (metis mod_add_self2 mod_less)
  then show ?thesis using False assms(2) by (simp add: fftshift_def)
qed

text \<open>
  What the power of an offset from the centre means: the samples of each of the four blocks, taken at a rate of \<open>n\<close> kHz, are correlated with the tone that is
  \<open>k\<close> kHz above the centre, and the magnitudes are averaged.
\<close>

definition sample :: "u32 \<Rightarrow> complex" where
  "sample w = Complex (fst (iq_sample w)) (snd (iq_sample w))"

definition tone_power :: "(nat \<Rightarrow> u32) \<Rightarrow> nat \<Rightarrow> int \<Rightarrow> real" where
  "tone_power buf n k = (\<Sum>ii<4. cmod (\<Sum>j<n. sample (buf (ii * n + j + 12)) * cis (- 2 * pi * real j * real_of_int k / real n)) / real n) / 4"

text \<open>The documented result of a forward transform of the FFTW library.\<close>

definition dft :: "(real \<times> real) list \<Rightarrow> (real \<times> real) list" where
  "dft xs = map (\<lambda>k. let z = (\<Sum>j<length xs. Complex (fst (xs ! j)) (snd (xs ! j)) * cis (- 2 * pi * real j * real k / real (length xs))) in (Re z, Im z)) [0..<length xs]"

definition is_dft :: "((real \<times> real) list \<Rightarrow> (real \<times> real) list) \<Rightarrow> bool" where
  "is_dft fft \<longleftrightarrow> (\<forall>xs. fft xs = dft xs)"

lemma cis_mod:
  assumes "0 < n"
  shows "cis (- 2 * pi * real j * real (nat (k mod int n)) / real n) = cis (- 2 * pi * real j * real_of_int k / real n)"
proof -
  define q where "q = real_of_int (k div int n)"
  define r where "r = real (nat (k mod int n))"
  have "r = real_of_int (k mod int n)" using assms by (simp add: r_def)
  also have "k mod int n = k - int n * (k div int n)" by (rule minus_mult_div_eq_mod [symmetric])
  finally have r: "real_of_int k = r + real n * q" by (simp add: q_def)
  have "- 2 * pi * real j * real_of_int k / real n = - 2 * pi * real j * r / real n + 2 * pi * (- real j * q)" unfolding r using assms by (simp add: field_simps)
  moreover have "- real j * q = real_of_int (- int j * (k div int n))" by (simp add: q_def)
  ultimately have "cis (- 2 * pi * real j * real_of_int k / real n) = cis (- 2 * pi * real j * r / real n) * cis (2 * pi * real_of_int (- int j * (k div int n)))"
    by (simp only: cis_mult)
  then show ?thesis by (simp only: r_def cis_multiple_2pi Ints_of_int mult_1_right)
qed

lemma dft_nth:
  assumes "k < length xs"
  shows "magnitude (dft xs ! k) = cmod (\<Sum>j<length xs. Complex (fst (xs ! j)) (snd (xs ! j)) * cis (- 2 * pi * real j * real k / real (length xs)))"
proof -
  have "magnitude (Re z, Im z) = cmod z" for z by (simp add: magnitude_def cmod_def power2_eq_square)
  then show ?thesis using assms unfolding dft_def Let_def by (simp only: nth_map_upt length_upt diff_zero add_0)
qed

lemma dft_tone:
  assumes "0 < n"
  shows "(\<Sum>ii<4. magnitude (dft (clr_block buf n ii) ! nat (k mod int n)) / real n) / 4 = tone_power buf n k"
proof -
  have b: "nat (k mod int n) < n" using assms by (simp add: nat_less_iff)
  have l: "length (clr_block buf n ii) = n" for ii by (simp add: clr_block_def)
  have x: "Complex (fst (clr_block buf n ii ! j)) (snd (clr_block buf n ii ! j)) = sample (buf (ii * n + j + 12))" if "j < n" for ii j
    using that by (simp add: clr_block_def sample_def RECV_SAMPLE_HEADER_def CLR_SAMP_OFFSET_def add_ac)
  have "magnitude (dft (clr_block buf n ii) ! nat (k mod int n)) = cmod (\<Sum>j<n. sample (buf (ii * n + j + 12)) * cis (- 2 * pi * real j * real_of_int k / real n))" for ii
  proof -
    have "(\<Sum>j<n. Complex (fst (clr_block buf n ii ! j)) (snd (clr_block buf n ii ! j)) * cis (- 2 * pi * real j * real (nat (k mod int n)) / real n)) =
        (\<Sum>j<n. sample (buf (ii * n + j + 12)) * cis (- 2 * pi * real j * real_of_int k / real n))"
      by (rule sum.cong) (simp_all only: x cis_mod [OF assms] lessThan_iff)
    then show ?thesis using dft_nth [of "nat (k mod int n)" "clr_block buf n ii"] b by (simp only: l)
  qed
  then show ?thesis by (simp only: tone_power_def)
qed

lemma clr_spectrum_tones:
  assumes "is_dft fft" "plan_ok c cs"
  shows "length (clr_spectrum fft buf cs) = nat (cs_usable cs)"
    "i < nat (cs_usable cs) \<Longrightarrow> clr_spectrum fft buf cs ! i = tone_power buf (nat (cs_N cs)) (int i - cs_usable cs div 2)"
proof -
  let ?n = "nat (cs_N cs)" and ?b = "nat (cs_usable cs)" and ?s = "nat ((cs_N cs - cs_usable cs) div 2)"
  obtain j where j: "cs_N cs = 2 ^ j" "2 \<le> j" using assms(2) by (auto simp: plan_ok_def)
  have n: "even ?n" "0 < ?n" "even ?b" "?b \<le> ?n" "cs_N cs = int ?n" "cs_usable cs = int ?b"
  proof -
    have "even (cs_usable cs)" "2 \<le> cs_usable cs" "5 * cs_usable cs \<le> 4 * cs_N cs" using assms(2) unfolding plan_ok_def by blast+
    then show "even ?n" "0 < ?n" "even ?b" "?b \<le> ?n" "cs_N cs = int ?n" "cs_usable cs = int ?b" using j by (auto simp: even_nat_iff)
  qed
  have s: "?s = (?n - ?b) div 2" using n(4-6) by (metis nat_int of_nat_diff of_nat_numeral zdiv_int)
  have "?b \<le> ?n - ?s" using n(4) s by linarith
  then show len: "length (clr_spectrum fft buf cs) = ?b" by (simp add: clr_spectrum_def Let_def fftshift_def min_absorb2)
  show "clr_spectrum fft buf cs ! i = tone_power buf ?n (int i - cs_usable cs div 2)" if i: "i < ?b"
  proof -
    have si: "?s + i < ?n" using i s n(4) by linarith
    have "clr_spectrum fft buf cs ! i = fftshift ?n (clr_power fft buf ?n) ! (?s + i)" using si i by (simp add: clr_spectrum_def Let_def fftshift_def)
    also have "\<dots> = clr_power fft buf ?n ! ((?s + i + ?n div 2) mod ?n)" by (rule fftshift_nth [OF n(1) si])
    also have "(?s + i + ?n div 2) mod ?n = nat ((int i - cs_usable cs div 2) mod int ?n)"
    proof -
      obtain x y where xy: "?n = 2 * x" "?b = 2 * y" using n(1,3) by (auto elim!: evenE)
      have "int (?s + i + ?n div 2) = (int i - cs_usable cs div 2) + int ?n" using xy n(4,6) s by simp
      then have "int ((?s + i + ?n div 2) mod ?n) = (int i - cs_usable cs div 2) mod int ?n" by (simp only: zmod_int mod_add_self2)
      then show ?thesis by (metis nat_int)
    qed
    also have "clr_power fft buf ?n ! nat ((int i - cs_usable cs div 2) mod int ?n) = tone_power buf ?n (int i - cs_usable cs div 2)"
    proof -
      have "fft = dft" using assms(1) by (auto simp: is_dft_def)
      moreover have "nat ((int i - cs_usable cs div 2) mod int ?n) < ?n" using n(2) by (simp add: nat_less_iff)
      ultimately show ?thesis by (simp only: clr_power_nth dft_tone [OF n(2)])
    qed
    finally show ?thesis .
  qed
qed

section \<open>The cards after a pretrigger\<close>

text \<open>Whether two commands set the same thing: a property of one channel of one card.\<close>

fun same_setting :: "int \<times> recv_op \<Rightarrow> int \<times> recv_op \<Rightarrow> bool" where
  "same_setting (r, Filters _ c _) (r', Filters _ c' _) = (r = r' \<and> c = c')"
| "same_setting (r, OutputRate _ c) (r', OutputRate _ c') = (r = r' \<and> c = c')"
| "same_setting (r, Frequency _ c) (r', Frequency _ c') = (r = r' \<and> c = c')"
| "same_setting (r, Samples _ c) (r', Samples _ c') = (r = r' \<and> c = c')"
| "same_setting _ _ = False"

definition latest :: "int \<times> recv_op \<Rightarrow> (int \<times> recv_op) list \<Rightarrow> (int \<times> recv_op) option" where
  "latest x ops = find (same_setting x) (rev ops)"

lemma find_only:
  assumes "x \<in> set xs" "P x" "\<forall>y \<in> set xs. P y \<longrightarrow> y = x"
  shows "find P (xs @ ys) = Some x"
  using assms(1,3)
proof (induction xs)
  case (Cons a xs)
  show ?case
  proof (cases "P a")
    case False
    then have "a \<noteq> x" using assms(2) by auto
    then have "find P (xs @ ys) = Some x" using Cons by simp
    then show ?thesis using False by simp
  qed (use Cons.prems(2) in simp)
qed simp

lemma latest_only:
  assumes "x \<in> set new" "same_setting x x" "\<And>y. y \<in> set new \<Longrightarrow> same_setting x y \<Longrightarrow> y = x"
  shows "latest x (old @ new) = Some x"
  using find_only [of x "rev new" "same_setting x" "rev old"] assms by (simp add: latest_def)

definition client_settings :: "ControlPRM \<Rightarrow> (int \<times> recv_op) list" where
  "client_settings q = (let r = pr_radar q - 1; c = pr_channel q - 1 in
     [(r, Filters (pr_filter_bandwidth q) c (pr_match_filter q)), (r, OutputRate (pr_baseband_samplerate q) c), (r, Frequency (pr_rfreq q * 1000) c),
      (r, Samples (pr_number_of_samples q + 2) c)])"

lemma settings_ops: "set (client_settings q) \<subseteq> set (client_ops q)"
  by (auto simp: client_settings_def client_ops_def Let_def RECV_SAMPLE_HEADER_def)

lemma settings_same:
  assumes "x \<in> set (client_settings q)"
  shows "same_setting x x" "y \<in> set (client_ops q') \<Longrightarrow> same_setting x y \<Longrightarrow> pr_radar q' = pr_radar q \<and> pr_channel q' = pr_channel q \<and> (q' = q \<longrightarrow> y = x)"
  using assms by (auto simp: client_settings_def client_ops_def Let_def RECV_SAMPLE_HEADER_def)

lemma settings_other:
  assumes "x \<in> set (client_settings q)" "y \<in> set (arm_ops qs)" "same_setting x y"
  shows "\<exists>q' \<in> set qs. y \<in> set (client_ops q')"
  using assms by (auto simp: client_settings_def arm_ops_def Let_def simp del: upto.simps)

lemma arm_ops_settings:
  assumes "distinct (map prm_cell qs)" "q \<in> set qs" "x \<in> set (client_settings q)"
  shows "latest x (old @ arm_ops qs) = Some x"
proof (rule latest_only)
  have "x \<in> set (client_ops q)" using settings_ops assms(3) by blast
  then show "x \<in> set (arm_ops qs)" using assms(2) by (auto simp: arm_ops_def Let_def simp del: upto.simps)
  show "same_setting x x" by (rule settings_same(1) [OF assms(3)])
  show "y = x" if y: "y \<in> set (arm_ops qs)" "same_setting x y" for y
  proof -
    obtain q' where q': "q' \<in> set qs" "y \<in> set (client_ops q')" using settings_other [OF assms(3) y] by blast
    then have s: "pr_radar q' = pr_radar q" "pr_channel q' = pr_channel q" "q' = q \<longrightarrow> y = x" using settings_same(2) [OF assms(3)] y(2) by blast+
    then have "prm_cell q' = prm_cell q" by (simp add: prm_cell_def)
    then have "q' = q" using assms(1,2) q'(1) by (simp add: distinct_map inj_on_def)
    with s(3) show ?thesis by blast
  qed
qed

lemma arm_ops_trigger:
  "\<exists>mid. arm_ops qs = [(0, ExternalTrigger False), (1, ExternalTrigger False)] @ mid @ [(0, ExternalTrigger True), (1, ExternalTrigger True)] \<and>
     (\<forall>crd on. (crd, ExternalTrigger on) \<notin> set mid) \<and> (\<forall>q \<in> set qs. (pr_radar q - 1, ChannelOn (pr_channel q - 1)) \<in> set mid)"
proof -
  define cards where "cards = (\<lambda>op :: recv_op. map (\<lambda>c. (c, op)) all_cards)"
  define mid where "mid = concat (map client_ops qs) @ cards (SyncMask SYNC1_SIA_HOLD) @ cards (GlobalReset True) @ cards LoadGC4016s @
     cards (GlobalReset False) @ cards (Sync1 False) @ map (\<lambda>q. (pr_radar q - 1, SetRDA (pr_channel q - 1))) qs @ cards (SyncMask SYNC1_SIA_ONETIME) @
     map (\<lambda>q. (pr_radar q - 1, ChannelOn (pr_channel q - 1))) qs @ cards StartCollection"
  have "all_cards = [0, 1]" by (simp add: MAX_CARDS_def upto.simps)
  then have "cards op = [(0, op), (1, op)]" for op by (simp add: cards_def)
  moreover have "arm_ops qs = cards (ExternalTrigger False) @ mid @ cards (ExternalTrigger True)" by (simp only: arm_ops_def Let_def mid_def cards_def append_assoc)
  moreover have "(crd, ExternalTrigger on) \<notin> set mid" for crd on by (auto simp: mid_def cards_def client_ops_def Let_def)
  moreover have "\<forall>q \<in> set qs. (pr_radar q - 1, ChannelOn (pr_channel q - 1)) \<in> set mid" by (auto simp: mid_def)
  ultimately show ?thesis by auto
qed

section \<open>Conversations\<close>

lemma recv_request:
  "recv_reaches t \<Longrightarrow> recv_request_ok ws t \<Longrightarrow> stays_in_step RECV (recv_msg e) recv_reaches (request RECV ws) s t"
  using stays_request [OF recv_link.driver_link_axioms] by simp

lemma stays_handled:
  assumes "recv_reaches t" "in_step RECV (recv_msg e) call s t s' t'"
  shows "recv_reaches t'"
  using assms driver_reaches.handled [OF assms(1)] by (auto simp: in_step_def)

lemma recv_end_stays:
  assumes "recv_reaches t" "opened t" "selected_seq s p = Some (prm, Some q)" "prm_cell prm \<noteq> None"
  shows "stays_in_step RECV (recv_msg e) recv_reaches (receiver_end_controlprogram (Some p)) s t"
proof -
  let ?ws = "[drv_msg CtrlProg_END_code 1, W_ControlPRM prm]"
  let ?op = "(pr_radar prm - 1, ChannelAbort (pr_channel prm - 1))"
  have "issues (recv_devctl (pr_radar prm - 1) (ChannelAbort (pr_channel prm - 1))) [?op]" using radar_card [OF assms(4)] by (intro issues_devctl) auto
  then have h: "recv_msg e ?ws t = Some (t\<lparr>rv_ops := rv_ops t @ [?op]\<rparr>, [], [])"
    using assms(2) by (simp add: recv_msg_def recv_end_msg_def gc314_defs issues_def)
  have "in_step RECV (recv_msg e) (receiver_end_controlprogram (Some p)) s t (send_all (Driver RECV) ?ws s) (t\<lparr>rv_ops := rv_ops t @ [?op]\<rparr>)"
    unfolding in_step_def by (rule exI [of _ ?ws], rule exI [of _ "[]"]) (use h assms(3) in \<open>simp add: receiver_end_controlprogram_def deliver_def send_all_def\<close>)
  then show ?thesis using stays_handled [OF assms(1)] unfolding stays_in_step_def by blast
qed


text \<open>
  C12: a pretrigger programs the receivers. With the cards open it gives the cards a series of commands that begins by taking the external trigger away from
  both and ends by giving it to both, and no command between touches the trigger. Between, the channel of every ready program is switched on, and the last
  filter, output rate, frequency and number of samples given to that channel are those of the program, with two more samples for the header.
\<close>

theorem pretrigger_sets_receivers:
  assumes "recv_reaches t" "opened t"
  shows "\<exists>t' mid. recv_msg e [drv_msg PRETRIGGER_code 1] t = Some (t', [], [drv_msg PRETRIGGER_code 1]) \<and> rv_armed t' = 1 \<and>
    rv_ops t' = rv_ops t @ [(0, ExternalTrigger False), (1, ExternalTrigger False)] @ mid @ [(0, ExternalTrigger True), (1, ExternalTrigger True)] \<and>
    (\<forall>crd on. (crd, ExternalTrigger on) \<notin> set mid) \<and>
    (\<forall>q \<in> set (ready_clients (rv_ready t)). (pr_radar q - 1, ChannelOn (pr_channel q - 1)) \<in> set mid \<and>
       (\<forall>x \<in> set (client_settings q). latest x (rv_ops t') = Some x))"
proof -
  let ?qs = "ready_clients (rv_ready t)"
  have ok: "recv_ok t" by (rule recv_link.reaches_invar [OF assms(1)])
  then have d: "distinct (map prm_cell ?qs)" using ready_clients_cells(1) by (auto simp: recv_ok_def)
  have r: "recv_msg e [drv_msg PRETRIGGER_code 1] t = Some (t\<lparr>rv_ops := rv_ops t @ arm_ops ?qs, rv_armed := 1\<rparr>, [], [drv_msg PRETRIGGER_code 1])"
    using recv_pretrigger_runs [OF ok assms(2), of e "\<lparr>dm_type = PRETRIGGER_code, dm_status = 1\<rparr>"] by simp
  obtain mid where mid: "arm_ops ?qs = [(0, ExternalTrigger False), (1, ExternalTrigger False)] @ mid @ [(0, ExternalTrigger True), (1, ExternalTrigger True)]"
    "\<forall>crd on. (crd, ExternalTrigger on) \<notin> set mid" "\<forall>q \<in> set ?qs. (pr_radar q - 1, ChannelOn (pr_channel q - 1)) \<in> set mid"
    using arm_ops_trigger by blast
  have s: "\<forall>q \<in> set ?qs. \<forall>x \<in> set (client_settings q). latest x (rv_ops t @ arm_ops ?qs) = Some x" using arm_ops_settings [OF d] by blast
  show ?thesis
    by (rule exI [of _ "t\<lparr>rv_ops := rv_ops t @ arm_ops ?qs, rv_armed := 1\<rparr>"], rule exI [of _ mid]) (use r mid s in simp)
qed

lemma recv_from_out: "recv_from rx d s = Some (x, s') \<Longrightarrow> sv_out s' = sv_out s"
  by (auto simp: recv_from_Some)

lemma receiver_clrfreq_sends:
  assumes "receiver_clrfreq we p s = Some s'" "sv_heap s p = Some cp" "cp_parameters cp = Some prm"
  shows "sv_out s' = sv_out s @ map (Pair (Driver RECV)) [drv_msg CLRFREQ_code 1, W_CLRFreqPRM (cp_clrfreqsearch cp), W_ControlPRM prm]"
proof -
  let ?ws = "[drv_msg CLRFREQ_code 1, W_CLRFreqPRM (cp_clrfreqsearch cp), W_ControlPRM prm]"
  obtain c s1 n s2 pwr s3 m s4 clr f where r: "recv_from rx_clr (Driver RECV) (send_all (Driver RECV) ?ws s) = Some (c, s1)" "recv_from rx_int (Driver RECV) s1 = Some (n, s2)"
    "recv_from (rx_doubles n) (Driver RECV) s2 = Some (pwr, s3)" "recv_from rx_msg (Driver RECV) s3 = Some (m, s4)" "s' = upd_cp p f (s4\<lparr>sv_clr_pwr := clr\<rparr>)"
    using assms unfolding receiver_clrfreq_def by (auto simp: bind_eq_Some_conv split: if_splits)
  show ?thesis using r(1-4) [THEN recv_from_out] r(5) by (simp add: upd_cp_def send_all_def)
qed

lemma recv_clr_runs:
  assumes "opened t" "rv_armed t = 0" "prm_cell prm \<noteq> None" "k < 10" "0 \<le> re_wait e k" "clr_search_plan c = Some cs"
  obtains t' where "recv_msg e [drv_msg CLRFREQ_code 1, W_CLRFreqPRM c, W_ControlPRM prm] t =
      Some (t', [], [W_CLRFreqPRM (cs_prm cs), W_int (cs_usable cs), W_doubles (clr_spectrum (re_fft e) (re_buf e (pr_radar prm - 1, main_input, 0)) cs), drv_msg CLRFREQ_code 1])"
proof -
  have "0 \<le> pr_radar prm - 1" "pr_radar prm - 1 < MAX_CARDS" using radar_card [OF assms(3)] by auto
  from clr_acquire_good [where wait = "re_wait e", OF assms(1) this assms(4,5,2)] obtain ops where
    "clr_acquire (re_wait e) cs (pr_radar prm - 1) t = Some (1, t\<lparr>rv_ops := ops, rv_main := Some (pr_radar prm - 1, main_input, 0)\<rparr>)" by blast
  then show thesis using that assms(6) by (simp add: recv_msg_def recv_clr_msg_def)
qed

text \<open>
  An armed receiver does not measure: the search reports status -1 and the spectrum of the buffer that was looked at before, whatever radar and time it is from.
\<close>

lemma armed_search_stale:
  assumes "rv_armed t \<noteq> 0" "rv_main t = Some b" "clr_search_plan c = Some cs"
  shows "recv_msg e [drv_msg CLRFREQ_code 1, W_CLRFreqPRM c, W_ControlPRM prm] t =
    Some (t\<lparr>rv_post_clr := [1, 1, 1, 1]\<rparr>, [],
      [W_CLRFreqPRM (cs_prm cs), W_int (cs_usable cs), W_doubles (clr_spectrum (re_fft e) (re_buf e b) cs), drv_msg CLRFREQ_code (-1)])"
  using assms by (simp add: recv_msg_def recv_clr_msg_def clr_acquire_def)

text \<open>
  C6: a clear frequency search through the receiver driver. For a band of at least 2 kHz above 512 kHz, with a receiver that is not armed and delivers its data
  in one of ten attempts, the server and the driver stay in step; the number of points is a power of two up to 1024 and at least 5/4 of the usable band, which lies in
  the centre of the requested one; and the server holds one bin per kHz of the usable band whose power, between 8 and 20 MHz, is the average over four blocks of the magnitude of
  the correlation of the samples with the tone of exactly that frequency. The transform of the library is the discrete Fourier transform.
\<close>

theorem clear_search_through_driver:
  assumes "recv_reaches t" "opened t" "rv_armed t = 0" "k < 10" "0 \<le> re_wait e k" "is_dft (re_fft e)"
    "sv_heap s p = Some cp" "cp_parameters cp = Some prm" "prm_cell prm \<noteq> None" "cp_state cp = Some st"
    "length (sv_clr_pwr s) = MAX_RADARS" "\<forall>row \<in> set (sv_clr_pwr s). int (length row) = max_freqs"
    "512 \<le> cl_start (cp_clrfreqsearch cp)" "cl_start (cp_clrfreqsearch cp) + 2 \<le> cl_end (cp_clrfreqsearch cp)"
  shows "\<exists>s' t' cs st' arr. in_step RECV (recv_msg e) (receiver_clrfreq we p) s t s' t' \<and> recv_reaches t' \<and>
    clr_search_plan (cp_clrfreqsearch cp) = Some cs \<and> plan_ok (cp_clrfreqsearch cp) cs \<and>
    state_of s' p = Some st' \<and> st_fft_array st' = Some arr \<and> int (length arr) = cs_usable cs \<and> bins (cs_centre cs - cs_usable cs div 2) arr \<and>
    (\<forall>i < length arr. full_clr_start \<le> cs_centre cs - cs_usable cs div 2 + int i \<and> cs_centre cs - cs_usable cs div 2 + int i < full_clr_end \<longrightarrow>
      ff_pwr (arr ! i) = tone_power (re_buf e (pr_radar prm - 1, main_input, 0)) (nat (cs_N cs)) (int i - cs_usable cs div 2))"
proof -
  let ?c = "cp_clrfreqsearch cp" and ?buf = "re_buf e (pr_radar prm - 1, main_input, 0)"
  obtain cs where cs: "clr_search_plan ?c = Some cs" "plan_ok ?c cs" using clr_plan_made [OF assms(13,14)] by blast
  let ?pwr = "clr_spectrum (re_fft e) ?buf cs"
  let ?ans = "[W_CLRFreqPRM (cs_prm cs), W_int (cs_usable cs), W_doubles ?pwr, drv_msg CLRFREQ_code 1]"
  obtain t' where t': "recv_msg e [drv_msg CLRFREQ_code 1, W_CLRFreqPRM ?c, W_ControlPRM prm] t = Some (t', [], ?ans)"
    by (rule recv_clr_runs [OF assms(2,3,9,4,5) cs(1)])
  have u: "2 \<le> cs_usable cs" "cs_centre cs = (cl_start ?c + cl_end ?c) div 2" "cl_start (cs_prm cs) = cs_centre cs - cs_N cs div 2" "cl_end (cs_prm cs) = cs_centre cs + cs_N cs div 2"
    using cs(2) unfolding plan_ok_def by blast+
  have div: "cdiv (cl_end (cs_prm cs) + cl_start (cs_prm cs)) 2 = Some (cs_centre cs)" "cdiv (cs_usable cs) 2 = Some (cs_usable cs div 2)"
    using u assms(13,14) by simp_all
  have len: "int (length ?pwr) = cs_usable cs" using clr_spectrum_tones(1) [OF assms(6) cs(2)] u(1) by simp
  have radar: "1 \<le> pr_radar prm" "pr_radar prm \<le> int (length (sv_clr_pwr (deliver RECV ?ans s)))"
    using prm_radar [OF assms(9)] assms(11) by (auto simp: site_consts deliver_def)
  have pre: "sv_heap (deliver RECV ?ans s) p = Some cp" "sv_in (deliver RECV ?ans s) (Driver RECV) =
      W_CLRFreqPRM (cs_prm cs) # W_int (cs_usable cs) # W_doubles ?pwr # drv_msg CLRFREQ_code 1 # sv_in s (Driver RECV)"
    "\<forall>row \<in> set (sv_clr_pwr (deliver RECV ?ans s)). int (length row) = max_freqs" using assms(7,12) by (simp_all add: deliver_def)
  obtain s' arr where s': "receiver_clrfreq we p (deliver RECV ?ans s) = Some s'"
    "sv_heap s' p = Some (cp\<lparr>cp_clrfreqsearch := cs_prm cs, cp_state := Some (st\<lparr>st_N := cs_usable cs, st_fft_array := Some arr\<rparr>)\<rparr>)"
    "sv_in s' = (sv_in (deliver RECV ?ans s))(Driver RECV := sv_in s (Driver RECV))" "int (length arr) = cs_usable cs" "bins (cs_centre cs - cs_usable cs div 2) arr"
    "\<forall>i < length arr. full_clr_start \<le> cs_centre cs - cs_usable cs div 2 + int i \<and> cs_centre cs - cs_usable cs div 2 + int i < full_clr_end \<longrightarrow> ff_pwr (arr ! i) = ?pwr ! i"
    by (rule clrfreq_result [where wait_elapsed = we, OF pre(1) assms(8,10) pre(2) len radar pre(3) div])
  have "sv_out s' = sv_out s @ map (Pair (Driver RECV)) [drv_msg CLRFREQ_code 1, W_CLRFreqPRM ?c, W_ControlPRM prm]"
    using receiver_clrfreq_sends [OF s'(1) pre(1) assms(8)] by simp
  moreover have "sv_in s' = sv_in s" using s'(3) by (simp add: fun_eq_iff)
  ultimately have step: "in_step RECV (recv_msg e) (receiver_clrfreq we p) s t s' t'" unfolding in_step_def using t' s'(1) by blast
  have "ff_pwr (arr ! i) = tone_power ?buf (nat (cs_N cs)) (int i - cs_usable cs div 2)"
    if "i < length arr" "full_clr_start \<le> cs_centre cs - cs_usable cs div 2 + int i \<and> cs_centre cs - cs_usable cs div 2 + int i < full_clr_end" for i
    using s'(4,6) that clr_spectrum_tones(2) [OF assms(6) cs(2), of i ?buf] by auto
  moreover have "state_of s' p = Some (st\<lparr>st_N := cs_usable cs, st_fft_array := Some arr\<rparr>)" using s'(2) by (simp add: state_of_def)
  ultimately show ?thesis
    by (intro exI [of _ s'] exI [of _ t'] exI [of _ cs] exI [of _ "st\<lparr>st_N := cs_usable cs, st_fft_array := Some arr\<rparr>"] exI [of _ arr])
      (use step stays_handled [OF assms(1) step] cs s'(4,5) in simp)
qed

lemma upd_data_runs:
  "sv_heap s p = Some cp \<Longrightarrow> cp_data cp = Some d \<Longrightarrow> upd_data p f s = Some (s\<lparr>sv_heap := (sv_heap s)(p \<mapsto> cp\<lparr>cp_data := Some (f d)\<rparr>)\<rparr>)"
  by (simp add: upd_data_def upd_cp_def)

lemma recv_data_runs:
  assumes "opened t" "prm_cell prm \<noteq> None"
  obtains t' where "recv_msg e [drv_msg GET_DATA_code 1, W_ControlPRM prm] t = Some (t', [],
    if re_wait e 0 = 0 then [W_int 0, W_int 0, W_int 2, W_int 0, W_int (pr_number_of_samples prm), W_ptr (ucast (re_phys e (pr_radar prm - 1, main_input, pr_channel prm - 1))),
        W_ptr (ucast (re_phys e (pr_radar prm - 1, back_input, pr_channel prm - 1))), drv_msg GET_DATA_code 0]
      else [W_int (re_wait e 0), drv_msg GET_DATA_code (re_wait e 0)])"
proof -
  have "issues (recv_devctl (pr_radar prm - 1) (WaitForData (pr_channel prm - 1))) [(pr_radar prm - 1, WaitForData (pr_channel prm - 1))]"
    using radar_card [OF assms(2)] by (intro issues_devctl) auto
  then have w: "recv_devctl (pr_radar prm - 1) (WaitForData (pr_channel prm - 1)) t = Some (t\<lparr>rv_ops := rv_ops t @ [(pr_radar prm - 1, WaitForData (pr_channel prm - 1))]\<rparr>)"
    using assms(1) by (simp add: issues_def)
  obtain k where k: "cell (pr_radar prm - 1) (pr_channel prm - 1) = Some k" using assms(2) by (auto simp: prm_cell_def)
  have c: "rv_configured t" using assms(1) by (simp add: opened_def)
  show thesis
  proof (cases "re_wait e 0 = 0")
    case True
    then show thesis by (intro that) (simp add: w k c recv_msg_def recv_data_msg_def gc314WaitForData_def RECV_SAMPLE_HEADER_def Let_def)
  next
    case False
    then show thesis by (intro that) (simp add: w c recv_msg_def recv_data_msg_def gc314WaitForData_def Let_def)
  qed
qed

text \<open>The data of a program after a request, for the status the receiver reported.\<close>

definition collected :: "recv_env \<Rightarrow> ControlPRM \<Rightarrow> ControlProgram \<Rightarrow> bool" where
  "collected e prm cp \<longleftrightarrow> (case cp_data cp of None \<Rightarrow> False | Some d \<Rightarrow> da_status d = re_wait e 0 \<and>
     (if re_wait e 0 = 0 then da_samples d = pr_number_of_samples prm \<and> da_frame_header d = 2 \<and> da_shm_memory d = 0 \<and>
         cp_main_address cp = uint (re_phys e (pr_radar prm - 1, main_input, pr_channel prm - 1)) \<and>
         cp_back_address cp = uint (re_phys e (pr_radar prm - 1, back_input, pr_channel prm - 1))
      else da_samples d = 0 \<and> cp_main cp = None \<and> cp_back cp = None))"

lemma uint_ptr: "uint (ucast (w :: u32) :: u64) = uint w"
proof -
  have "uint w < 2 ^ 32" using uint_lt2p [of w] by simp
  then show ?thesis by (simp add: unsigned_ucast_eq take_bit_int_eq_self)
qed

text \<open>
  C32: the samples of a program reach the server. A request for data is answered in step: the server stores the status of the receiver, and with status 0
  the number of samples and the addresses of the two buffers of the program's own radar and channel; with any other status it has no samples.
\<close>

theorem data_through_driver:
  assumes "recv_reaches t" "opened t" "sv_heap s p = Some cp" "cp_parameters cp = Some prm" "prm_cell prm \<noteq> None" "cp_state cp = Some st"
    "cp_data cp = Some d" "wait_flag late st = 0"
  shows "\<exists>s' t' cp'. in_step RECV (recv_msg e) (receiver_controlprogram_get_data late shm (Some p)) s t s' t' \<and> recv_reaches t' \<and>
    sv_heap s' p = Some cp' \<and> collected e prm cp'"
proof -
  let ?ws = "[drv_msg GET_DATA_code 1, W_ControlPRM prm]"
  obtain t' ans where t': "recv_msg e ?ws t = Some (t', [], ans)" and ans: "ans = (
    if re_wait e 0 = 0 then [W_int 0, W_int 0, W_int 2, W_int 0, W_int (pr_number_of_samples prm), W_ptr (ucast (re_phys e (pr_radar prm - 1, main_input, pr_channel prm - 1))),
        W_ptr (ucast (re_phys e (pr_radar prm - 1, back_input, pr_channel prm - 1))), drv_msg GET_DATA_code 0]
      else [W_int (re_wait e 0), drv_msg GET_DATA_code (re_wait e 0)])"
    using recv_data_runs [OF assms(2,5), of e] by blast
  have "\<exists>s' cp'. receiver_controlprogram_get_data late shm (Some p) (deliver RECV ans s) = Some s' \<and> sv_out s' = sv_out s @ map (Pair (Driver RECV)) ?ws \<and> sv_in s' = sv_in s \<and>
      sv_heap s' p = Some cp' \<and> collected e prm cp'"
  proof (cases "re_wait e 0 = 0")
    case True
    then show ?thesis using assms(3,4,6-8)
      by (simp add: ans receiver_controlprogram_get_data_def get_data_counts_def get_data_good_def upd_data_runs recv_from_def send_all_def deliver_def upd_cp_def
          collected_def uint_ptr fun_upd_idem_iff)
  next
    case False
    then show ?thesis using assms(3,4,6-8)
      by (simp add: ans receiver_controlprogram_get_data_def get_data_counts_def get_data_failed_def upd_data_runs recv_from_def send_all_def deliver_def upd_cp_def
          collected_def fun_upd_idem_iff)
  qed
  then obtain s' cp' where s': "in_step RECV (recv_msg e) (receiver_controlprogram_get_data late shm (Some p)) s t s' t'" "sv_heap s' p = Some cp'" "collected e prm cp'"
    unfolding in_step_def using t' by blast
  then show ?thesis using stays_handled [OF assms(1) s'(1)] by blast
qed

section \<open>Examples\<close>

text \<open>Two open cards whose receivers deliver a constant signal, and a program that looks for a frequency around 10002 kHz.\<close>

definition recv_new :: recv where
  "recv_new = recv_start [True, True] (\<lambda>_ _. True) (replicate 8 (plain_prm 1 1 0))"

definition steady_env :: recv_env where
  "steady_env = \<lparr>re_wait = (\<lambda>k. if k < 1 then 0 else -1), re_buf = (\<lambda>_ _. 0x00010000), re_phys = (\<lambda>(r, i, c). of_int (0x1000 * i)), re_test = (\<lambda>_ _ _. 0), re_fft = dft\<rparr>"

definition scan_cp :: ControlProgram where
  "scan_cp = search_cp\<lparr>cp_parameters := Some (plain_prm 1 1 0)\<rparr>"

definition scan_server :: server where
  "scan_server = idle_server\<lparr>sv_heap := [7 \<mapsto> scan_cp], sv_threads := [(1, 11, 60, 0, 7)], sv_clr_pwr := [replicate 12000 0, replicate 12000 0]\<rparr>"

lemma recv_new_reaches: "recv_reaches recv_new" "opened recv_new" "rv_armed recv_new = 0"
proof -
  have "recv_started recv_new" unfolding recv_started_def recv_new_def
    by (intro exI [of _ "[True, True]"] exI [of _ "\<lambda>_ _. True"] exI [of _ "replicate 8 (plain_prm 1 1 0)"]) (simp add: MAX_CARDS_def site_consts)
  then show "recv_reaches recv_new" by (rule driver_reaches.started)
qed (simp_all add: recv_new_def recv_start_def opened_def rv_configured_def MAX_CARDS_def)

definition recv_tuned :: recv where
  "recv_tuned = recv_new\<lparr>rv_ready := \<lparr>rt_clients = replicate 8 (plain_prm 1 1 0), rt_num = 1, rt_index = 0 # replicate 7 (-1)\<rparr>\<rparr>"

lemma recv_tuned_reaches: "recv_reaches recv_tuned" "opened recv_tuned" "ready_clients (rv_ready recv_tuned) = [plain_prm 1 1 0]"
proof -
  have "recv_msg e [drv_msg CtrlProg_READY_code 1, W_ControlPRM (plain_prm 1 1 0)] recv_new = Some (recv_tuned, [], [drv_msg CtrlProg_READY_code 1])" for e
    by (simp add: recv_msg_def recv_ready_msg_def plain_cell add_ready_def wrap_ready_def no_ready_def recv_new_def recv_start_def recv_tuned_def IF_ENABLED_def
          aset_def aref_def site_consts Let_def replicate_Suc [symmetric] numeral_eq_Suc)
  then show "recv_reaches recv_tuned" using driver_reaches.handled [OF recv_new_reaches(1)] by blast
  show "opened recv_tuned" using recv_new_reaches(2) by (simp add: recv_tuned_def opened_def rv_configured_def)
  show "ready_clients (rv_ready recv_tuned) = [plain_prm 1 1 0]" by (simp add: recv_tuned_def ready_clients_def)
qed


theorem pretrigger_sets_receivers_witness:
  "\<exists>t'. recv_msg steady_env [drv_msg PRETRIGGER_code 1] recv_tuned = Some (t', [], [drv_msg PRETRIGGER_code 1]) \<and>
     latest (0, Frequency 10000000 0) (rv_ops t') = Some (0, Frequency 10000000 0)"
proof -
  have "(0, Frequency 10000000 0) \<in> set (client_settings (plain_prm 1 1 0))" by (simp add: client_settings_def plain_prm_def)
  then show ?thesis using pretrigger_sets_receivers [OF recv_tuned_reaches(1,2), of steady_env] unfolding recv_tuned_reaches(3) by fastforce
qed

lemma steady_power: "tone_power (re_buf steady_env b) 8 0 = 1"
proof -
  have "iq_sample 0x00010000 = (0, 1)" by (simp add: iq_sample_def Let_def)
  then have "sample 0x00010000 = \<i>" by (simp add: sample_def complex_eq_iff)
  then show ?thesis by (simp add: tone_power_def steady_env_def norm_mult)
qed

lemma scan_plan: "clr_search_plan (cp_clrfreqsearch scan_cp) = Some cs \<Longrightarrow> cs_centre cs = 10002 \<and> cs_N cs = 8 \<and> cs_usable cs = 4"
  by (auto simp: scan_cp_def search_cp_sel clr_search_plan_def pow2_above.simps)

theorem clear_search_through_driver_witness:
  "\<exists>s' t' st' arr. in_step RECV (recv_msg steady_env) (receiver_clrfreq 0 7) scan_server recv_new s' t' \<and> state_of s' 7 = Some st' \<and> st_fft_array st' = Some arr \<and>
     length arr = 4 \<and> ff_freq (arr ! 2) = 10002 \<and> ff_pwr (arr ! 2) = 1"
proof -
  have s: "sv_heap scan_server 7 = Some scan_cp" "cp_parameters scan_cp = Some (plain_prm 1 1 0)" "length (sv_clr_pwr scan_server) = MAX_RADARS"
    "\<forall>row \<in> set (sv_clr_pwr scan_server). int (length row) = max_freqs" "512 \<le> cl_start (cp_clrfreqsearch scan_cp)"
    "cl_start (cp_clrfreqsearch scan_cp) + 2 \<le> cl_end (cp_clrfreqsearch scan_cp)"
    by (simp_all add: scan_server_def scan_cp_def search_cp_sel site_consts max_freqs_def full_clr_start_def full_clr_end_def)
  obtain st where st: "cp_state scan_cp = Some st" by (simp add: scan_cp_def search_cp_sel)
  have e: "(0 :: nat) < 10" "0 \<le> re_wait steady_env 0" "is_dft (re_fft steady_env)" by (simp_all add: steady_env_def is_dft_def)
  obtain s' t' cs st' arr where r: "in_step RECV (recv_msg steady_env) (receiver_clrfreq 0 7) scan_server recv_new s' t'" "clr_search_plan (cp_clrfreqsearch scan_cp) = Some cs"
    "state_of s' 7 = Some st'" "st_fft_array st' = Some arr" "int (length arr) = cs_usable cs" "bins (cs_centre cs - cs_usable cs div 2) arr"
    "\<forall>i < length arr. full_clr_start \<le> cs_centre cs - cs_usable cs div 2 + int i \<and> cs_centre cs - cs_usable cs div 2 + int i < full_clr_end \<longrightarrow>
      ff_pwr (arr ! i) = tone_power (re_buf steady_env (pr_radar (plain_prm 1 1 0) - 1, main_input, 0)) (nat (cs_N cs)) (int i - cs_usable cs div 2)"
    using clear_search_through_driver [OF recv_new_reaches e s(1,2) linked_ok(2) st s(3-6), of 0] by blast
  note p = scan_plan [OF r(2)]
  have "length arr = 4" using r(5) p by simp
  moreover have "ff_freq (arr ! 2) = 10002" using r(6) \<open>length arr = 4\<close> p by (simp add: bins_def)
  moreover have "ff_pwr (arr ! 2) = 1" using r(7) [rule_format, of 2] p \<open>length arr = 4\<close> steady_power by (simp add: full_clr_start_def full_clr_end_def)
  ultimately show ?thesis using r(1,3,4) by blast
qed

theorem data_through_driver_witness:
  "\<exists>s' t' cp'. in_step RECV (recv_msg steady_env) (receiver_controlprogram_get_data False (\<lambda>_ _ _ _ _. []) (Some 7)) scan_server recv_new s' t' \<and>
    sv_heap s' 7 = Some cp' \<and> cp_main_address cp' = 0x2000"
proof -
  have s: "sv_heap scan_server 7 = Some scan_cp" "cp_parameters scan_cp = Some (plain_prm 1 1 0)" by (simp_all add: scan_server_def scan_cp_def)
  obtain st d where st: "cp_state scan_cp = Some st" "cp_data scan_cp = Some d" by (simp add: scan_cp_def search_cp_def new_cp_def control_init_def)
  have w: "wait_flag False st = 0" by (simp add: wait_flag_def)
  obtain s' t' cp' where "in_step RECV (recv_msg steady_env) (receiver_controlprogram_get_data False (\<lambda>_ _ _ _ _. []) (Some 7)) scan_server recv_new s' t'"
    "sv_heap s' 7 = Some cp'" "collected steady_env (plain_prm 1 1 0) cp'"
    using data_through_driver [OF recv_new_reaches(1,2) s linked_ok(2) st(1,2) w] by blast
  then show ?thesis by (auto simp: collected_def steady_env_def main_input_def split: option.splits)
qed

end
