(* ===== verification/Whole_Trigger.thy ===== *)
theory Whole_Trigger
  imports Clear_Search
begin

text \<open>
  A whole trigger: the coordination handler of the server (\<^verbatim>\<open>server/coordination_handler.c\<close>) together with the models of the timing, digital I/O,
  synthesiser, receiver and GPS drivers. The answers each driver gives to the requests of a trigger are delivered to the server, which runs with them.
\<close>

section \<open>Requests\<close>

lemma recv_serves:
  assumes "recv_reaches w" "opened w"
  obtains w' m1 m2 where "serve (recv_msg e) recv_requests w = Some (w', [W_DriverMsg m1, W_DriverMsg m2])" "rv_armed w' = 0" "ready_clients (rv_ready w') = []"
    "\<exists>ops. rv_ops w' = rv_ops w @ arm_ops (ready_clients (rv_ready w)) @ ops"
proof -
  let ?m = "\<lparr>dm_type = PRETRIGGER_code, dm_status = 1\<rparr>"
  have ok: "recv_ok w" by (rule recv_link.reaches_invar [OF assms(1)])
  obtain w1 where w1: "recv_msg e [drv_msg PRETRIGGER_code 1] w = Some (w1, [], [drv_msg PRETRIGGER_code 1])"
    "w1 = w\<lparr>rv_ops := rv_ops w @ arm_ops (ready_clients (rv_ready w)), rv_armed := 1\<rparr>"
    using recv_pretrigger_runs [OF ok assms(2), of e ?m] by simp
  have o1: "opened w1" "recv_ok w1" using assms(2) ok by (simp_all add: w1(2) opened_def rv_configured_def recv_ok_def)
  have w2: "recv_msg e [drv_msg POSTTRIGGER_code 1] w1 =
      Some (w1\<lparr>rv_armed := 0, rv_ready := clear_ready (rv_ready w1), rv_ops := rv_ops w1 @ map (\<lambda>c. (c, ExternalTrigger False)) all_cards\<rparr>, [], [drv_msg POSTTRIGGER_code 0])"
    using recv_posttrigger_runs [OF o1(2,1), of e "\<lparr>dm_type = POSTTRIGGER_code, dm_status = 1\<rparr>"] by simp
  show thesis by (rule that [of "w1\<lparr>rv_armed := 0, rv_ready := clear_ready (rv_ready w1), rv_ops := rv_ops w1 @ map (\<lambda>c. (c, ExternalTrigger False)) all_cards\<rparr>"])
    (use w1 w2 in \<open>simp_all add: recv_requests_def clear_ready_def ready_clients_def\<close>)
qed

text \<open>The requests of a trigger, driver by driver.\<close>

definition trigger_requests :: "int \<Rightarrow> int \<Rightarrow> drv \<Rightarrow> wire list list" where
  "trigger_requests ty radar d = (case d of TIMING \<Rightarrow> timing_requests ty | DIO \<Rightarrow> dio_requests radar | DDS \<Rightarrow> dds_requests | RECV \<Rightarrow> recv_requests | GPS \<Rightarrow> gps_requests)"

lemma trigger_requests_sent:
  assumes "distinct sched" "set sched = {RECV, DDS, DIO, TIMING}"
  shows "map snd (filter (\<lambda>x. fst x = Driver d) (trigger_trace sched ty (tx_items radar))) = concat (trigger_requests ty radar d)"
  using trigger_trace_sent [OF assms] by (cases d) (simp_all only: trigger_requests_def drv.case)

section \<open>A trigger\<close>


section \<open>Example\<close>


end
