(* ===== verification/Spec2Isabelle.thy ===== *)
theory Spec2Isabelle
  imports Data_Transport Iniparser Thread_List Server_Runs Startup Whole_Trigger
begin

text \<open>
  The Radar Operating System (\<^verbatim>\<open>src/ros6\<close>) runs a SuperDARN radar. Control programs connect to a server over
  TCP, register on a radar and channel, hand over pulse sequences, search for a clear frequency and declare themselves
  ready. When every active program is ready the server triggers: it tells one process per piece of hardware (timing card, synthesisers,
  digital I/O, receivers, GPS clock) what to do and collects the results. All processes talk in \<^verbatim>\<open>struct DriverMsg\<close> and
  \<^verbatim>\<open>struct ROSMsg\<close> messages followed by raw C structures.

  \<^bold>\<open>Conventions.\<close> \<open>None\<close> of the option monad is undefined behaviour of C or a process that never returns: an index out of range,
  a null or dangling pointer, a division by zero, a receive on a socket with nothing (or something else) to read. A theorem that
  a call returns therefore says that none of this happens. \<open>ROS_Prelude\<close> has the arrays with bounds checks
  (\<open>aref\<close>, \<open>aset\<close>), C division, the widths of the machine types and the theorem collections; integers are words where the code
  depends on their width and \<open>int\<close> elsewhere; \<^verbatim>\<open>float\<close> and \<^verbatim>\<open>double\<close> are reals. Sockets are lists of typed items (\<open>wire\<close>): what a process has
  sent in order, and what it will receive; \<open>Data_Transport\<close> (\<^verbatim>\<open>utils.c\<close>) shows that the bytes of an item arrive as they were sent. Mutexes disappear: a function that holds one is a step. Threads that a
  function creates and joins run in an order that is an argument, and theorems hold for every order. Output to the
  terminal and log files is not modelled.

  \<^bold>\<open>Configuration.\<close> \<open>Dictionary\<close> is \<^verbatim>\<open>iniparser3.0b/src/dictionary.c\<close> with its growing arrays and hash; its invariant and the
  interpretation of the locale of a string map are what \<open>Iniparser\<close> (\<^verbatim>\<open>iniparser.c\<close>: line classes by \<^verbatim>\<open>sscanf\<close>, continuation
  lines, the load loop, typed lookups) builds on. \<open>Startup\<close> is \<^verbatim>\<open>server/settings_handler.c\<close> and the part of \<^verbatim>\<open>server/main.c\<close> before
  the accept loop. The properties are round trips: a printed ini file, site file or restriction file is read back as
  written, and the settings arrive at the port of the receiver front end.

  \<^bold>\<open>Pulse sequences.\<close> \<open>TSG\<close> is \<^verbatim>\<open>tsg/maketsg.c\<close>: the state table of a pulse, the validation, the scheduling loop and
  the run-length writer. It is a terminating loop over the pulses, the samples and the state; the properties say that it returns, that the
  transmitter is never keyed without attenuators and receiver gate on 60 microseconds ahead, and that there is one sample gate per sample.

  \<^bold>\<open>Server.\<close> \<open>ROS_Types\<close> has the structures of \<^verbatim>\<open>include/control_program.h\<close> and \<^verbatim>\<open>global_server_variables.h\<close>, \<open>Server_State\<close> the
  globals of the server: control programs live in a heap, because thread list and channel table share them. \<open>Thread_List\<close>
  is the doubly linked list of clients at the level of pointers and refines an abstract list. \<open>Radar_Channels\<close> (registration,
  merged parameters), \<open>Driver_Comm\<close> (the conversations of \<^verbatim>\<open>timing_handler.c\<close>, \<^verbatim>\<open>dio_handler.c\<close>, \<^verbatim>\<open>dds_handler.c\<close> and \<^verbatim>\<open>reciever_handler.c\<close>),
  \<open>Coordination\<close> (\<^verbatim>\<open>coordination_handler.c\<close>), \<open>Clear_Freq\<close> (frequency search and assignment of \<^verbatim>\<open>reciever_handler.c\<close>) and
  \<open>Client_Handler\<close> (every command of \<^verbatim>\<open>client_handler.c\<close>) are the operations; \<open>Server_Runs\<close> composes them into a step relation
  with connections (\<^verbatim>\<open>main.c\<close>) and the timeout sweep (\<^verbatim>\<open>timeout_handler.c\<close>) and proves the invariant that ties heap, table and
  list together for all reachable states. On it rest the safety properties (a trigger fires exactly when all are ready; an assigned
  frequency is free; an unregistered client moves no driver) and those that the server answers.

  \<^bold>\<open>Drivers.\<close> \<open>Driver_Common\<close> has the table of ready clients that four drivers share and its refinement to a list.
  \<open>Timing_Driver\<close> (\<^verbatim>\<open>timing_tcp_driver\<close>: unpacking, merging, transmit times, DMA state machine), \<open>Dds_Driver\<close>
  (\<^verbatim>\<open>ddsserver_tcp_driver\<close>: sample buffers, levels, tuning) and \<open>Dio_Driver\<close> (\<^verbatim>\<open>dio_tcp_driver\<close>: beams, transmitter status, front end) have
  one definition per message and a dispatcher. \<open>Gps_Time\<close> and \<open>Gps_Driver\<close> are \<^verbatim>\<open>gps_tcp_driver\<close>: the calendar of the C library, the
  conversions between the decimal digits of the card and seconds (exact for every time from 1970 to 2038), and the process that answers with them and corrects the
  system clock. \<open>Receiver_Driver\<close> is \<^verbatim>\<open>gc314_tcp_driver\<close>: every command to the cards is recorded, so that theorems can say what a channel was
  last told, and the spectrum of a clear frequency search is computed from the samples of the card. What a register shows when it is read is an argument, so that theorems hold for any
  hardware; loops over messages are the induction of \<open>driver_reaches\<close>.

  \<^bold>\<open>Composition.\<close> \<open>Driver_Protocol\<close> puts both sides together. The locale \<open>driver_link\<close> states the contract of a driver
  process (an invariant from start-up on, and one answer per request) and is interpreted on the five drivers; \<open>in_step\<close> says that
  server call and driver consume exactly what the other sends. \<open>Clear_Search\<close> runs the clear frequency search of the server through the receiver
  driver: each bin the server assigns frequencies from holds the magnitude of the correlation of the samples with the tone of that frequency. \<open>Whole_Trigger\<close> runs a whole
  trigger through the server and the five drivers in any states they can reach.

  \<^bold>\<open>Bounds.\<close> Loops are structural or have a termination proof with a measure; there is no fuel. Site constants (two radars, four
  channels each, 30 clients, 100 pulses, buffer sizes) are those of the headers under \<^verbatim>\<open>src/ros6/*/include\<close>.

  \<^bold>\<open>Not modelled.\<close> The second receiver driver \<^verbatim>\<open>gc316_tcp_driver\<close>, which a site builds instead of the first, and the branches of the first for
  imaging radars (\<^verbatim>\<open>IMAGING\<close> is 0). The Fourier transform is a parameter of the receiver driver; the one hypothesis about it is that it is the discrete Fourier
  transform. The resource managers of the cards (\<^verbatim>\<open>ics660_drv\<close>, \<^verbatim>\<open>gc314FS_driver.1.31\<close>), opening PCI devices and sockets, the
  unused handlers (\<^verbatim>\<open>status_handler.c\<close>, \<^verbatim>\<open>log_handler.c\<close>, \<^verbatim>\<open>dummy_handler.c\<close>), the calibration programs and the vendored FFT library are
  outside the development.
\<close>

end
